(* ===== verification/Prelude.thy ===== *)
theory Prelude
  imports Main "HOL-Library.Word"
begin

unbundle bit_operations_syntax

text \<open>
  Prelude of the development.  It fixes the types every component shares
  (machine integers at their width, byte memory, the kinds of undefined
  behaviour and C++ exceptions), the result type in which every operation
  reports them, the little-endian byte layout of the target (x86-64, see
  \<^verbatim>\<open>CMakeLists.txt\<close>, ARCHITECTURE), and the lemmas about these that the
  component theories use as automation.

  A C object that is accessed through pointers is a list of bytes; a pointer
  into it is an offset.  \<open>load\<close> and \<open>store\<close> are total functions that report an
  access outside the object as a fault, so a theorem that an operation returns
  \<open>Inr\<close> is in particular a proof that it stays in bounds.
\<close>

named_theorems result_simps \<open>unfolding the result monad\<close>
named_theorems mem_simps \<open>loads, stores and lengths of byte memory\<close>
named_theorems const_simps \<open>numeric values of the source's macros\<close>

section \<open>Machine integers and byte memory\<close>

type_synonym u8 = "8 word"
type_synonym u16 = "16 word"
type_synonym u32 = "32 word"
type_synonym u64 = "64 word"
type_synonym bytes = "u8 list"

text \<open>An IEEE single as the message code moves it: its bit pattern (\<open>Wiimote\<close> alone calculates with floats).\<close>

type_synonym float32 = "32 word"

section \<open>Faults and results\<close>

text \<open>
  What can stop a modelled operation: undefined behaviour of the C code
  (an access outside an object, a null dereference, a shift by the width or
  more, a read of an uninitialised object or of one that is gone) and the exceptions the C++ standard
  library throws in the modelled code (\<open>No_State\<close> is \<^verbatim>\<open>future_error\<close> of a future without a promise).
\<close>

datatype fault =
    Out_Of_Bounds
  | Null_Deref
  | Bad_Shift
  | Uninitialised
  | Dangling
  | Future_Already_Retrieved
  | Promise_Already_Satisfied
  | Thread_Not_Joinable
  | Terminated
  | No_State
  | Bad_Function_Call

type_synonym 'a res = "fault + 'a"

definition bindR :: "'a res \<Rightarrow> ('a \<Rightarrow> 'b res) \<Rightarrow> 'b res" where
  "bindR m f = (case m of Inl e \<Rightarrow> Inl e | Inr x \<Rightarrow> f x)"

lemma bindR_Inl [simp, result_simps]: "bindR (Inl e) f = Inl e"
  by (simp add: bindR_def)

lemma bindR_Inr [simp, result_simps]: "bindR (Inr x) f = f x"
  by (simp add: bindR_def)

lemma bindR_assoc: "bindR (bindR m f) g = bindR m (\<lambda>x. bindR (f x) g)"
  by (cases m) auto

lemma bindR_eq_Inr: "bindR m f = Inr y \<longleftrightarrow> (\<exists>x. m = Inr x \<and> f x = Inr y)"
  by (cases m) auto

lemma bindR_eq_Inl: "bindR m f = Inl e \<longleftrightarrow> m = Inl e \<or> (\<exists>x. m = Inr x \<and> f x = Inl e)"
  by (cases m) auto

lemma bindR_InrE:
  assumes "bindR m f = Inr y"
  obtains x where "m = Inr x" and "f x = Inr y"
  using assms by (auto simp: bindR_eq_Inr)

section \<open>Loads and stores\<close>

definition load :: "bytes \<Rightarrow> nat \<Rightarrow> nat \<Rightarrow> bytes res" where
  "load d p n = (if p + n \<le> length d then Inr (take n (drop p d)) else Inl Out_Of_Bounds)"

definition store :: "bytes \<Rightarrow> nat \<Rightarrow> bytes \<Rightarrow> bytes res" where
  "store d p bs =
     (if p + length bs \<le> length d
      then Inr (take p d @ bs @ drop (p + length bs) d) else Inl Out_Of_Bounds)"

lemma load_Inr_iff:
  "load d p n = Inr bs \<longleftrightarrow> p + n \<le> length d \<and> bs = take n (drop p d)"
  by (auto simp: load_def)

lemma load_length: "load d p n = Inr bs \<Longrightarrow> length bs = n"
  by (auto simp: load_def split: if_splits)

lemma store_Inr_iff:
  "store d p bs = Inr d' \<longleftrightarrow>
     p + length bs \<le> length d \<and> d' = take p d @ bs @ drop (p + length bs) d"
  by (auto simp: store_def)

lemma store_length [mem_simps]: "store d p bs = Inr d' \<Longrightarrow> length d' = length d"
  by (auto simp: store_def split: if_splits)

lemma load_mid [mem_simps]:
  "length xs = p \<Longrightarrow> length ys = n \<Longrightarrow> load (xs @ ys @ zs) p n = Inr ys"
  by (simp add: load_def)

lemma store_mid [mem_simps]:
  "length xs = p \<Longrightarrow> length ys = length bs \<Longrightarrow> store (xs @ ys @ zs) p bs = Inr (xs @ bs @ zs)"
  by (simp add: store_def)

text \<open>A load after a store: the same place gives the stored bytes, a disjoint place is untouched.\<close>

lemma load_store_same:
  assumes "store d p bs = Inr d'" and "n = length bs"
  shows "load d' p n = Inr bs"
  using assms by (auto simp: store_def load_def split: if_splits)

lemma load_store_disjoint:
  assumes "store d p bs = Inr d'" and "q + n \<le> p \<or> p + length bs \<le> q"
  shows "load d' q n = load d q n"
  using assms
  by (auto simp: store_def load_def min_def take_drop split: if_splits)

section \<open>Little-endian layout of words\<close>

definition le_bytes :: "'a::len word \<Rightarrow> bytes" where
  "le_bytes w = map (\<lambda>i. ucast (drop_bit (8 * i) w)) [0..<LENGTH('a) div 8]"

fun le_word :: "bytes \<Rightarrow> 'a::len word" where
  "le_word [] = 0"
| "le_word (b # bs) = ucast b OR push_bit 8 (le_word bs)"

lemma length_le_bytes [simp, mem_simps]: "length (le_bytes (w :: 'a::len word)) = LENGTH('a) div 8"
  by (simp add: le_bytes_def)


lemma bit_le_word:
  "bit (le_word bs :: 'a::len word) n \<longleftrightarrow>
     n < LENGTH('a) \<and> n div 8 < length bs \<and> bit (bs ! (n div 8)) (n mod 8)"
proof (induction bs arbitrary: n)
  case Nil
  then show ?case by simp
next
  case (Cons b bs)
  show ?case
  proof (cases "n < 8")
    case True
    then show ?thesis
      by (auto simp: bit_or_iff bit_ucast_iff bit_push_bit_iff dest: bit_imp_le_length)
  next
    case False
    then have "n div 8 = Suc ((n - 8) div 8)" and "n mod 8 = (n - 8) mod 8"
      by (simp_all add: le_div_geq le_mod_geq)
    moreover have "\<not> bit b n"
      using False by (auto dest: bit_imp_le_length)
    ultimately show ?thesis
      using False Cons.IH [of "n - 8"]
      by (auto simp: bit_or_iff bit_ucast_iff bit_push_bit_iff)
  qed
qed

lemma nth_le_bytes:
  "i < LENGTH('a) div 8 \<Longrightarrow> le_bytes (w :: 'a::len word) ! i = ucast (drop_bit (8 * i) w)"
  by (simp add: le_bytes_def)

text \<open>The two round-trip laws of the layout, for a width that is a multiple of eight.\<close>

lemma le_word_le_bytes:
  assumes "8 dvd LENGTH('a)"
  shows "le_word (le_bytes (w :: 'a::len word)) = w"
proof (rule bit_word_eqI)
  fix n assume n: "n < LENGTH('a)"
  with assms have "n div 8 < LENGTH('a) div 8"
    by (auto elim!: dvdE)
  then show "bit (le_word (le_bytes w) :: 'a word) n = bit w n"
    using n by (simp add: bit_le_word nth_le_bytes bit_ucast_iff bit_drop_bit_eq)
qed

lemma le_bytes_le_word:
  assumes "length bs * 8 = LENGTH('a)"
  shows "le_bytes (le_word bs :: 'a::len word) = bs"
proof (rule nth_equalityI)
  show len: "length (le_bytes (le_word bs :: 'a word)) = length bs"
    using assms by simp
  fix i assume "i < length (le_bytes (le_word bs :: 'a word))"
  then have i: "i < length bs" using len by simp
  show "le_bytes (le_word bs :: 'a word) ! i = bs ! i"
  proof (rule bit_word_eqI)
    fix n assume "n < LENGTH(8)"
    then have n: "n < 8" by simp
    then show "bit (le_bytes (le_word bs :: 'a word) ! i) n = bit (bs ! i) n"
      using i assms by (auto simp: nth_le_bytes bit_ucast_iff bit_drop_bit_eq bit_le_word)
  qed
qed

definition load_word :: "bytes \<Rightarrow> nat \<Rightarrow> 'a::len word res" where
  "load_word d p = bindR (load d p (LENGTH('a) div 8)) (\<lambda>bs. Inr (le_word bs))"

definition store_word :: "bytes \<Rightarrow> nat \<Rightarrow> 'a::len word \<Rightarrow> bytes res" where
  "store_word d p w = store d p (le_bytes w)"

lemma store_word_length [mem_simps]: "store_word d p w = Inr d' \<Longrightarrow> length d' = length d"
  by (simp add: store_word_def store_length)

lemma load_word_store_same:
  assumes "store_word d p (w :: 'a::len word) = Inr d'" and "8 dvd LENGTH('a)"
  shows "load_word d' p = Inr w"
  using assms load_store_same [of d p "le_bytes w" d']
  by (simp add: store_word_def load_word_def le_word_le_bytes)

lemma load_word_store_disjoint:
  assumes "store_word d p (w :: 'a::len word) = Inr d'"
    and "q + LENGTH('b) div 8 \<le> p \<or> p + LENGTH('a) div 8 \<le> q"
  shows "(load_word d' q :: 'b::len word res) = load_word d q"
  using assms load_store_disjoint [of d p "le_bytes w" d' q "LENGTH('b) div 8"]
  by (simp add: store_word_def load_word_def)

lemma load_word_Inr:
  "p + LENGTH('a) div 8 \<le> length d \<Longrightarrow> \<exists>w. load_word d p = Inr (w :: 'a::len word)"
  by (simp add: load_word_def load_def)

lemma store_word_Inr:
  "p + LENGTH('a) div 8 \<le> length d \<Longrightarrow> \<exists>d'. store_word d p (w :: 'a::len word) = Inr d'"
  by (simp add: store_word_def store_def)

lemma load_word_Inl:
  "length d < p + LENGTH('a) div 8 \<Longrightarrow> load_word d p = (Inl Out_Of_Bounds :: 'a::len word res)"
  by (simp add: load_word_def load_def)

text \<open>Filling an object from the front: a store at the end of what is already written.\<close>

lemma store_front:
  "length xs = p \<Longrightarrow> length bs \<le> length ys \<Longrightarrow>
    store (xs @ ys) p bs = Inr ((xs @ bs) @ drop (length bs) ys)"
  by (simp add: store_def)

lemma store_word_front:
  "length xs = p \<Longrightarrow> LENGTH('a) div 8 \<le> length ys \<Longrightarrow>
    store_word (xs @ ys) p (w :: 'a::len word) =
      Inr ((xs @ le_bytes w) @ drop (LENGTH('a) div 8) ys)"
  by (simp add: store_word_def store_front)

lemma store_word_at:
  "length xs = p \<Longrightarrow> p + LENGTH('a) div 8 \<le> length d \<Longrightarrow>
    store_word (xs @ drop p d) p (w :: 'a::len word) =
      Inr (xs @ le_bytes w @ drop (p + LENGTH('a) div 8) d)"
  by (simp add: store_word_front add.commute)

lemma take_drop_mid: "d = xs @ ys @ zs \<Longrightarrow> n = length xs \<Longrightarrow> take (length ys) (drop n d) = ys"
  by simp

lemma load_word_mid:
  "length xs = p \<Longrightarrow> length bs = LENGTH('a) div 8 \<Longrightarrow>
    load_word (xs @ bs @ zs) p = Inr (le_word bs :: 'a::len word)"
  by (simp add: load_word_def load_mid)

lemma load_word_at:
  assumes "d = xs @ le_bytes (w :: 'a::len word) @ zs" and "length xs = p" and "8 dvd LENGTH('a)"
  shows "load_word d p = Inr w"
  using assms by (simp add: load_word_mid le_word_le_bytes)

lemma le_bytes_u8 [simp]: "le_bytes (w :: u8) = [w]"
  by (simp add: le_bytes_def)

lemma load_word_u8:
  "p < length d \<Longrightarrow> load_word d p = Inr (d ! p :: u8)"
  by (simp add: load_word_def load_def Cons_nth_drop_Suc [symmetric])

text \<open>A word read from fewer bytes than its width: the upper bytes are what follows.\<close>

lemma ucast_le_word:
  assumes "length bs * 8 = LENGTH('b)" and "LENGTH('b) \<le> LENGTH('a)"
  shows "ucast (le_word (bs @ cs) :: 'a::len word) = (le_word bs :: 'b::len word)"
proof (rule bit_word_eqI)
  fix n assume "n < LENGTH('b)"
  then have "n div 8 < length bs" using assms(1) by (simp add: less_mult_imp_div_less)
  then show "bit (ucast (le_word (bs @ cs) :: 'a word) :: 'b word) n = bit (le_word bs :: 'b word) n"
    using \<open>n < LENGTH('b)\<close> assms(2) by (simp add: bit_ucast_iff bit_le_word nth_append)
qed

section \<open>Error numbers\<close>

text \<open>The values of \<^verbatim>\<open>errno\<close> the message code sets; \<open>ENONE\<close> is 0.\<close>

datatype errno = ENONE | EINVAL | ERANGE | EBADMSG

section \<open>Decimal numbers\<close>

text \<open>What \<^verbatim>\<open>std::to_string\<close> and \<^verbatim>\<open>%d\<close> print of a number that is not negative.\<close>

fun digits :: "nat \<Rightarrow> string" where
  "digits n = (if n < 10 then [char_of (48 + n)] else digits (n div 10) @ [char_of (48 + n mod 10)])"

declare digits.simps [simp del]

end
