(* ===== verification/Checksum.thy ===== *)
theory Checksum
  imports Prelude
begin

text \<open>
  Model of \<^verbatim>\<open>src/messages/checksum.c\<close>: the checksum of a buffer is the number of
  its one bits, truncated to 16 bits.  The counter is a C \<^verbatim>\<open>int\<close>; it stays below
  its maximum for any buffer shorter than 256 MiB, so only the truncation to
  \<^verbatim>\<open>uint16_t\<close> on return is written out.
\<close>

text \<open>\<^verbatim>\<open>for (uint8_t value = *temp; value; value >>= 1) if (value & 0x1) ret++;\<close>\<close>

function count_ones :: "u8 \<Rightarrow> nat \<Rightarrow> nat" where
  "count_ones value ret =
     (if value = 0 then ret
      else count_ones (drop_bit 1 value) (if value AND 1 \<noteq> 0 then ret + 1 else ret))"
  by pat_completeness auto
termination
proof (relation "measure (\<lambda>(v, _). unat v)")
  fix v :: u8 and r
  assume "v \<noteq> 0"
  then have "0 < unat v" by (simp add: unat_gt_0)
  moreover have "unat (drop_bit 1 v) = unat v div 2"
    using unat_drop_bit_eq [of 1 v] by (simp only: drop_bit_eq_div power_one_right)
  ultimately show "((drop_bit 1 v, if v AND 1 \<noteq> 0 then r + 1 else r), v, r)
      \<in> measure (\<lambda>(v, _). unat v)"
    by (simp only: in_measure prod.case)
qed simp

declare count_ones.simps [simp del]

fun checksum_loop :: "bytes \<Rightarrow> nat \<Rightarrow> nat \<Rightarrow> nat \<Rightarrow> nat res" where
  "checksum_loop data index 0 ret = Inr ret"
| "checksum_loop data index (Suc todo) ret =
     bindR (load_word data index) (\<lambda>value.
       checksum_loop data (index + 1) todo (count_ones value ret))"

definition create_checksum :: "bytes \<Rightarrow> nat \<Rightarrow> u16 res" where
  "create_checksum data byte_size =
     bindR (checksum_loop data 0 byte_size 0) (\<lambda>ret. Inr (of_nat ret))"

definition validate_checksum :: "bytes \<Rightarrow> nat \<Rightarrow> u16 \<Rightarrow> bool res" where
  "validate_checksum data byte_size checksum =
     bindR (create_checksum data byte_size) (\<lambda>c. Inr (checksum = c))"

text \<open>The specification: the number of set bits of a byte.\<close>

definition ones :: "u8 \<Rightarrow> nat" where
  "ones b = card {i. bit b i}"

lemma finite_bits [simp, intro]: "finite {i. bit (w :: 'a::len word) i}"
  by (rule finite_subset [of _ "{..<LENGTH('a)}"]) (auto dest: bit_imp_le_length)

lemma ones_drop_bit: "ones b = ones (drop_bit 1 b) + (if bit b 0 then 1 else 0)"
proof -
  have "{i. bit b i} = Suc ` {i. bit b (Suc i)} \<union> (if bit b 0 then {0} else {})"
    by (auto simp: image_iff) (metis not0_implies_Suc)+
  moreover have "finite {i. bit b (Suc i)}"
    by (rule finite_subset [of _ "{..<8}"]) (auto dest!: bit_imp_le_length)
  ultimately have "ones b = card {i. bit b (Suc i)} + (if bit b 0 then 1 else 0)"
    by (auto simp: ones_def card_image card_insert_if)
  moreover have "{i. bit (drop_bit 1 b) i} = {i. bit b (Suc i)}"
    by (simp add: bit_drop_bit_eq del: drop_bit_of_Suc_0)
  ultimately show ?thesis by (simp only: ones_def)
qed

lemma count_ones_eq: "count_ones v r = r + ones v"
proof (induction v r rule: count_ones.induct)
  case (1 v r)
  show ?case
  proof (cases "v = 0")
    case True
    then show ?thesis by (simp add: count_ones.simps ones_def)
  next
    case False
    have "v AND 1 \<noteq> 0 \<longleftrightarrow> bit v 0" by (simp add: bit_0 and_one_eq mod_2_eq_odd)
    with False "1.IH" ones_drop_bit [of v] show ?thesis
      by (subst count_ones.simps) simp
  qed
qed

lemma checksum_loop_eq:
  "index + todo \<le> length data \<Longrightarrow>
    checksum_loop data index todo ret = Inr (ret + sum_list (map ones (take todo (drop index data))))"
proof (induction todo arbitrary: index ret)
  case 0
  then show ?case by simp
next
  case (Suc todo)
  then have i: "index < length data" by simp
  then have "load_word data index = Inr (data ! index)"
    by (simp add: load_word_def load_def Cons_nth_drop_Suc [symmetric])
  then show ?case using Suc i
    by (simp add: count_ones_eq Cons_nth_drop_Suc [symmetric])
qed

lemma create_checksum_eq:
  "n \<le> length data \<Longrightarrow> create_checksum data n = Inr (of_nat (sum_list (map ones (take n data))))"
  by (simp add: create_checksum_def checksum_loop_eq)

lemma ones_le: "ones b \<le> 8"
proof -
  have "card {i. bit b i} \<le> card {..<8 :: nat}"
    by (rule card_mono) (auto dest: bit_imp_le_length)
  then show ?thesis by (simp add: ones_def)
qed

lemma ones_flip_bit:
  assumes "k < 8"
  shows "ones (flip_bit k b) = (if bit b k then ones b - 1 else ones b + 1)"
proof -
  have "{i. bit (flip_bit k b) i} = (if bit b k then {i. bit b i} - {k} else insert k {i. bit b i})"
    using assms by (auto simp: bit_flip_bit_iff dest: bit_imp_le_length)
  then show ?thesis by (auto simp: ones_def card_insert_if)
qed

lemma ones_pos: "bit b k \<Longrightarrow> 0 < ones b"
  by (auto simp: ones_def card_gt_0_iff)

lemma sum_ones_flip:
  assumes "i < length xs" and "k < 8"
  shows "sum_list (map ones (xs[i := flip_bit k (xs ! i)])) + (if bit (xs ! i) k then 1 else 0) =
    sum_list (map ones xs) + (if bit (xs ! i) k then 0 else 1)"
proof -
  have "xs ! i \<in> set xs" using assms by simp
  then have "ones (xs ! i) \<le> sum_list (map ones xs)"
    by (intro member_le_sum_list) auto
  moreover have "map ones (xs[i := flip_bit k (xs ! i)]) =
      (map ones xs)[i := ones (flip_bit k (xs ! i))]"
    by (simp add: map_update)
  ultimately show ?thesis
    using assms ones_pos [of "xs ! i" k]
    by (auto simp: sum_list_update ones_flip_bit)
qed

text \<open>
  C35: the checksum that \<^verbatim>\<open>create_checksum\<close> makes of the first \<open>n\<close> bytes of a buffer, which has at least as many, is accepted by
  \<^verbatim>\<open>validate_checksum\<close> for that buffer, and rejected for the buffer with any single bit of these
  bytes flipped, although the sum of the bits wraps at 16 bits.
\<close>

theorem checksum_detects_bit_flip:
  assumes "n \<le> length data" and "i < n" and "k < 8"
  shows "bindR (create_checksum data n) (validate_checksum data n) = Inr True \<and>
    bindR (create_checksum data n)
      (validate_checksum (data[i := flip_bit k (data ! i)]) n) = Inr False"
proof -
  let ?xs = "take n data"
  let ?S = "sum_list (map ones ?xs)"
  let ?S' = "sum_list (map ones (?xs[i := flip_bit k (?xs ! i)]))"
  have "take n (data[i := flip_bit k (data ! i)]) = ?xs[i := flip_bit k (?xs ! i)]"
    using assms by (simp add: take_update_swap)
  moreover have "?S' + (if bit (?xs ! i) k then 1 else 0) = ?S + (if bit (?xs ! i) k then 0 else 1)"
    using assms by (intro sum_ones_flip) auto
  then have "?S = Suc ?S' \<or> ?S' = Suc ?S" by (auto split: if_splits)
  then have "(of_nat ?S :: u16) \<noteq> of_nat ?S'" by auto
  ultimately show ?thesis
    using assms by (auto simp: validate_checksum_def create_checksum_eq)
qed

theorem checksum_detects_bit_flip_witness:
  "(2 :: nat) \<le> length [7, 9 :: u8] \<and> (1 :: nat) < 2 \<and> (3 :: nat) < 8 \<and>
   bindR (create_checksum [7, 9] 2) (validate_checksum [7, 9] 2) = Inr True \<and>
   bindR (create_checksum [7, 9] 2) (validate_checksum [7, 1] 2) = Inr False"
  using checksum_detects_bit_flip [of 2 "[7, 9]" 1 3]
  by (simp add: flip_bit_eq_xor)

end
