(* ===== verification/Ping_Message.thy ===== *)
theory Ping_Message
  imports Prelude
begin

text \<open>
  Model of \<^verbatim>\<open>src/messages/ping_message.c\<close> and its headers
  \<^verbatim>\<open>ping_message.h\<close> and \<^verbatim>\<open>ping_message_keys.h\<close>: the ICMP-like ping packet,
  its wire layout for protocol version 1, and the two translations between the
  fields of a \<^verbatim>\<open>ping_buffer\<close> and the bytes of a packet.
\<close>

section \<open>Keys\<close>

definition PROTOCOL_VERSION :: u8 where [const_simps]: "PROTOCOL_VERSION = 1"
definition PING :: u8 where [const_simps]: "PING = 2"
definition PING_HEADER_SIZE :: nat where [const_simps]: "PING_HEADER_SIZE = 11"

definition UNDEF :: u8 where [const_simps]: "UNDEF = 0"
definition ACK :: u8 where [const_simps]: "ACK = 1"
definition INVALID_REQUEST :: u8 where [const_simps]: "INVALID_REQUEST = 3"
definition STATE_REQUEST :: u8 where [const_simps]: "STATE_REQUEST = 8"
definition MAX_PING_TYPE :: u8 where [const_simps]: "MAX_PING_TYPE = STATE_REQUEST"

definition PROTOPOS_PING :: nat where [const_simps]: "PROTOPOS_PING = 0"
definition OPPOS_PING :: nat where [const_simps]: "OPPOS_PING = PROTOPOS_PING + 1"
definition TYPEPOS_PING :: nat where [const_simps]: "TYPEPOS_PING = OPPOS_PING + 1"
definition CODEPOS_PING :: nat where [const_simps]: "CODEPOS_PING = TYPEPOS_PING + 1"
definition CHECKPOS_PING :: nat where [const_simps]: "CHECKPOS_PING = CODEPOS_PING + 2"
definition EXCESSPOS_PING :: nat where [const_simps]: "EXCESSPOS_PING = CHECKPOS_PING + 2"
definition PING_MESSAGE_SIZE :: nat where [const_simps]: "PING_MESSAGE_SIZE = EXCESSPOS_PING + 8"

lemma ping_positions:
  "PROTOPOS_PING = 0" "OPPOS_PING = 1" "TYPEPOS_PING = 2" "CODEPOS_PING = 3"
  "CHECKPOS_PING = 5" "EXCESSPOS_PING = 7" "PING_MESSAGE_SIZE = 15"
  by (simp_all add: const_simps)

section \<open>The packet\<close>

record ping_buffer =
  pb_prot :: u8
  pb_op :: u8
  pb_type :: u8
  pb_code :: u16
  pb_check :: u16
  pb_excess :: u64
  pb_data :: bytes

definition check_packet_validity :: bool where
  "check_packet_validity = True"

definition zero_ping_buffer :: ping_buffer where
  "zero_ping_buffer =
     \<lparr>pb_prot = 0, pb_op = 0, pb_type = 0, pb_code = 0, pb_check = 0, pb_excess = 0,
      pb_data = replicate PING_MESSAGE_SIZE 0\<rparr>"

definition create_buffer_ping :: ping_buffer where
  "create_buffer_ping =
     (if check_packet_validity
      then zero_ping_buffer\<lparr>pb_prot := PROTOCOL_VERSION, pb_op := PING\<rparr>
      else zero_ping_buffer)"

section \<open>Reading fields of a packet\<close>

text \<open>\<^verbatim>\<open>get_protocol_version_ping(val)\<close> is the macro \<^verbatim>\<open>*((BYTE*)&val[0])\<close>.\<close>

definition get_protocol_version_ping :: "bytes \<Rightarrow> u8 res" where
  "get_protocol_version_ping val = load_word val 0"

definition get_opcode_impl_ping :: "bytes \<Rightarrow> u8 \<Rightarrow> u8 res" where
  "get_opcode_impl_ping buffer protocol_version =
     (if protocol_version = 1 then
        bindR (load_word buffer OPPOS_PING) (\<lambda>ret. Inr (if ret \<le> MAX_PING_TYPE then ret else 0))
      else Inr 0)"

definition get_type_impl_ping :: "bytes \<Rightarrow> u8 \<Rightarrow> u8 res" where
  "get_type_impl_ping buffer protocol_version =
     (if protocol_version = 1 then
        bindR (load_word buffer TYPEPOS_PING) (\<lambda>ret. Inr (if ret \<le> MAX_PING_TYPE then ret else 0))
      else Inr 0)"

definition get_code_impl_ping :: "bytes \<Rightarrow> u8 \<Rightarrow> u16 res" where
  "get_code_impl_ping buffer protocol_version =
     (if protocol_version = 1 then load_word buffer CODEPOS_PING else Inr 0)"

definition get_checksum_impl_ping :: "bytes \<Rightarrow> u8 \<Rightarrow> u16 res" where
  "get_checksum_impl_ping buffer protocol_version =
     (if protocol_version = 1 then load_word buffer CHECKPOS_PING else Inr 0)"

definition get_excess_impl_ping :: "bytes \<Rightarrow> u8 \<Rightarrow> u64 res" where
  "get_excess_impl_ping buffer protocol_version =
     (if protocol_version = 1 then load_word buffer EXCESSPOS_PING else Inr 0)"

text \<open>The macros that read the protocol version first.\<close>

definition get_ping :: "(bytes \<Rightarrow> u8 \<Rightarrow> 'a res) \<Rightarrow> bytes \<Rightarrow> 'a res" where
  "get_ping impl val = bindR (get_protocol_version_ping val) (impl val)"

section \<open>To and from the wire\<close>

text \<open>
  Both functions take pointers: \<open>None\<close> is the null pointer.  The result is the error
  number the C function returns and the structure the pointer refers to afterwards.
\<close>

definition to_wire_ping :: "ping_buffer option \<Rightarrow> (errno \<times> ping_buffer option) res" where
  "to_wire_ping buffer =
     (case buffer of
        None \<Rightarrow> Inr (EINVAL, None)
      | Some b \<Rightarrow>
          bindR (store_word (pb_data b) PROTOPOS_PING (pb_prot b)) (\<lambda>d.
          bindR (store_word d OPPOS_PING (pb_op b)) (\<lambda>d.
          bindR (store_word d TYPEPOS_PING (pb_type b)) (\<lambda>d.
          bindR (store_word d CODEPOS_PING (pb_code b)) (\<lambda>d.
          bindR (store_word d CHECKPOS_PING (pb_check b)) (\<lambda>d.
          bindR (store_word d EXCESSPOS_PING (pb_excess b)) (\<lambda>d.
            Inr (ENONE, Some (b\<lparr>pb_data := d\<rparr>)))))))))"

definition serialize_from_ping ::
    "ping_buffer option \<Rightarrow> bytes option \<Rightarrow> (errno \<times> ping_buffer option) res" where
  "serialize_from_ping destination source =
     (case (destination, source) of
        (Some dst, Some src) \<Rightarrow>
          bindR (get_protocol_version_ping src) (\<lambda>prot.
          bindR (get_ping get_opcode_impl_ping src) (\<lambda>op.
          bindR (get_ping get_type_impl_ping src) (\<lambda>type.
          bindR (get_ping get_code_impl_ping src) (\<lambda>code.
          bindR (get_ping get_checksum_impl_ping src) (\<lambda>check.
          bindR (get_ping get_excess_impl_ping src) (\<lambda>excess.
            Inr (ENONE, Some (dst\<lparr>pb_prot := prot, pb_op := op, pb_type := type,
              pb_code := code, pb_check := check, pb_excess := excess\<rparr>))))))))
      | _ \<Rightarrow> Inr (EINVAL, destination))"

section \<open>The wire image\<close>

definition wf_ping :: "ping_buffer \<Rightarrow> bool" where
  "wf_ping b \<longleftrightarrow> length (pb_data b) = PING_MESSAGE_SIZE"

text \<open>The bytes a packet is meant to have on the wire.\<close>

definition ping_wire :: "ping_buffer \<Rightarrow> bytes" where
  "ping_wire b =
     [pb_prot b, pb_op b, pb_type b] @ le_bytes (pb_code b) @ le_bytes (pb_check b) @
     le_bytes (pb_excess b)"

lemma length_ping_wire [simp]: "length (ping_wire b) = PING_MESSAGE_SIZE"
  by (simp add: ping_wire_def const_simps)

lemma wf_create_buffer_ping: "wf_ping create_buffer_ping"
  by (simp add: wf_ping_def create_buffer_ping_def check_packet_validity_def zero_ping_buffer_def)

lemma to_wire_ping_eq:
  assumes "wf_ping b"
  shows "to_wire_ping (Some b) = Inr (ENONE, Some (b\<lparr>pb_data := ping_wire b\<rparr>))"
proof -
  let ?d = "pb_data b" and ?h = "[pb_prot b, pb_op b, pb_type b]"
  have len: "length ?d = 15" using assms by (simp add: wf_ping_def const_simps)
  have "store_word ?d 0 (pb_prot b) = Inr ([pb_prot b] @ drop 1 ?d)"
    using store_word_at [of "[]" 0 ?d "pb_prot b"] len by simp
  moreover have "store_word ([pb_prot b] @ drop 1 ?d) 1 (pb_op b) =
      Inr ([pb_prot b, pb_op b] @ drop 2 ?d)"
    using store_word_at [of "[pb_prot b]" 1 ?d "pb_op b"] len by (simp add: numeral_2_eq_2)
  moreover have "store_word ([pb_prot b, pb_op b] @ drop 2 ?d) 2 (pb_type b) = Inr (?h @ drop 3 ?d)"
    using store_word_at [of "[pb_prot b, pb_op b]" 2 ?d "pb_type b"] len
    by (simp del: drop_eq_Nil)
  moreover have "store_word (?h @ drop 3 ?d) 3 (pb_code b) =
      Inr ((?h @ le_bytes (pb_code b)) @ drop 5 ?d)"
    using store_word_at [of ?h 3 ?d "pb_code b"] len by simp
  moreover have "store_word ((?h @ le_bytes (pb_code b)) @ drop 5 ?d) 5 (pb_check b) =
      Inr ((?h @ le_bytes (pb_code b) @ le_bytes (pb_check b)) @ drop 7 ?d)"
    using store_word_at [of "?h @ le_bytes (pb_code b)" 5 ?d "pb_check b"] len by simp
  moreover have "store_word ((?h @ le_bytes (pb_code b) @ le_bytes (pb_check b)) @ drop 7 ?d) 7
      (pb_excess b) = Inr (ping_wire b)"
    using store_word_at [of "?h @ le_bytes (pb_code b) @ le_bytes (pb_check b)" 7
        ?d "pb_excess b"] len by (simp add: ping_wire_def)
  ultimately show ?thesis by (simp add: to_wire_ping_def ping_positions)
qed

lemma get_protocol_version_ping_Cons [simp]: "get_protocol_version_ping (v # src) = Inr v"
  by (simp add: get_protocol_version_ping_def load_word_u8)

lemmas get_ping_impls = get_ping_def get_opcode_impl_ping_def get_type_impl_ping_def
  get_code_impl_ping_def get_checksum_impl_ping_def get_excess_impl_ping_def

text \<open>What a receiver reads from any bytes of protocol version 1 that are long enough.\<close>

lemma serialize_from_ping_v1:
  assumes "length cs = 2" and "length ks = 2" and "length es = 8"
  shows "serialize_from_ping (Some dst) (Some ([1, op, type] @ cs @ ks @ es @ rest)) =
    Inr (ENONE, Some (dst\<lparr>pb_prot := 1,
      pb_op := (if op \<le> MAX_PING_TYPE then op else 0),
      pb_type := (if type \<le> MAX_PING_TYPE then type else 0),
      pb_code := le_word cs, pb_check := le_word ks, pb_excess := le_word es\<rparr>))"
proof -
  let ?src = "[1, op, type] @ cs @ ks @ es @ rest"
  have "load_word ?src 1 = Inr op" "load_word ?src 2 = Inr type"
    by (simp_all add: load_word_u8)
  moreover have "load_word ?src 3 = (Inr (le_word cs) :: u16 res)"
    using load_word_mid [of "[1, op, type]" 3 cs "ks @ es @ rest", where 'a = 16] assms by simp
  moreover have "load_word ?src 5 = (Inr (le_word ks) :: u16 res)"
    using load_word_mid [of "[1, op, type] @ cs" 5 ks "es @ rest", where 'a = 16] assms by simp
  moreover have "load_word ?src 7 = (Inr (le_word es) :: u64 res)"
    using load_word_mid [of "[1, op, type] @ cs @ ks" 7 es rest, where 'a = 64] assms by simp
  ultimately show ?thesis
    by (simp add: serialize_from_ping_def get_ping_impls ping_positions)
qed

text \<open>Any other first byte: the getters return zero and no error is reported.\<close>

lemma serialize_from_ping_other:
  assumes "v \<noteq> 1"
  shows "serialize_from_ping (Some dst) (Some (v # src)) =
    Inr (ENONE, Some (dst\<lparr>pb_prot := v, pb_op := 0, pb_type := 0, pb_code := 0,
      pb_check := 0, pb_excess := 0\<rparr>))"
  using assms by (simp add: serialize_from_ping_def get_ping_impls)

text \<open>A packet of version 1 with fewer than 15 readable bytes is read past its end.\<close>

lemma serialize_from_ping_short:
  assumes "length src < 14"
  shows "serialize_from_ping (Some dst) (Some (1 # src)) = Inl Out_Of_Bounds"
proof -
  have "load_word (1 # src) EXCESSPOS_PING = (Inl Out_Of_Bounds :: u64 res)"
    using assms by (intro load_word_Inl) (simp add: const_simps)
  then show ?thesis using assms
    by (auto simp: serialize_from_ping_def get_ping_impls bindR_def load_word_def load_def
        split: sum.splits)
qed

text \<open>What a receiver makes of the first eleven bytes of a packet.\<close>

lemma serialize_from_ping_header:
  assumes "pb_prot b = PROTOCOL_VERSION"
    and "pb_op b \<le> MAX_PING_TYPE" and "pb_type b \<le> MAX_PING_TYPE"
  shows "serialize_from_ping (Some dst) (Some (take PING_HEADER_SIZE (ping_wire b) @ after)) =
    (if length after < 4 then Inl Out_Of_Bounds
     else Inr (ENONE, Some (b\<lparr>pb_data := pb_data dst,
       pb_excess := take_bit 32 (pb_excess b) OR push_bit 32 (ucast (le_word (take 4 after) :: u32))\<rparr>)))"
proof (cases "length after < 4")
  case True
  then have "serialize_from_ping (Some dst) (Some (1 # tl (take PING_HEADER_SIZE (ping_wire b)) @ after)) =
      Inl Out_Of_Bounds"
    by (intro serialize_from_ping_short) (simp add: const_simps)
  moreover have "take PING_HEADER_SIZE (ping_wire b) = 1 # tl (take PING_HEADER_SIZE (ping_wire b))"
    using assms(1) by (simp add: ping_wire_def const_simps)
  ultimately show ?thesis using True by (metis append_Cons)
next
  case False
  let ?lo = "take 4 (le_bytes (pb_excess b))"
  have split: "take PING_HEADER_SIZE (ping_wire b) @ after = [1, pb_op b, pb_type b] @
      le_bytes (pb_code b) @ le_bytes (pb_check b) @ (?lo @ take 4 after) @ drop 4 after"
    using assms(1) by (simp add: ping_wire_def const_simps)
  have "le_word (?lo @ take 4 after) =
      take_bit 32 (pb_excess b) OR push_bit 32 (ucast (le_word (take 4 after) :: u32))"
    (is "?l = ?r")
  proof (rule bit_word_eqI)
    fix n assume n: "n < LENGTH(64)"
    show "bit ?l n = bit ?r n"
    proof (cases "n < 32")
      case True
      then have "n div 8 < 4" by (simp add: less_mult_imp_div_less)
      with True n show ?thesis
        by (simp add: bit_le_word nth_append nth_le_bytes bit_simps)
    next
      case F: False
      then obtain m where m: "n = 32 + m" using le_Suc_ex [of 32 n] by (auto simp: not_less)
      then have "n div 8 = 4 + m div 8" "n mod 8 = m mod 8" "m div 8 < 4"
        using n by (simp_all add: div_add1_eq mod_add_eq [symmetric] less_mult_imp_div_less)
      with F n m False show ?thesis
        by (simp add: bit_le_word nth_append nth_le_bytes bit_simps)
    qed
  qed
  then show ?thesis unfolding split
    using False assms serialize_from_ping_v1 [of "le_bytes (pb_code b)" "le_bytes (pb_check b)"
        "?lo @ take 4 after" dst "pb_op b" "pb_type b" "drop 4 after"]
    by (simp add: le_word_le_bytes PROTOCOL_VERSION_def)
qed

section \<open>Properties\<close>

text \<open>
  C29: what a sender writes with \<^verbatim>\<open>to_wire_ping\<close> is what a receiver reads with
  \<^verbatim>\<open>serialize_from_ping\<close>: for a version 1 packet whose opcode and type are in range every
  field arrives, whatever follows the fifteen bytes of the packet, and the receiver's own
  \<^verbatim>\<open>data\<close> array is left alone.
\<close>

theorem ping_roundtrip:
  assumes "wf_ping b" and "pb_prot b = PROTOCOL_VERSION"
    and "pb_op b \<le> MAX_PING_TYPE" and "pb_type b \<le> MAX_PING_TYPE"
  shows "\<exists>b'. to_wire_ping (Some b) = Inr (ENONE, Some b') \<and>
    serialize_from_ping (Some dst) (Some (pb_data b' @ rest)) =
      Inr (ENONE, Some (b\<lparr>pb_data := pb_data dst\<rparr>))"
proof -
  have "serialize_from_ping (Some dst) (Some (ping_wire b @ rest)) =
      Inr (ENONE, Some (b\<lparr>pb_data := pb_data dst\<rparr>))"
    using assms serialize_from_ping_v1 [of "le_bytes (pb_code b)" "le_bytes (pb_check b)"
        "le_bytes (pb_excess b)" dst "pb_op b" "pb_type b" rest]
    by (simp add: ping_wire_def le_word_le_bytes PROTOCOL_VERSION_def)
  with to_wire_ping_eq [OF assms(1)] show ?thesis by simp
qed

lemma ping_roundtrip_witness:
  "\<exists>b'. to_wire_ping (Some (create_buffer_ping\<lparr>pb_type := STATE_REQUEST, pb_excess := 77\<rparr>)) =
      Inr (ENONE, Some b') \<and>
    serialize_from_ping (Some create_buffer_ping) (Some (pb_data b' @ [9])) =
      Inr (ENONE, Some (create_buffer_ping\<lparr>pb_type := STATE_REQUEST, pb_excess := 77\<rparr>))"
  using ping_roundtrip [of "create_buffer_ping\<lparr>pb_type := STATE_REQUEST, pb_excess := 77\<rparr>"
      create_buffer_ping "[9]"] wf_create_buffer_ping
  by (simp add: wf_ping_def create_buffer_ping_def check_packet_validity_def
      zero_ping_buffer_def const_simps)

text \<open>
  Only \<^verbatim>\<open>PING_HEADER_SIZE\<close> (eleven) bytes of a packet are sent by the control client,
  but \<^verbatim>\<open>serialize_from_ping\<close> reads fifteen.  Every field up to the checksum and the low half
  of \<^verbatim>\<open>excess\<close> arrive; the high half is whatever the four bytes after the received
  message hold, and when fewer than four follow, the read leaves the object.
\<close>

theorem ping_header_truncates_excess:
  assumes "pb_prot b = PROTOCOL_VERSION"
    and "pb_op b \<le> MAX_PING_TYPE" and "pb_type b \<le> MAX_PING_TYPE"
  shows "serialize_from_ping (Some dst) (Some (take PING_HEADER_SIZE (ping_wire b) @ after)) =
    (if length after < 4 then Inl Out_Of_Bounds
     else Inr (ENONE, Some (b\<lparr>pb_data := pb_data dst,
       pb_excess := take_bit 32 (pb_excess b) OR push_bit 32 (ucast (le_word (take 4 after) :: u32))\<rparr>)))"
  using assms by (rule serialize_from_ping_header)

lemma ping_header_truncates_excess_witness:
  "serialize_from_ping (Some create_buffer_ping)
     (Some (take PING_HEADER_SIZE (ping_wire create_buffer_ping) @ [0, 0])) = Inl Out_Of_Bounds"
  using ping_header_truncates_excess [of create_buffer_ping create_buffer_ping "[0, 0]"]
  by (simp add: create_buffer_ping_def check_packet_validity_def zero_ping_buffer_def const_simps)

text \<open>
  A packet with another protocol version is not refused: every field but the version
  reads as zero and the result code is success.
\<close>

theorem ping_other_version_reads_zero:
  assumes "v \<noteq> PROTOCOL_VERSION"
  shows "serialize_from_ping (Some dst) (Some (v # src)) =
    Inr (ENONE, Some \<lparr>pb_prot = v, pb_op = 0, pb_type = 0, pb_code = 0, pb_check = 0,
      pb_excess = 0, pb_data = pb_data dst\<rparr>)"
  using assms serialize_from_ping_other [of v dst src] by (simp add: PROTOCOL_VERSION_def)

lemma ping_other_version_reads_zero_witness:
  "serialize_from_ping (Some create_buffer_ping) (Some [0]) =
    Inr (ENONE, Some \<lparr>pb_prot = 0, pb_op = 0, pb_type = 0, pb_code = 0, pb_check = 0,
      pb_excess = 0, pb_data = pb_data create_buffer_ping\<rparr>)"
  using ping_other_version_reads_zero [of 0 create_buffer_ping "[]"]
  by (simp add: PROTOCOL_VERSION_def)

end
