(* ===== verification/Thread_Contexts.thy ===== *)
theory Thread_Contexts
  imports Prelude
begin

text \<open>
  Model of the data of \<^verbatim>\<open>src/include/scpp/control/NetworkPatterns.hpp\<close>: the context objects a
  control client builds for its socket threads, one setter at a time, and hands over to
  them.  A member a constructor leaves alone is an \<open>option\<close>: an owned pointer that is null, a
  \<^verbatim>\<open>std::function\<close> that is empty, a duration that is not initialised.  A future is the flag
  that it has a promise behind it.  \<open>complete\<close> says that a thread finds in its context
  everything it uses; the loops themselves are in the theory \<open>Network_Patterns\<close>.
\<close>

type_synonym address = string
type_synonym message = bytes
type_synonym microseconds = int

datatype zmq_type = ZMQ_PUB | ZMQ_SUB | ZMQ_REQ | ZMQ_REP

section \<open>Publishers\<close>

record 'cb publisher_context =
  pc_sock_addr :: address
  pc_exit_signal :: bool
  pc_socket :: "zmq_type option"
  pc_topic :: string
  pc_data :: "'cb option"
  pc_period :: "microseconds option"

definition new_publisher_context :: "'cb publisher_context" where
  "new_publisher_context =
     \<lparr>pc_sock_addr = '''', pc_exit_signal = False, pc_socket = None, pc_topic = '''',
      pc_data = None, pc_period = None\<rparr>"

definition publisher_set_sock_addr :: "address \<Rightarrow> 'cb publisher_context \<Rightarrow> 'cb publisher_context" where
  "publisher_set_sock_addr sock_addr p = p\<lparr>pc_sock_addr := sock_addr\<rparr>"

definition publisher_set_exit_signal :: "bool \<Rightarrow> 'cb publisher_context \<Rightarrow> 'cb publisher_context" where
  "publisher_set_exit_signal exit_signal p = p\<lparr>pc_exit_signal := exit_signal\<rparr>"

definition publisher_set_socket :: "zmq_type option \<Rightarrow> 'cb publisher_context \<Rightarrow> 'cb publisher_context" where
  "publisher_set_socket socket p = p\<lparr>pc_socket := socket\<rparr>"

definition publisher_set_topic :: "string \<Rightarrow> 'cb publisher_context \<Rightarrow> 'cb publisher_context" where
  "publisher_set_topic topic p = p\<lparr>pc_topic := topic\<rparr>"

definition publisher_set_data_request_callback ::
    "'cb \<Rightarrow> 'cb publisher_context \<Rightarrow> 'cb publisher_context" where
  "publisher_set_data_request_callback callback p = p\<lparr>pc_data := Some callback\<rparr>"

definition publisher_set_period :: "microseconds \<Rightarrow> 'cb publisher_context \<Rightarrow> 'cb publisher_context" where
  "publisher_set_period period p = p\<lparr>pc_period := Some period\<rparr>"

section \<open>Servers\<close>

record 'cb server_context =
  svc_bound :: bool
  svc_sock_addr :: address
  svc_exit_signal :: bool
  svc_socket :: "zmq_type option"
  svc_callback :: "'cb option"

definition new_server_context :: "bool \<Rightarrow> 'cb server_context" where
  "new_server_context bound =
     \<lparr>svc_bound = bound, svc_sock_addr = '''', svc_exit_signal = False, svc_socket = None,
      svc_callback = None\<rparr>"

definition server_set_exit_signal :: "bool \<Rightarrow> 'cb server_context \<Rightarrow> 'cb server_context" where
  "server_set_exit_signal exit_signal p = p\<lparr>svc_exit_signal := exit_signal\<rparr>"

definition server_set_socket :: "zmq_type option \<Rightarrow> 'cb server_context \<Rightarrow> 'cb server_context" where
  "server_set_socket socket p = p\<lparr>svc_socket := socket\<rparr>"

definition server_set_address :: "address \<Rightarrow> 'cb server_context \<Rightarrow> 'cb server_context" where
  "server_set_address addr p = p\<lparr>svc_sock_addr := addr\<rparr>"

definition server_set_callback :: "'cb \<Rightarrow> 'cb server_context \<Rightarrow> 'cb server_context" where
  "server_set_callback callback p = p\<lparr>svc_callback := Some callback\<rparr>"

section \<open>Subscribers\<close>

record 'cb subscriber_context =
  sbc_topic :: string
  sbc_address :: address
  sbc_exit_signal :: bool
  sbc_socket :: "zmq_type option"
  sbc_callback :: "'cb option"

definition new_subscriber_context :: "'cb subscriber_context" where
  "new_subscriber_context =
     \<lparr>sbc_topic = '''', sbc_address = '''', sbc_exit_signal = False, sbc_socket = None,
      sbc_callback = None\<rparr>"

definition subscriber_set_exit_signal :: "bool \<Rightarrow> 'cb subscriber_context \<Rightarrow> 'cb subscriber_context" where
  "subscriber_set_exit_signal exit_signal p = p\<lparr>sbc_exit_signal := exit_signal\<rparr>"

definition subscriber_set_sock_addr :: "address \<Rightarrow> 'cb subscriber_context \<Rightarrow> 'cb subscriber_context" where
  "subscriber_set_sock_addr addr p = p\<lparr>sbc_address := addr\<rparr>"

definition subscriber_set_topic :: "string \<Rightarrow> 'cb subscriber_context \<Rightarrow> 'cb subscriber_context" where
  "subscriber_set_topic topic p = p\<lparr>sbc_topic := topic\<rparr>"

definition subscriber_set_socket ::
    "zmq_type option \<Rightarrow> 'cb subscriber_context \<Rightarrow> 'cb subscriber_context" where
  "subscriber_set_socket socket p = p\<lparr>sbc_socket := socket\<rparr>"

definition subscriber_set_callback :: "'cb \<Rightarrow> 'cb subscriber_context \<Rightarrow> 'cb subscriber_context" where
  "subscriber_set_callback callback p = p\<lparr>sbc_callback := Some callback\<rparr>"

section \<open>Requesters\<close>

record 'cb requester_context =
  rqc_exit_signal :: bool
  rqc_socket :: "zmq_type option"
  rqc_server :: address
  rqc_get_data :: "'cb option"
  rqc_callback :: "'cb option"
  rqc_period :: "microseconds option"

definition new_requester_context :: "'cb requester_context" where
  "new_requester_context =
     \<lparr>rqc_exit_signal = False, rqc_socket = None, rqc_server = '''', rqc_get_data = None,
      rqc_callback = None, rqc_period = None\<rparr>"

definition requester_set_exit_signal :: "bool \<Rightarrow> 'cb requester_context \<Rightarrow> 'cb requester_context" where
  "requester_set_exit_signal exit_signal p = p\<lparr>rqc_exit_signal := exit_signal\<rparr>"

definition requester_set_socket :: "zmq_type option \<Rightarrow> 'cb requester_context \<Rightarrow> 'cb requester_context" where
  "requester_set_socket socket p = p\<lparr>rqc_socket := socket\<rparr>"

definition requester_set_data_request :: "'cb \<Rightarrow> 'cb requester_context \<Rightarrow> 'cb requester_context" where
  "requester_set_data_request callback p = p\<lparr>rqc_get_data := Some callback\<rparr>"

definition requester_set_callback :: "'cb \<Rightarrow> 'cb requester_context \<Rightarrow> 'cb requester_context" where
  "requester_set_callback callback p = p\<lparr>rqc_callback := Some callback\<rparr>"

definition requester_set_period :: "microseconds \<Rightarrow> 'cb requester_context \<Rightarrow> 'cb requester_context" where
  "requester_set_period period p = p\<lparr>rqc_period := Some period\<rparr>"

definition requester_set_server :: "address \<Rightarrow> 'cb requester_context \<Rightarrow> 'cb requester_context" where
  "requester_set_server addr p = p\<lparr>rqc_server := addr\<rparr>"

section \<open>Threads\<close>

text \<open>The four thread functions of \<^verbatim>\<open>ZMQControlClient.hpp\<close>, each with the context it owns.\<close>

datatype 'cb task =
    Publisher_Thread "'cb publisher_context"
  | Requester_Thread "'cb requester_context"
  | Subscriber_Thread "'cb subscriber_context"
  | Server_Thread "'cb server_context"

text \<open>
  A context a thread can run on: a socket of its kind, the exit signal, the callbacks and,
  where the loop sleeps, the period.
\<close>

fun complete :: "'cb task \<Rightarrow> bool" where
  "complete (Publisher_Thread p) \<longleftrightarrow>
     pc_socket p = Some ZMQ_PUB \<and> pc_exit_signal p \<and> pc_data p \<noteq> None \<and> pc_period p \<noteq> None"
| "complete (Requester_Thread p) \<longleftrightarrow>
     rqc_socket p = Some ZMQ_REQ \<and> rqc_exit_signal p \<and> rqc_get_data p \<noteq> None \<and>
     rqc_callback p \<noteq> None \<and> rqc_period p \<noteq> None"
| "complete (Subscriber_Thread p) \<longleftrightarrow>
     sbc_socket p = Some ZMQ_SUB \<and> sbc_exit_signal p \<and> sbc_callback p \<noteq> None"
| "complete (Server_Thread p) \<longleftrightarrow>
     svc_socket p = Some ZMQ_REP \<and> svc_exit_signal p \<and> svc_callback p \<noteq> None"

lemmas setter_defs =
  new_publisher_context_def publisher_set_sock_addr_def publisher_set_exit_signal_def
  publisher_set_socket_def publisher_set_topic_def publisher_set_data_request_callback_def
  publisher_set_period_def
  new_server_context_def server_set_exit_signal_def server_set_socket_def server_set_address_def
  server_set_callback_def
  new_subscriber_context_def subscriber_set_exit_signal_def subscriber_set_sock_addr_def
  subscriber_set_topic_def subscriber_set_socket_def subscriber_set_callback_def
  new_requester_context_def requester_set_exit_signal_def requester_set_socket_def
  requester_set_data_request_def requester_set_callback_def requester_set_period_def
  requester_set_server_def

end
