(* ===== verification/Zmq_Control_Client.thy ===== *)
theory Zmq_Control_Client
  imports Thread_Contexts "HOL-Library.AList"
begin

text \<open>
  Model of \<^verbatim>\<open>src/control/ZMQControlClient.cpp\<close> and \<^verbatim>\<open>ZMQControlClient.hpp\<close>: the maps of
  socket threads a control client owns, what the standard library's promises and
  threads do when they are used twice, the single-use publisher, and the request with
  retries.  An \<^verbatim>\<open>unordered_map\<close> is an association list without repeated keys; its order
  is the order of iteration, which no result below depends on.  What the network answers
  is a parameter of the request.  \<^verbatim>\<open>join\<close> waits for a thread whose loop ends on the exit
  signal; the contexts are in \<open>Thread_Contexts\<close>, the loops in \<open>Network_Patterns\<close>.
\<close>

definition bytes_of_string :: "string \<Rightarrow> bytes" where
  "bytes_of_string s = map of_char s"

section \<open>Socket threads\<close>

text \<open>
  \<^verbatim>\<open>socket_thread_space\<close>: a promise whose future may have been taken and whose value may
  have been set, an owned socket, and an owned thread, which is joinable until joined.
\<close>

record 'cb thread_space =
  sp_retrieved :: bool
  sp_satisfied :: bool
  sp_socket :: "zmq_type option"
  sp_thread :: "('cb task \<times> bool) option"

type_synonym 'cb spaces = "(address \<times> 'cb thread_space) list"

definition empty_space :: "'cb thread_space" where
  "empty_space = \<lparr>sp_retrieved = False, sp_satisfied = False, sp_socket = None, sp_thread = None\<rparr>"

definition get_future :: "'cb thread_space \<Rightarrow> 'cb thread_space res" where
  "get_future sp =
     (if sp_retrieved sp then Inl Future_Already_Retrieved else Inr (sp\<lparr>sp_retrieved := True\<rparr>))"

definition set_value :: "'cb thread_space \<Rightarrow> 'cb thread_space res" where
  "set_value sp =
     (if sp_satisfied sp then Inl Promise_Already_Satisfied else Inr (sp\<lparr>sp_satisfied := True\<rparr>))"

definition join :: "'cb thread_space \<Rightarrow> 'cb thread_space res" where
  "join sp =
     (case sp_thread sp of
        None \<Rightarrow> Inl Null_Deref
      | Some (t, joinable) \<Rightarrow>
          if joinable then Inr (sp\<lparr>sp_thread := Some (t, False)\<rparr>) else Inl Thread_Not_Joinable)"

text \<open>Replacing an owned thread destroys the old one: fatal while it is joinable.\<close>

definition assign_thread :: "'cb thread_space \<Rightarrow> 'cb task \<Rightarrow> 'cb thread_space res" where
  "assign_thread sp t =
     (case sp_thread sp of
        Some (_, True) \<Rightarrow> Inl Terminated
      | _ \<Rightarrow> Inr (sp\<lparr>sp_thread := Some (t, True)\<rparr>))"

text \<open>
  \<^verbatim>\<open>create_socket\<close>: \<^verbatim>\<open>emplace\<close> keeps an entry that is already there; the socket is
  replaced in any case.
\<close>

definition emplace :: "'k \<Rightarrow> 'v \<Rightarrow> ('k \<times> 'v) list \<Rightarrow> ('k \<times> 'v) list" where
  "emplace k v m = (case map_of m k of Some _ \<Rightarrow> m | None \<Rightarrow> m @ [(k, v)])"

definition create_socket :: "zmq_type \<Rightarrow> 'cb spaces \<Rightarrow> address \<Rightarrow> 'cb spaces" where
  "create_socket typ m identifier =
     (let m1 = emplace identifier empty_space m in
      case map_of m1 identifier of
        Some sp \<Rightarrow> AList.update identifier (sp\<lparr>sp_socket := Some typ\<rparr>) m1
      | None \<Rightarrow> m1)"

text \<open>
  The tail all starting functions share: take the future, move it and the socket into the
  context \<open>t\<close> builds, start the thread on the context.
\<close>

definition start_thread :: "zmq_type \<Rightarrow> 'cb spaces \<Rightarrow> address \<Rightarrow>
    (bool \<Rightarrow> zmq_type option \<Rightarrow> 'cb task) \<Rightarrow> 'cb spaces res" where
  "start_thread typ m identifier t =
     (let m1 = create_socket typ m identifier in
      case map_of m1 identifier of
        None \<Rightarrow> Inl Null_Deref
      | Some val \<Rightarrow>
          bindR (get_future val) (\<lambda>val.
          bindR (assign_thread (val\<lparr>sp_socket := None\<rparr>) (t True (sp_socket val))) (\<lambda>val.
            Inr (AList.update identifier val m1))))"

text \<open>The body the four cancelling functions share.\<close>

definition cancel_thread :: "'cb spaces \<Rightarrow> address \<Rightarrow> (bool \<times> 'cb spaces) res" where
  "cancel_thread m reference =
     (case map_of m reference of
        Some sp \<Rightarrow>
          bindR (set_value sp) (\<lambda>sp.
          bindR (join sp) (\<lambda>sp. Inr (True, AList.update reference sp m)))
      | None \<Rightarrow> Inr (False, m))"

section \<open>The client\<close>

record 'cb zmq_client =
  zc_subscribers :: "'cb spaces"
  zc_servers :: "'cb spaces"
  zc_periodic_clients :: "'cb spaces"
  zc_periodic_publishers :: "'cb spaces"
  zc_publisher :: "address option"
  zc_client :: bool

definition new_zmq_client :: "'cb zmq_client" where
  "new_zmq_client =
     \<lparr>zc_subscribers = [], zc_servers = [], zc_periodic_clients = [], zc_periodic_publishers = [],
      zc_publisher = None, zc_client = False\<rparr>"

definition zmq_start :: "'cb zmq_client \<Rightarrow> bool \<times> 'cb zmq_client" where
  "zmq_start c = (True, c)"

definition initialize_publisher :: "address \<Rightarrow> 'cb zmq_client \<Rightarrow> bool \<times> 'cb zmq_client" where
  "initialize_publisher addr c =
     (if zc_publisher c \<noteq> None then (False, c) else (True, c\<lparr>zc_publisher := Some addr\<rparr>))"

definition initialize_client :: "'cb zmq_client \<Rightarrow> bool \<times> 'cb zmq_client" where
  "initialize_client c = (if zc_client c then (False, c) else (True, c\<lparr>zc_client := True\<rparr>))"

subsection \<open>Publishing\<close>

text \<open>
  \<^verbatim>\<open>publish(topic, message)\<close> moves \<^verbatim>\<open>this_publisher\<close> into the parameter of
  \<^verbatim>\<open>concurrent_publish\<close>, which closes it on return.  The frames sent are the last
  component.
\<close>

definition concurrent_publish :: "address \<Rightarrow> string \<Rightarrow> message \<Rightarrow> (address \<times> message list) list" where
  "concurrent_publish socket topic message = [(socket, [bytes_of_string topic, message])]"

definition publish :: "string \<Rightarrow> message \<Rightarrow> 'cb zmq_client \<Rightarrow>
    bool \<times> 'cb zmq_client \<times> (address \<times> message list) list" where
  "publish topic msg c =
     (case zc_publisher c of
        None \<Rightarrow> (False, c, [])
      | Some socket \<Rightarrow> (True, c\<lparr>zc_publisher := None\<rparr>, concurrent_publish socket topic msg))"

definition publisher_task :: "address \<Rightarrow> string \<Rightarrow> 'cb \<Rightarrow> microseconds \<Rightarrow> bool \<Rightarrow> zmq_type option \<Rightarrow> 'cb task" where
  "publisher_task sock_addr topic get_data period futureObj socket =
     (let pub_context = new_publisher_context;
          pub_context = publisher_set_sock_addr sock_addr pub_context;
          pub_context = publisher_set_exit_signal futureObj pub_context;
          pub_context = publisher_set_socket socket pub_context;
          pub_context = publisher_set_topic topic pub_context;
          pub_context = publisher_set_data_request_callback get_data pub_context;
          pub_context = publisher_set_period period pub_context
      in Publisher_Thread pub_context)"

definition publish_periodic ::
    "address \<Rightarrow> string \<Rightarrow> 'cb \<Rightarrow> microseconds \<Rightarrow> 'cb zmq_client \<Rightarrow> (bool \<times> 'cb zmq_client) res" where
  "publish_periodic sock_addr topic get_data period c =
     (case map_of (zc_periodic_publishers c) sock_addr of
        Some _ \<Rightarrow> Inr (False, c)
      | None \<Rightarrow>
          bindR (start_thread ZMQ_PUB (zc_periodic_publishers c) sock_addr
              (publisher_task sock_addr topic get_data period)) (\<lambda>m.
            Inr (True, c\<lparr>zc_periodic_publishers := m\<rparr>)))"

definition cancel_periodic_publisher :: "address \<Rightarrow> 'cb zmq_client \<Rightarrow> (bool \<times> 'cb zmq_client) res" where
  "cancel_periodic_publisher reference c =
     bindR (cancel_thread (zc_periodic_publishers c) reference) (\<lambda>(r, m).
       Inr (r, c\<lparr>zc_periodic_publishers := m\<rparr>))"

subsection \<open>Requesting\<close>

definition REQUEST_RETRIES :: nat where [const_simps]: "REQUEST_RETRIES = 3"

definition no_response :: message where "no_response = bytes_of_string ''No response''"

text \<open>
  The inner loop: \<open>polls i\<close> is what the \<open>i\<close>-th poll finds, a reply or nothing.  The result
  is the reply, if the function returned, the retries left, the number of polls made and
  the messages sent.
\<close>

fun await_reply :: "(nat \<Rightarrow> message option) \<Rightarrow> message \<Rightarrow> nat \<Rightarrow> nat \<Rightarrow> message list \<Rightarrow>
    message option \<times> nat \<times> nat \<times> message list" where
  "await_reply polls msg 0 i sent = (None, 0, i, sent)"
| "await_reply polls msg (Suc retries_left) i sent =
     (case polls i of
        Some reply \<Rightarrow> (Some reply, Suc retries_left, i + 1, sent)
      | None \<Rightarrow>
          if retries_left = 0 then (None, 0, i + 1, sent)
          else await_reply polls msg retries_left (i + 1) (sent @ [msg]))"

lemma await_reply_left:
  "await_reply polls msg n i sent = (None, n', i', sent') \<Longrightarrow> n' = 0"
  by (induction polls msg n i sent rule: await_reply.induct) (auto split: option.splits if_splits)

function request_loop :: "(nat \<Rightarrow> message option) \<Rightarrow> message \<Rightarrow> nat \<Rightarrow> nat \<Rightarrow> message list \<Rightarrow>
    message \<times> message list" where
  "request_loop polls msg retries_left i sent =
     (if retries_left = 0 then (no_response, sent)
      else case await_reply polls msg retries_left i (sent @ [msg]) of
        (Some reply, _, _, sent') \<Rightarrow> (reply, sent')
      | (None, n, i', sent') \<Rightarrow> request_loop polls msg n i' sent')"
  by pat_completeness auto
termination
  by (relation "measure (\<lambda>(_, _, n, _, _). n)") (auto dest: await_reply_left [OF sym])

declare request_loop.simps [simp del]

text \<open>Both ways out delete the socket and make a new client.\<close>

definition concurrent_request :: "(nat \<Rightarrow> message option) \<Rightarrow> message \<Rightarrow> 'cb zmq_client \<Rightarrow>
    message \<times> 'cb zmq_client \<times> message list" where
  "concurrent_request polls msg c =
     (let (reply, sent) = request_loop polls msg REQUEST_RETRIES 0 [];
          (_, c') = initialize_client c
      in (reply, c', sent))"

definition request :: "(nat \<Rightarrow> message option) \<Rightarrow> message \<Rightarrow> 'cb zmq_client \<Rightarrow>
    message \<times> 'cb zmq_client \<times> message list" where
  "request polls msg c =
     (if zc_client c then concurrent_request polls msg (c\<lparr>zc_client := False\<rparr>)
      else ([], c, []))"

definition requester_task :: "address \<Rightarrow> 'cb \<Rightarrow> 'cb \<Rightarrow> microseconds \<Rightarrow> bool \<Rightarrow> zmq_type option \<Rightarrow> 'cb task" where
  "requester_task destination get_data callback period futureObj socket =
     (let req_context = new_requester_context;
          req_context = requester_set_exit_signal futureObj req_context;
          req_context = requester_set_socket socket req_context;
          req_context = requester_set_data_request get_data req_context;
          req_context = requester_set_callback callback req_context;
          req_context = requester_set_period period req_context;
          req_context = requester_set_server destination req_context
      in Requester_Thread req_context)"

definition request_periodic :: "address \<Rightarrow> string \<Rightarrow> 'cb \<Rightarrow> 'cb \<Rightarrow> microseconds \<Rightarrow> 'cb zmq_client \<Rightarrow>
    (bool \<times> 'cb zmq_client) res" where
  "request_periodic destination ident get_data callback period c =
     (case map_of (zc_periodic_clients c) ident of
        Some _ \<Rightarrow> Inr (False, c)
      | None \<Rightarrow>
          bindR (start_thread ZMQ_REQ (zc_periodic_clients c) ident
              (requester_task destination get_data callback period)) (\<lambda>m.
            Inr (True, c\<lparr>zc_periodic_clients := m\<rparr>)))"

definition cancel_periodic_request :: "address \<Rightarrow> 'cb zmq_client \<Rightarrow> (bool \<times> 'cb zmq_client) res" where
  "cancel_periodic_request reference c =
     bindR (cancel_thread (zc_periodic_clients c) reference) (\<lambda>(r, m).
       Inr (r, c\<lparr>zc_periodic_clients := m\<rparr>))"

subsection \<open>Subscribing\<close>

definition subscriber_task :: "address \<Rightarrow> string \<Rightarrow> 'cb \<Rightarrow> bool \<Rightarrow> zmq_type option \<Rightarrow> 'cb task" where
  "subscriber_task sock_addr topic callback futureObj socket =
     (let sub_context = new_subscriber_context;
          sub_context = subscriber_set_exit_signal futureObj sub_context;
          sub_context = subscriber_set_socket socket sub_context;
          sub_context = subscriber_set_callback callback sub_context;
          sub_context = subscriber_set_sock_addr sock_addr sub_context;
          sub_context = subscriber_set_topic topic sub_context
      in Subscriber_Thread sub_context)"

text \<open>The check looks for the topic, the entry is made under the address.\<close>

definition subscribe :: "address \<Rightarrow> string \<Rightarrow> 'cb \<Rightarrow> 'cb zmq_client \<Rightarrow> (bool \<times> 'cb zmq_client) res" where
  "subscribe sock_addr topic callback c =
     (case map_of (zc_subscribers c) topic of
        Some _ \<Rightarrow> Inr (False, c)
      | None \<Rightarrow>
          bindR (start_thread ZMQ_SUB (zc_subscribers c) sock_addr
              (subscriber_task sock_addr topic callback)) (\<lambda>m.
            Inr (True, c\<lparr>zc_subscribers := m\<rparr>)))"

definition cancel_subscription :: "address \<Rightarrow> 'cb zmq_client \<Rightarrow> (bool \<times> 'cb zmq_client) res" where
  "cancel_subscription reference c =
     bindR (cancel_thread (zc_subscribers c) reference) (\<lambda>(r, m).
       Inr (r, c\<lparr>zc_subscribers := m\<rparr>))"

subsection \<open>Serving\<close>

definition server_task :: "address \<Rightarrow> 'cb \<Rightarrow> bool \<Rightarrow> bool \<Rightarrow> zmq_type option \<Rightarrow> 'cb task" where
  "server_task addr callback bound futureObj socket =
     (let serv_context = new_server_context bound;
          serv_context = server_set_address addr serv_context;
          serv_context = server_set_exit_signal futureObj serv_context;
          serv_context = server_set_socket socket serv_context;
          serv_context = server_set_callback callback serv_context
      in Server_Thread serv_context)"

definition start_server :: "bool \<Rightarrow> address \<Rightarrow> 'cb \<Rightarrow> 'cb zmq_client \<Rightarrow> (bool \<times> 'cb zmq_client) res" where
  "start_server bound addr callback c =
     (case map_of (zc_servers c) addr of
        Some _ \<Rightarrow> Inr (False, c)
      | None \<Rightarrow>
          bindR (start_thread ZMQ_REP (zc_servers c) addr (server_task addr callback bound)) (\<lambda>m.
            Inr (True, c\<lparr>zc_servers := m\<rparr>)))"

definition serve :: "address \<Rightarrow> 'cb \<Rightarrow> 'cb zmq_client \<Rightarrow> (bool \<times> 'cb zmq_client) res" where
  "serve = start_server False"

definition bind_server :: "address \<Rightarrow> 'cb \<Rightarrow> 'cb zmq_client \<Rightarrow> (bool \<times> 'cb zmq_client) res" where
  "bind_server = start_server True"

definition terminate_server :: "address \<Rightarrow> 'cb zmq_client \<Rightarrow> (bool \<times> 'cb zmq_client) res" where
  "terminate_server reference c =
     bindR (cancel_thread (zc_servers c) reference) (\<lambda>(r, m). Inr (r, c\<lparr>zc_servers := m\<rparr>))"

subsection \<open>Quitting\<close>

fun cancel_all :: "(address \<Rightarrow> 'c \<Rightarrow> (bool \<times> 'c) res) \<Rightarrow> address list \<Rightarrow> 'c \<Rightarrow> 'c res" where
  "cancel_all f [] c = Inr c"
| "cancel_all f (k # ks) c = bindR (f k c) (\<lambda>(_, c'). cancel_all f ks c')"

definition quit :: "'cb zmq_client \<Rightarrow> (bool \<times> 'cb zmq_client) res" where
  "quit c =
     bindR (cancel_all cancel_subscription (map fst (zc_subscribers c)) c) (\<lambda>c.
     bindR (cancel_all terminate_server (map fst (zc_servers c)) c) (\<lambda>c.
     bindR (cancel_all cancel_periodic_publisher (map fst (zc_periodic_publishers c)) c) (\<lambda>c.
     bindR (cancel_all cancel_periodic_request (map fst (zc_periodic_clients c)) c) (\<lambda>c.
       Inr (True, c)))))"

section \<open>Thread tables\<close>

text \<open>
  A started entry: its future is taken, its socket moved away, it owns a thread with a
  complete context, and the thread was joined exactly when the exit signal was given.
\<close>

definition started :: "'cb thread_space \<Rightarrow> bool" where
  "started sp \<longleftrightarrow> sp_retrieved sp \<and> sp_socket sp = None \<and>
     (case sp_thread sp of None \<Rightarrow> False
      | Some (t, joinable) \<Rightarrow> complete t \<and> (joinable \<longleftrightarrow> \<not> sp_satisfied sp))"

definition live :: "'cb thread_space \<Rightarrow> bool" where
  "live sp \<longleftrightarrow> started sp \<and> \<not> sp_satisfied sp"

definition wf_spaces :: "'cb spaces \<Rightarrow> bool" where
  "wf_spaces m \<longleftrightarrow> distinct (map fst m) \<and> (\<forall>(k, sp) \<in> set m. started sp)"

definition wf_client :: "'cb zmq_client \<Rightarrow> bool" where
  "wf_client c \<longleftrightarrow> wf_spaces (zc_subscribers c) \<and> wf_spaces (zc_servers c) \<and>
     wf_spaces (zc_periodic_clients c) \<and> wf_spaces (zc_periodic_publishers c)"

lemma wf_spaces_Nil [simp]: "wf_spaces []"
  by (simp add: wf_spaces_def)

lemma wf_spaces_look: "wf_spaces m \<Longrightarrow> map_of m k = Some sp \<Longrightarrow> started sp"
  by (auto simp: wf_spaces_def dest: map_of_SomeD)

lemma set_update: "set (AList.update k v m) \<subseteq> insert (k, v) (set m)"
  by (induction m) auto

lemma wf_spaces_update: "wf_spaces m \<Longrightarrow> started sp \<Longrightarrow> wf_spaces (AList.update k sp m)"
  using set_update [of k sp m] by (auto simp: wf_spaces_def distinct_update)

text \<open>The entry and the table after a thread is started under a fresh key.\<close>

definition running :: "'cb task \<Rightarrow> 'cb thread_space" where
  "running t = \<lparr>sp_retrieved = True, sp_satisfied = False, sp_socket = None, sp_thread = Some (t, True)\<rparr>"

lemma live_running [simp]: "live (running t) \<longleftrightarrow> complete t"
  and started_running [simp]: "started (running t) \<longleftrightarrow> complete t"
  by (simp_all add: live_def started_def running_def)

lemmas task_defs = publisher_task_def requester_task_def subscriber_task_def server_task_def

lemma complete_task [simp]:
  "complete (publisher_task a tp f p True (Some ZMQ_PUB))"
  "complete (requester_task a f g p True (Some ZMQ_REQ))"
  "complete (subscriber_task a tp f True (Some ZMQ_SUB))"
  "complete (server_task a f b True (Some ZMQ_REP))"
  by (simp_all add: task_defs setter_defs)

lemma update_fresh: "map_of m k = None \<Longrightarrow> AList.update k v (m @ [(k, w)]) = m @ [(k, v)]"
  by (induction m) (auto split: if_splits)

lemma map_of_fresh: "map_of m k = None \<Longrightarrow> map_of (m @ [(k, v)]) k = Some v"
  by (simp add: map_add_def)

lemma start_thread_fresh:
  "map_of m k = None \<Longrightarrow> start_thread typ m k t = Inr (m @ [(k, running (t True (Some typ)))])"
  by (simp add: start_thread_def create_socket_def emplace_def Let_def update_fresh
      map_add_def get_future_def assign_thread_def empty_space_def running_def)

text \<open>A key that is already there: the future of its promise has been taken.\<close>

lemma start_thread_taken:
  "wf_spaces m \<Longrightarrow> map_of m k = Some sp \<Longrightarrow>
    start_thread typ m k t = Inl Future_Already_Retrieved"
  using wf_spaces_look [of m k sp]
  by (simp add: start_thread_def create_socket_def emplace_def Let_def update_conv'
      get_future_def started_def)

lemma wf_spaces_start:
  "wf_spaces m \<Longrightarrow> map_of m k = None \<Longrightarrow> complete t \<Longrightarrow> wf_spaces (m @ [(k, running t)])"
  by (auto simp: wf_spaces_def map_of_eq_None_iff)

lemma cancel_thread_unknown: "map_of m k = None \<Longrightarrow> cancel_thread m k = Inr (False, m)"
  by (simp add: cancel_thread_def)

definition stopped :: "'cb thread_space \<Rightarrow> 'cb thread_space" where
  "stopped sp = sp\<lparr>sp_satisfied := True, sp_thread := map_option (\<lambda>(t, _). (t, False)) (sp_thread sp)\<rparr>"

lemma started_stopped: "started sp \<Longrightarrow> started (stopped sp) \<and> \<not> live (stopped sp)"
  by (auto simp: started_def stopped_def live_def split: option.splits)

lemma cancel_thread_live:
  "map_of m k = Some sp \<Longrightarrow> live sp \<Longrightarrow>
    cancel_thread m k = Inr (True, AList.update k (stopped sp) m)"
  by (auto simp: cancel_thread_def live_def started_def set_value_def join_def stopped_def
      split: option.splits)

lemma cancel_thread_stopped:
  "map_of m k = Some sp \<Longrightarrow> sp_satisfied sp \<Longrightarrow>
    cancel_thread m k = Inl Promise_Already_Satisfied"
  by (simp add: cancel_thread_def set_value_def)

lemma wf_spaces_cancel:
  "wf_spaces m \<Longrightarrow> map_of m k = Some sp \<Longrightarrow> wf_spaces (AList.update k (stopped sp) m)"
  using wf_spaces_look [of m k sp] started_stopped [of sp] by (simp add: wf_spaces_update)

lemma cancel_thread_cases:
  assumes "wf_spaces m"
  shows "cancel_thread m k =
    (case map_of m k of None \<Rightarrow> Inr (False, m)
     | Some sp \<Rightarrow> if live sp then Inr (True, AList.update k (stopped sp) m)
        else Inl Promise_Already_Satisfied)"
  using assms cancel_thread_live [of m k] cancel_thread_stopped [of m k] wf_spaces_look [of m k]
  by (auto simp: cancel_thread_unknown live_def split: option.split)

lemma wf_spaces_cancelled:
  "wf_spaces m \<Longrightarrow> cancel_thread m k = Inr (r, m') \<Longrightarrow> wf_spaces m'"
  by (auto simp: cancel_thread_cases wf_spaces_cancel split: option.splits if_splits)

section \<open>Operations of a client\<close>

datatype 'cb operation =
    Op_Publish_Periodic address string 'cb microseconds
  | Op_Request_Periodic address string 'cb 'cb microseconds
  | Op_Subscribe address string 'cb
  | Op_Serve address 'cb
  | Op_Bind address 'cb
  | Op_Cancel_Publisher address
  | Op_Cancel_Request address
  | Op_Cancel_Subscription address
  | Op_Terminate_Server address
  | Op_Init_Publisher address
  | Op_Init_Client
  | Op_Publish string message
  | Op_Request "nat \<Rightarrow> message option" message
  | Op_Quit

fun operate :: "'cb operation \<Rightarrow> 'cb zmq_client \<Rightarrow> 'cb zmq_client res" where
  "operate (Op_Publish_Periodic a t f p) c = bindR (publish_periodic a t f p c) (Inr \<circ> snd)"
| "operate (Op_Request_Periodic d i f g p) c = bindR (request_periodic d i f g p c) (Inr \<circ> snd)"
| "operate (Op_Subscribe a t f) c = bindR (subscribe a t f c) (Inr \<circ> snd)"
| "operate (Op_Serve a f) c = bindR (serve a f c) (Inr \<circ> snd)"
| "operate (Op_Bind a f) c = bindR (bind_server a f c) (Inr \<circ> snd)"
| "operate (Op_Cancel_Publisher a) c = bindR (cancel_periodic_publisher a c) (Inr \<circ> snd)"
| "operate (Op_Cancel_Request a) c = bindR (cancel_periodic_request a c) (Inr \<circ> snd)"
| "operate (Op_Cancel_Subscription a) c = bindR (cancel_subscription a c) (Inr \<circ> snd)"
| "operate (Op_Terminate_Server a) c = bindR (terminate_server a c) (Inr \<circ> snd)"
| "operate (Op_Init_Publisher a) c = Inr (snd (initialize_publisher a c))"
| "operate Op_Init_Client c = Inr (snd (initialize_client c))"
| "operate (Op_Publish t m) c = Inr (fst (snd (publish t m c)))"
| "operate (Op_Request polls m) c = Inr (fst (snd (request polls m c)))"
| "operate Op_Quit c = bindR (quit c) (Inr \<circ> snd)"

inductive reachable :: "'cb zmq_client \<Rightarrow> bool" where
  start: "reachable new_zmq_client"
| step: "reachable c \<Longrightarrow> operate opn c = Inr c' \<Longrightarrow> reachable c'"

lemmas starting_defs = publish_periodic_def request_periodic_def subscribe_def serve_def
  bind_server_def start_server_def

lemmas cancelling_defs = cancel_periodic_publisher_def cancel_periodic_request_def
  cancel_subscription_def terminate_server_def

lemma start_thread_Inr:
  "wf_spaces m \<Longrightarrow> complete (t True (Some typ)) \<Longrightarrow> start_thread typ m k t = Inr m' \<Longrightarrow>
    map_of m k = None \<and> wf_spaces m'"
  by (cases "map_of m k") (auto simp: start_thread_fresh start_thread_taken wf_spaces_start)

lemma wf_starting:
  assumes "wf_client c"
  shows "publish_periodic a t f p c = Inr (r, c') \<Longrightarrow> wf_client c'"
    and "request_periodic d t f g p c = Inr (r, c') \<Longrightarrow> wf_client c'"
    and "subscribe a t f c = Inr (r, c') \<Longrightarrow> wf_client c'"
    and "start_server b a f c = Inr (r, c') \<Longrightarrow> wf_client c'"
  using assms
  by (auto simp: starting_defs wf_client_def bindR_eq_Inr split: option.splits
      dest: start_thread_Inr [THEN conjunct2, rotated -1])

lemma wf_cancelling:
  assumes "wf_client c"
  shows "cancel_periodic_publisher a c = Inr (r, c') \<Longrightarrow> wf_client c'"
    and "cancel_periodic_request a c = Inr (r, c') \<Longrightarrow> wf_client c'"
    and "cancel_subscription a c = Inr (r, c') \<Longrightarrow> wf_client c'"
    and "terminate_server a c = Inr (r, c') \<Longrightarrow> wf_client c'"
  using assms
  by (auto simp: cancelling_defs wf_client_def bindR_eq_Inr
      dest: wf_spaces_cancelled [rotated])

lemma cancel_all_preserves:
  assumes "\<And>k c r c'. P c \<Longrightarrow> f k c = Inr (r, c') \<Longrightarrow> P c'"
  shows "P c \<Longrightarrow> cancel_all f ks c = Inr c' \<Longrightarrow> P c'"
  by (induction ks arbitrary: c) (auto simp: bindR_eq_Inr dest: assms)

lemma wf_cancel_all:
  assumes "wf_client c"
  shows "cancel_all cancel_periodic_publisher ks c = Inr c' \<Longrightarrow> wf_client c'"
    and "cancel_all cancel_periodic_request ks c = Inr c' \<Longrightarrow> wf_client c'"
    and "cancel_all cancel_subscription ks c = Inr c' \<Longrightarrow> wf_client c'"
    and "cancel_all terminate_server ks c = Inr c' \<Longrightarrow> wf_client c'"
proof -
  show "cancel_all cancel_periodic_publisher ks c = Inr c' \<Longrightarrow> wf_client c'"
    by (rule cancel_all_preserves [where P = wf_client and f = cancel_periodic_publisher])
      (use assms in \<open>auto dest: wf_cancelling(1) [rotated]\<close>)
  show "cancel_all cancel_periodic_request ks c = Inr c' \<Longrightarrow> wf_client c'"
    by (rule cancel_all_preserves [where P = wf_client and f = cancel_periodic_request])
      (use assms in \<open>auto dest: wf_cancelling(2) [rotated]\<close>)
  show "cancel_all cancel_subscription ks c = Inr c' \<Longrightarrow> wf_client c'"
    by (rule cancel_all_preserves [where P = wf_client and f = cancel_subscription])
      (use assms in \<open>auto dest: wf_cancelling(3) [rotated]\<close>)
  show "cancel_all terminate_server ks c = Inr c' \<Longrightarrow> wf_client c'"
    by (rule cancel_all_preserves [where P = wf_client and f = terminate_server])
      (use assms in \<open>auto dest: wf_cancelling(4) [rotated]\<close>)
qed

lemma wf_quit: "wf_client c \<Longrightarrow> quit c = Inr (r, c') \<Longrightarrow> wf_client c'"
  unfolding quit_def bindR_eq_Inr by (auto dest: wf_cancel_all [rotated])

section \<open>Quitting, in full\<close>

definition stop_all :: "'cb spaces \<Rightarrow> 'cb spaces" where
  "stop_all m = map (\<lambda>(k, sp). (k, stopped sp)) m"

lemma update_middle: "k \<notin> fst ` set ds \<Longrightarrow> AList.update k v (ds @ (k, w) # m) = ds @ (k, v) # m"
  by (induction ds) auto

lemma cancel_all_table:
  assumes "wf_spaces (ds @ m)"
  shows "cancel_all (\<lambda>k m. cancel_thread m k) (map fst m) (ds @ m) =
    (if \<forall>(k, sp) \<in> set m. live sp then Inr (ds @ stop_all m) else Inl Promise_Already_Satisfied)"
  using assms
proof (induction m arbitrary: ds)
  case Nil
  then show ?case by (simp add: stop_all_def)
next
  case (Cons e m)
  obtain k sp where e: "e = (k, sp)" by fastforce
  have k: "k \<notin> fst ` set ds" using Cons.prems e by (auto simp: wf_spaces_def)
  then have look: "map_of (ds @ e # m) k = Some sp"
    by (simp add: e map_add_def map_of_eq_None_iff [THEN iffD2] split: option.split)
  show ?case
  proof (cases "live sp")
    case False
    then show ?thesis
      using cancel_thread_cases [OF Cons.prems, of k] look by (auto simp: e)
  next
    case True
    have "wf_spaces ((ds @ [(k, stopped sp)]) @ m)"
      using wf_spaces_cancel [OF Cons.prems look] update_middle [OF k] by (simp add: e)
    from Cons.IH [OF this] True show ?thesis
      using cancel_thread_live [OF look True] update_middle [OF k]
      by (simp add: e stop_all_def)
  qed
qed

lemma cancel_all_whole:
  "wf_spaces m \<Longrightarrow> cancel_all (\<lambda>k m. cancel_thread m k) (map fst m) m =
    (if \<forall>(k, sp) \<in> set m. live sp then Inr (stop_all m) else Inl Promise_Already_Satisfied)"
  using cancel_all_table [of "[]" m] by simp

lemma cancel_all_lift:
  assumes "\<And>k c. f k c = bindR (cancel_thread (gt c) k) (\<lambda>(r, m). Inr (r, st m c))"
    and "\<And>m c. gt (st m c) = m" and "\<And>m m' c. st m' (st m c) = st m' c" and "\<And>c. st (gt c) c = c"
  shows "cancel_all f ks c = bindR (cancel_all (\<lambda>k m. cancel_thread m k) ks (gt c)) (\<lambda>m. Inr (st m c))"
proof (induction ks arbitrary: c)
  case Nil
  then show ?case by (simp add: assms)
next
  case (Cons k ks)
  then show ?case
    by (cases "cancel_thread (gt c) k") (auto simp: assms split: prod.split)
qed

lemmas cancel_all_lifts =
  cancel_all_lift [where f = cancel_subscription and gt = zc_subscribers
    and st = "\<lambda>m c. c\<lparr>zc_subscribers := m\<rparr>", OF cancel_subscription_def]
  cancel_all_lift [where f = terminate_server and gt = zc_servers
    and st = "\<lambda>m c. c\<lparr>zc_servers := m\<rparr>", OF terminate_server_def]
  cancel_all_lift [where f = cancel_periodic_publisher and gt = zc_periodic_publishers
    and st = "\<lambda>m c. c\<lparr>zc_periodic_publishers := m\<rparr>", OF cancel_periodic_publisher_def]
  cancel_all_lift [where f = cancel_periodic_request and gt = zc_periodic_clients
    and st = "\<lambda>m c. c\<lparr>zc_periodic_clients := m\<rparr>", OF cancel_periodic_request_def]

definition all_live :: "'cb zmq_client \<Rightarrow> bool" where
  "all_live c \<longleftrightarrow> (\<forall>(k, sp) \<in> set (zc_subscribers c) \<union> set (zc_servers c) \<union>
     set (zc_periodic_publishers c) \<union> set (zc_periodic_clients c). live sp)"

lemma quit_eq:
  assumes "wf_client c"
  shows "quit c =
    (if all_live c
     then Inr (True, c\<lparr>zc_subscribers := stop_all (zc_subscribers c), zc_servers := stop_all (zc_servers c),
       zc_periodic_publishers := stop_all (zc_periodic_publishers c),
       zc_periodic_clients := stop_all (zc_periodic_clients c)\<rparr>)
     else Inl Promise_Already_Satisfied)"
  using assms
  by (simp add: quit_def cancel_all_lifts cancel_all_whole wf_client_def all_live_def ball_Un)

lemma not_live_stop_all: "(k, sp) \<in> set (stop_all m) \<Longrightarrow> \<not> live sp"
  by (auto simp: stop_all_def stopped_def live_def)

lemma request_loop_3:
  "request_loop polls msg REQUEST_RETRIES 0 [] =
    (case (polls 0, polls 1, polls 2) of
       (Some r, _, _) \<Rightarrow> (r, [msg])
     | (None, Some r, _) \<Rightarrow> (r, [msg, msg])
     | (None, None, Some r) \<Rightarrow> (r, [msg, msg, msg])
     | (None, None, None) \<Rightarrow> (no_response, [msg, msg, msg]))"
  by (simp add: request_loop.simps [of _ _ "Suc _"] request_loop.simps [of _ _ 0] REQUEST_RETRIES_def
      eval_nat_numeral split: option.split)

lemma reachable_wf:
  assumes "reachable c"
  shows "wf_client c"
  using assms
proof (induction rule: reachable.induct)
  case start
  then show ?case by (simp add: wf_client_def new_zmq_client_def)
next
  case (step c opn c')
  have "wf_client (snd (initialize_publisher a c))" "wf_client (snd (initialize_client c))"
    "wf_client (fst (snd (publish t m c)))" "wf_client (fst (snd (request polls m c)))" for a t m polls
    using step.IH by (auto simp: wf_client_def initialize_publisher_def initialize_client_def
        publish_def request_def concurrent_request_def Let_def split: option.split prod.split)
  with step show ?case
    by (cases opn) (auto simp: bindR_eq_Inr serve_def bind_server_def
        dest: wf_starting [rotated] wf_cancelling [rotated] wf_quit)
qed

section \<open>Properties\<close>

text \<open>
  C9: in every state a client reaches from its constructor by its operations, all four
  tables hold only started threads under distinct keys, each started on a context with a
  socket of its kind, an exit signal and all callbacks, and a thread is joined exactly when
  its exit signal was given: no operation that returns leaves a thread half started.
\<close>

theorem thread_tables_invariant:
  assumes "reachable c"
  shows "wf_client c"
  using assms by (rule reachable_wf)

lemma thread_tables_invariant_witness:
  "\<exists>c. serve ''tcp://a'' (0 :: nat) new_zmq_client = Inr (True, c) \<and> wf_client c"
proof -
  let ?c = "new_zmq_client\<lparr>zc_servers := [(''tcp://a'', running (server_task ''tcp://a'' (0 :: nat) False True (Some ZMQ_REP)))]\<rparr>"
  have s: "serve ''tcp://a'' (0 :: nat) new_zmq_client = Inr (True, ?c)"
    by (simp add: starting_defs new_zmq_client_def start_thread_fresh)
  then have "operate (Op_Serve ''tcp://a'' 0) new_zmq_client = Inr ?c" by simp
  then have "reachable ?c" by (rule reachable.step [OF reachable.start])
  with s thread_tables_invariant show ?thesis by blast
qed

text \<open>
  \<^verbatim>\<open>quit\<close> on a client whose threads all still run signals and joins every one of
  them and returns true.  If one of them was cancelled before (by a cancelling function or
  an earlier \<^verbatim>\<open>quit\<close>), its promise is set a second time and \<^verbatim>\<open>quit\<close> throws; in
  particular a second \<^verbatim>\<open>quit\<close> throws unless the client never started a thread.
\<close>

theorem quit_result:
  assumes "reachable c"
  shows "(all_live c \<longrightarrow> (\<exists>c'. quit c = Inr (True, c') \<and>
      map fst (zc_servers c') = map fst (zc_servers c) \<and>
      (\<forall>(k, sp) \<in> set (zc_subscribers c') \<union> set (zc_servers c') \<union> set (zc_periodic_publishers c') \<union>
        set (zc_periodic_clients c'). sp_satisfied sp \<and> \<not> live sp) \<and>
      (zc_servers c \<noteq> [] \<longrightarrow> quit c' = Inl Promise_Already_Satisfied))) \<and>
    (\<not> all_live c \<longrightarrow> quit c = Inl Promise_Already_Satisfied)"
proof -
  have wf: "wf_client c" using assms by (rule reachable_wf)
  have fin: "quit c = Inr (True, c') \<Longrightarrow> zc_servers c' \<noteq> [] \<Longrightarrow> quit c' = Inl Promise_Already_Satisfied" for c'
  proof -
    assume q: "quit c = Inr (True, c')" and ne: "zc_servers c' \<noteq> []"
    then have "zc_servers c' = stop_all (zc_servers c)"
      using wf by (auto simp: quit_eq split: if_splits)
    moreover obtain k sp where e: "(k, sp) \<in> set (zc_servers c')" using ne by (cases "zc_servers c'") auto
    ultimately have "\<not> live sp" using not_live_stop_all by metis
    then have "\<not> all_live c'" using e by (force simp: all_live_def)
    then show ?thesis using wf_quit [OF wf q] by (simp add: quit_eq)
  qed
  show ?thesis
  proof (intro conjI impI)
    assume "all_live c"
    then obtain c' where c': "quit c = Inr (True, c')"
      "zc_subscribers c' = stop_all (zc_subscribers c)" "zc_servers c' = stop_all (zc_servers c)"
      "zc_periodic_publishers c' = stop_all (zc_periodic_publishers c)"
      "zc_periodic_clients c' = stop_all (zc_periodic_clients c)"
      using wf by (simp add: quit_eq)
    then have "map fst (zc_servers c') = map fst (zc_servers c)"
      by (simp add: stop_all_def comp_def case_prod_beta)
    moreover have "\<forall>(k, sp) \<in> set (zc_subscribers c') \<union> set (zc_servers c') \<union>
        set (zc_periodic_publishers c') \<union> set (zc_periodic_clients c'). sp_satisfied sp \<and> \<not> live sp"
      unfolding c' by (auto simp: stop_all_def stopped_def live_def)
    moreover have "zc_servers c \<noteq> [] \<longrightarrow> quit c' = Inl Promise_Already_Satisfied"
      using fin [OF c'(1)] c'(3) by (auto simp: stop_all_def)
    ultimately show "\<exists>c'. quit c = Inr (True, c') \<and>
      map fst (zc_servers c') = map fst (zc_servers c) \<and>
      (\<forall>(k, sp) \<in> set (zc_subscribers c') \<union> set (zc_servers c') \<union> set (zc_periodic_publishers c') \<union>
        set (zc_periodic_clients c'). sp_satisfied sp \<and> \<not> live sp) \<and>
      (zc_servers c \<noteq> [] \<longrightarrow> quit c' = Inl Promise_Already_Satisfied)"
      using c'(1) by blast
  qed (use wf in \<open>simp add: quit_eq\<close>)
qed

lemma quit_result_witness:
  "\<exists>c'. quit (new_zmq_client :: nat zmq_client) = Inr (True, c')"
  using quit_result [OF reachable.start] by (auto simp: all_live_def new_zmq_client_def)

text \<open>
  A server is cancelled once.  On a fresh address \<^verbatim>\<open>serve\<close> starts a thread and answers
  true; the same address is refused from then on, even after \<^verbatim>\<open>terminate_server\<close> has
  stopped it, and a second \<^verbatim>\<open>terminate_server\<close> throws instead of answering false.
\<close>

theorem server_lifecycle:
  assumes "reachable c" and "map_of (zc_servers c) addr = None"
  shows "\<exists>c1 c2. serve addr f c = Inr (True, c1) \<and> serve addr g c1 = Inr (False, c1) \<and>
    terminate_server addr c1 = Inr (True, c2) \<and>
    terminate_server addr c2 = Inl Promise_Already_Satisfied \<and>
    serve addr g c2 = Inr (False, c2) \<and> bind_server addr g c2 = Inr (False, c2) \<and>
    (\<forall>a. a \<noteq> addr \<longrightarrow> map_of (zc_servers c2) a = map_of (zc_servers c) a)"
proof -
  let ?m = "zc_servers c @ [(addr, running (server_task addr f False True (Some ZMQ_REP)))]"
  let ?m2 = "AList.update addr (stopped (running (server_task addr f False True (Some ZMQ_REP)))) ?m"
  let ?c1 = "c\<lparr>zc_servers := ?m\<rparr>" and ?c2 = "c\<lparr>zc_servers := ?m2\<rparr>"
  have look: "map_of ?m addr = Some (running (server_task addr f False True (Some ZMQ_REP)))"
    by (rule map_of_fresh [OF assms(2)])
  have "serve addr f c = Inr (True, ?c1)" "serve addr g ?c1 = Inr (False, ?c1)"
    using assms(2) look by (simp_all add: starting_defs start_thread_fresh)
  moreover have "terminate_server addr ?c1 = Inr (True, ?c2)"
    using cancel_thread_live [OF look] by (simp add: terminate_server_def)
  moreover have look2: "map_of ?m2 addr = Some (stopped (running (server_task addr f False True (Some ZMQ_REP))))"
    by (simp add: update_conv')
  then have "terminate_server addr ?c2 = Inl Promise_Already_Satisfied"
    using cancel_thread_stopped [OF look2] by (simp add: terminate_server_def stopped_def)
  moreover have "serve addr g ?c2 = Inr (False, ?c2)" "bind_server addr g ?c2 = Inr (False, ?c2)"
    using look2 by (simp_all add: starting_defs)
  moreover have "\<forall>a. a \<noteq> addr \<longrightarrow> map_of ?m2 a = map_of (zc_servers c) a"
    by (simp add: update_conv' map_add_def split: option.split)
  ultimately show ?thesis by (intro exI [of _ ?c1] exI [of _ ?c2]) simp
qed

lemma server_lifecycle_witness:
  "\<exists>c1. serve ''tcp://a'' (0 :: nat) new_zmq_client = Inr (True, c1) \<and>
    serve ''tcp://a'' 1 c1 = Inr (False, c1)"
  using server_lifecycle [OF reachable.start, of "''tcp://a''" "0 :: nat" 1]
  by (auto simp: new_zmq_client_def)

text \<open>
  \<^verbatim>\<open>subscribe\<close> looks for the topic but files under the address.  A second topic at an
  address that already has a subscriber throws \<^verbatim>\<open>future_already_retrieved\<close> instead of
  subscribing, the duplicate of a subscription is not refused but throws too, and the same
  topic is accepted at a second address.
\<close>

theorem subscribe_same_address:
  assumes "reachable c" and "map_of (zc_subscribers c) addr = Some sp"
    and "map_of (zc_subscribers c) topic = None"
  shows "subscribe addr topic f c = Inl Future_Already_Retrieved \<and>
    (map_of (zc_subscribers c) addr2 = None \<longrightarrow> (\<exists>c'. subscribe addr2 topic f c = Inr (True, c') \<and>
      map_of (zc_subscribers c') addr2 = Some (running (subscriber_task addr2 topic f True (Some ZMQ_SUB))) \<and>
      map_of (zc_subscribers c') addr = Some sp))"
proof -
  have wf: "wf_spaces (zc_subscribers c)" using reachable_wf [OF assms(1)] by (simp add: wf_client_def)
  have "subscribe addr topic f c = Inl Future_Already_Retrieved"
    using assms(3) start_thread_taken [OF wf assms(2)] by (simp add: subscribe_def)
  moreover have "subscribe addr2 topic f c = Inr (True, c\<lparr>zc_subscribers := zc_subscribers c @
      [(addr2, running (subscriber_task addr2 topic f True (Some ZMQ_SUB)))]\<rparr>)" if "map_of (zc_subscribers c) addr2 = None"
    using that assms(3) by (simp add: subscribe_def start_thread_fresh)
  ultimately show ?thesis
    using assms(2) map_of_fresh [of "zc_subscribers c" addr2] by (auto simp: map_add_def)
qed

lemma subscribe_same_address_witness:
  "\<exists>c. subscribe ''tcp://a'' ''t'' (0 :: nat) new_zmq_client = Inr (True, c) \<and>
    subscribe ''tcp://a'' ''t'' 0 c = Inl Future_Already_Retrieved"
proof -
  let ?c = "new_zmq_client\<lparr>zc_subscribers :=
      [(''tcp://a'', running (subscriber_task ''tcp://a'' ''t'' (0 :: nat) True (Some ZMQ_SUB)))]\<rparr>"
  have s: "subscribe ''tcp://a'' ''t'' (0 :: nat) new_zmq_client = Inr (True, ?c)"
    by (simp add: subscribe_def new_zmq_client_def start_thread_fresh)
  then have "operate (Op_Subscribe ''tcp://a'' ''t'' 0) new_zmq_client = Inr ?c" by simp
  then have "reachable ?c" by (rule reachable.step [OF reachable.start])
  with s subscribe_same_address [of ?c "''tcp://a''" _ "''t''" 0] show ?thesis by auto
qed



text \<open>
  \<^verbatim>\<open>publish(topic, message)\<close> gives its publisher away: after one message, sent as
  a topic frame and a data frame, every further one is dropped with false until
  \<^verbatim>\<open>initialize_publisher\<close> is called again.
\<close>

theorem publish_once:
  "\<exists>c1 c2. initialize_publisher addr (c\<lparr>zc_publisher := None\<rparr>) = (True, c1) \<and>
    publish t m c1 = (True, c2, [(addr, [bytes_of_string t, m])]) \<and>
    publish t' m' c2 = (False, c2, []) \<and>
    fst (initialize_publisher addr c2)"
  by (simp add: initialize_publisher_def publish_def concurrent_publish_def)

end
