(* ===== verification/Registry.thy ===== *)
theory Registry
  imports Prelude
begin

text \<open>
  The contract several components share: a table of callbacks that only grows,
  \<^verbatim>\<open>find\<close> followed by \<^verbatim>\<open>insert\<close> when the key is absent (\<^verbatim>\<open>register_ping_func\<close>,
  \<^verbatim>\<open>register_signal\<close>, the endpoints of a pipe).  The components interpret the locale on
  their own tables.
\<close>

text \<open>Registering several entries in order, with the codes returned.\<close>

fun register_all :: "('k \<Rightarrow> 'v \<Rightarrow> 's \<Rightarrow> bool \<times> 's) \<Rightarrow> ('k \<times> 'v) list \<Rightarrow> 's \<Rightarrow> bool list \<times> 's" where
  "register_all reg [] s = ([], s)"
| "register_all reg ((k, v) # kvs) s =
     (fst (reg k v s) # fst (register_all reg kvs (snd (reg k v s))),
      snd (register_all reg kvs (snd (reg k v s))))"

locale registry =
  fixes look :: "'s \<Rightarrow> 'k \<Rightarrow> 'v option"
    and reg :: "'k \<Rightarrow> 'v \<Rightarrow> 's \<Rightarrow> bool \<times> 's"
  assumes reg_taken: "look s k = Some w \<Longrightarrow> reg k v s = (False, s)"
    and reg_free: "look s k = None \<Longrightarrow>
      \<exists>s'. reg k v s = (True, s') \<and> look s' k = Some v \<and> (\<forall>j. j \<noteq> k \<longrightarrow> look s' j = look s j)"
begin

lemma reg_returns: "fst (reg k v s) = (look s k = None)"
  using reg_taken [of s k _ v] reg_free [of s k v] by (cases "look s k") auto

lemma reg_look: "look (snd (reg k v s)) j = (if j = k \<and> look s k = None then Some v else look s j)"
  using reg_taken [of s k _ v] reg_free [of s k v] by (cases "look s k") auto

lemma reg_keeps: "look s j = Some w \<Longrightarrow> look (snd (reg k v s)) j = Some w"
  by (cases "j = k") (simp_all add: reg_look)

lemma register_all_keeps:
  "look s j = Some w \<Longrightarrow> look (snd (register_all reg kvs s)) j = Some w"
proof (induction kvs arbitrary: s)
  case Nil
  then show ?case by simp
next
  case (Cons kv kvs)
  obtain k v where kv: "kv = (k, v)" by fastforce
  from Cons.IH [OF reg_keeps [OF Cons.prems, of k v]] show ?case
    by (simp add: kv)
qed

text \<open>The first registration of a key wins; what the table held before wins over all.\<close>

lemma register_all_look:
  "look (snd (register_all reg kvs s)) j =
     (case look s j of Some w \<Rightarrow> Some w | None \<Rightarrow> map_of kvs j)"
proof (induction kvs arbitrary: s)
  case Nil
  then show ?case by (simp split: option.split)
next
  case (Cons kv kvs)
  obtain k v where kv: "kv = (k, v)" by fastforce
  have "look (snd (register_all reg (kv # kvs) s)) j =
      look (snd (register_all reg kvs (snd (reg k v s)))) j"
    by (simp add: kv)
  then show ?case by (simp add: Cons.IH reg_look kv split: option.split)
qed

lemma register_all_codes:
  "distinct (map fst kvs) \<Longrightarrow>
    fst (register_all reg kvs s) = map (\<lambda>(k, _). look s k = None) kvs"
proof (induction kvs arbitrary: s)
  case Nil
  then show ?case by simp
next
  case (Cons kv kvs)
  obtain k v where kv: "kv = (k, v)" by fastforce
  have "fst (register_all reg (kv # kvs) s) =
      (look s k = None) # fst (register_all reg kvs (snd (reg k v s)))"
    using reg_returns [of k v s] by (simp add: kv)
  moreover have "map (\<lambda>(j, _). look (snd (reg k v s)) j = None) kvs =
      map (\<lambda>(j, _). look s j = None) kvs"
  proof (rule map_cong [OF refl])
    fix x assume x: "x \<in> set kvs"
    then have "fst x \<noteq> k" using Cons.prems kv by (auto simp: image_iff)
    then show "(case x of (j, _) \<Rightarrow> look (snd (reg k v s)) j = None) =
        (case x of (j, _) \<Rightarrow> look s j = None)"
      by (cases x) (simp add: reg_look)
  qed
  ultimately show ?case using Cons kv by simp
qed

end

end
