(* ===== verification/Rmt_Control_Client.thy ===== *)
theory Rmt_Control_Client
  imports Ping_Message Zmq_Control_Client Registry
begin

text \<open>
  Model of \<^verbatim>\<open>src/control/RMTControlClient.cpp\<close> and \<^verbatim>\<open>RMTControlClient.hpp\<close>: a control client
  that answers pings with registered callbacks and sends pings of its own.  A callback
  works on the state \<open>'s\<close> of the object it is bound to.  A \<^verbatim>\<open>std::string\<close> is handed to the
  message code as a pointer to its storage: its characters, the terminating null and
  \<open>slack\<close>, the bytes that lie after it.  The mutex around \<^verbatim>\<open>register_ping_func\<close> makes the call
  one step.
\<close>

section \<open>The client\<close>

record ping =
  pg_type :: u8
  pg_code :: u16
  pg_excess :: u64

text \<open>The callbacks a robot program binds to its threads, by name.\<close>

datatype callback =
    Ping_Server_Callback
  | Drive_Message_Callback
  | Localizer_Cmd_Get_Data
  | Get_Pos

type_synonym 's ping_func = "ping \<Rightarrow> 's \<Rightarrow> (ping \<times> 's) res"

record 's rmt_client =
  rc_server_address :: address
  rc_callbacks :: "int \<Rightarrow> 's ping_func option"
  rc_incoming :: ping_buffer
  rc_outgoing :: ping_buffer
  rc_request :: ping_buffer
  rc_reply :: ping_buffer
  rc_net :: "callback zmq_client"

definition new_rmt_client :: "address \<Rightarrow> 's rmt_client res" where
  "new_rmt_client addr =
     (let (_, net) = initialize_client new_zmq_client in
      bindR (bind_server addr Ping_Server_Callback net) (\<lambda>(_, net).
        Inr \<lparr>rc_server_address = addr, rc_callbacks = (\<lambda>_. None),
          rc_incoming = create_buffer_ping, rc_outgoing = create_buffer_ping,
          rc_request = create_buffer_ping, rc_reply = create_buffer_ping, rc_net = net\<rparr>))"

definition string_storage :: "message \<Rightarrow> bytes \<Rightarrow> bytes" where
  "string_storage s slack = s @ [0] @ slack"

text \<open>\<^verbatim>\<open>std::string(data, PING_HEADER_SIZE)\<close> of a packet put on the wire.\<close>

definition ping_bytes :: "ping_buffer \<Rightarrow> (ping_buffer \<times> message) res" where
  "ping_bytes b =
     bindR (to_wire_ping (Some b)) (\<lambda>(_, b').
       case b' of None \<Rightarrow> Inl Null_Deref
       | Some x \<Rightarrow> bindR (load (pb_data x) 0 PING_HEADER_SIZE) (\<lambda>s. Inr (x, s)))"

definition set_ping :: "ping_buffer \<Rightarrow> ping \<Rightarrow> ping_buffer" where
  "set_ping b p = b\<lparr>pb_type := pg_type p, pb_code := pg_code p, pb_excess := pg_excess p\<rparr>"

definition ping_of :: "ping_buffer \<Rightarrow> ping" where
  "ping_of b = \<lparr>pg_type = pb_type b, pg_code = pb_code b, pg_excess = pb_excess b\<rparr>"

section \<open>Sending a ping\<close>

text \<open>
  What the polls of the request's socket find depends on the message that was sent: \<open>polls msg\<close>
  are the answers to \<open>msg\<close>.  The last component is what went out.
\<close>

definition ping_endpoint :: "(message \<Rightarrow> nat \<Rightarrow> message option) \<Rightarrow> bytes \<Rightarrow> ping \<Rightarrow> 's rmt_client \<Rightarrow>
    (ping \<times> 's rmt_client \<times> message list) res" where
  "ping_endpoint polls slack p c =
     bindR (ping_bytes (set_ping (rc_request c) p)) (\<lambda>(req, msg).
     let (response, net, sent) = request (polls msg) msg (rc_net c) in
     bindR (serialize_from_ping (Some (rc_reply c)) (Some (string_storage response slack))) (\<lambda>(e, r).
     case r of
       None \<Rightarrow> Inl Null_Deref
     | Some reply \<Rightarrow>
         Inr (if e = ENONE then ping_of reply else \<lparr>pg_type = 0, pg_code = 0, pg_excess = 0\<rparr>,
           c\<lparr>rc_request := req, rc_reply := reply, rc_net := net\<rparr>, sent)))"

section \<open>Answering a ping\<close>

definition process_control_command_default :: "ping \<Rightarrow> ping" where
  "process_control_command_default p = \<lparr>pg_type = ACK, pg_code = 0, pg_excess = 0\<rparr>"

definition ping_server_callback :: "bytes \<Rightarrow> message \<Rightarrow> 's rmt_client \<Rightarrow> 's \<Rightarrow>
    (message \<times> 's rmt_client \<times> 's) res" where
  "ping_server_callback slack msg c s =
     bindR (serialize_from_ping (Some (rc_incoming c)) (Some (string_storage msg slack))) (\<lambda>(e, r).
     case r of
       None \<Rightarrow> Inl Null_Deref
     | Some incoming \<Rightarrow>
         bindR (if e = ENONE then
             let resp = ping_of incoming in
             (case rc_callbacks c (uint (pg_type resp)) of
                Some f \<Rightarrow> f resp s
              | None \<Rightarrow> Inr (process_control_command_default resp, s))
           else Inr (\<lparr>pg_type = INVALID_REQUEST, pg_code = 0, pg_excess = 0\<rparr>, s)) (\<lambda>(ret, s').
         bindR (ping_bytes (set_ping (rc_outgoing c) ret)) (\<lambda>(outgoing, reply).
           Inr (reply, c\<lparr>rc_incoming := incoming, rc_outgoing := outgoing\<rparr>, s'))))"

definition register_ping_func :: "int \<Rightarrow> 's ping_func \<Rightarrow> 's rmt_client \<Rightarrow> bool \<times> 's rmt_client" where
  "register_ping_func type callback c =
     (case rc_callbacks c type of
        None \<Rightarrow> (True, c\<lparr>rc_callbacks := (rc_callbacks c)(type \<mapsto> callback)\<rparr>)
      | Some _ \<Rightarrow> (False, c))"

interpretation ping_funcs: registry rc_callbacks register_ping_func
  by unfold_locales (auto simp: register_ping_func_def)

section \<open>Well-formed clients\<close>

definition wf_out :: "ping_buffer \<Rightarrow> bool" where
  "wf_out b \<longleftrightarrow> wf_ping b \<and> pb_prot b = PROTOCOL_VERSION \<and> pb_op b = PING \<and> pb_check b = 0"

definition wf_rmt :: "'s rmt_client \<Rightarrow> bool" where
  "wf_rmt c \<longleftrightarrow> wf_out (rc_outgoing c) \<and> wf_out (rc_request c) \<and> zc_client (rc_net c)"

lemma wf_new_rmt_client: "\<exists>c. new_rmt_client addr = Inr c \<and> wf_rmt c"
  by (simp add: new_rmt_client_def initialize_client_def new_zmq_client_def starting_defs
      start_thread_fresh wf_rmt_def wf_out_def wf_create_buffer_ping)
    (simp add: create_buffer_ping_def check_packet_validity_def zero_ping_buffer_def)

text \<open>The eleven bytes on the wire for a ping.\<close>

definition ping_header :: "ping \<Rightarrow> message" where
  "ping_header p = take PING_HEADER_SIZE (ping_wire
     \<lparr>pb_prot = PROTOCOL_VERSION, pb_op = PING, pb_type = pg_type p, pb_code = pg_code p,
      pb_check = 0, pb_excess = pg_excess p, pb_data = []\<rparr>)"

lemma ping_bytes_eq:
  assumes "wf_out b"
  shows "\<exists>b'. ping_bytes (set_ping b p) = Inr (b', ping_header p) \<and> wf_out b'"
proof -
  let ?b = "set_ping b p"
  have "wf_ping ?b" using assms by (simp add: wf_out_def wf_ping_def set_ping_def)
  then have "to_wire_ping (Some ?b) = Inr (ENONE, Some (?b\<lparr>pb_data := ping_wire ?b\<rparr>))"
    by (rule to_wire_ping_eq)
  moreover have "load (ping_wire ?b) 0 PING_HEADER_SIZE = Inr (ping_header p)"
    using assms by (simp add: load_def ping_header_def set_ping_def ping_wire_def wf_out_def const_simps)
  moreover have "wf_out (?b\<lparr>pb_data := ping_wire ?b\<rparr>)"
    using assms by (simp add: wf_out_def wf_ping_def set_ping_def)
  ultimately show ?thesis by (simp add: ping_bytes_def)
qed

text \<open>What is read back: the low half of \<^verbatim>\<open>excess\<close>, and above it the null and the slack.\<close>

definition header_excess :: "bytes \<Rightarrow> u64 \<Rightarrow> u64" where
  "header_excess slack e = take_bit 32 e OR push_bit 32 (ucast (le_word (take 4 (0 # slack)) :: u32))"

definition seen :: "bytes \<Rightarrow> ping \<Rightarrow> ping" where
  "seen slack p = p\<lparr>pg_excess := header_excess slack (pg_excess p)\<rparr>"

lemma take_bit_header_excess: "take_bit 32 (header_excess slack e) = take_bit 32 e"
  by (intro bit_word_eqI) (auto simp: header_excess_def bit_simps)

lemma serialize_header:
  assumes "pg_type p \<le> MAX_PING_TYPE" and "3 \<le> length slack"
  shows "\<exists>b. serialize_from_ping (Some dst) (Some (string_storage (ping_header p) slack)) =
    Inr (ENONE, Some b) \<and> ping_of b = seen slack p"
proof -
  let ?b = "\<lparr>pb_prot = PROTOCOL_VERSION, pb_op = PING, pb_type = pg_type p, pb_code = pg_code p,
      pb_check = 0, pb_excess = pg_excess p, pb_data = []\<rparr>"
  have "PING \<le> MAX_PING_TYPE" by (simp add: const_simps)
  then show ?thesis
    using serialize_from_ping_header [of ?b dst "0 # slack"] assms
    by (simp add: string_storage_def ping_header_def ping_of_def seen_def header_excess_def)
qed

lemma ping_server_callback_header:
  assumes wf: "wf_rmt c" and p: "pg_type p \<le> MAX_PING_TYPE" "3 \<le> length slack"
    and f: "(case rc_callbacks c (uint (pg_type p)) of Some f \<Rightarrow> f (seen slack p) s
      | None \<Rightarrow> Inr (process_control_command_default (seen slack p), s)) = Inr (ret, s')"
  shows "\<exists>c'. ping_server_callback slack (ping_header p) c s = Inr (ping_header ret, c', s') \<and>
    wf_rmt c' \<and> rc_callbacks c' = rc_callbacks c \<and> rc_net c' = rc_net c"
proof -
  obtain b where b: "serialize_from_ping (Some (rc_incoming c))
      (Some (string_storage (ping_header p) slack)) = Inr (ENONE, Some b)" "ping_of b = seen slack p"
    using serialize_header [OF p] by blast
  obtain out where out: "ping_bytes (set_ping (rc_outgoing c) ret) = Inr (out, ping_header ret)"
      "wf_out out"
    using ping_bytes_eq wf by (auto simp: wf_rmt_def)
  have "pg_type (seen slack p) = pg_type p" by (simp add: seen_def)
  then have h: "(let resp = ping_of b in
      case rc_callbacks c (uint (pg_type resp)) of Some f \<Rightarrow> f resp s
      | None \<Rightarrow> Inr (process_control_command_default resp, s)) = Inr (ret, s')"
    unfolding b(2) Let_def using f by (simp only:)
  have "ping_server_callback slack (ping_header p) c s =
      Inr (ping_header ret, c\<lparr>rc_incoming := b, rc_outgoing := out\<rparr>, s')"
    by (simp only: ping_server_callback_def b(1) bindR_Inr prod.case option.case simp_thms if_True h out(1))
  with out wf show ?thesis by (simp add: wf_rmt_def)
qed

lemma ping_endpoint_reply:
  assumes wf: "wf_rmt c" and r: "pg_type r \<le> MAX_PING_TYPE" "3 \<le> length slack"
    and polls: "polls (ping_header p) 0 = Some (ping_header r)"
  shows "\<exists>c'. ping_endpoint polls slack p c = Inr (seen slack r, c', [ping_header p]) \<and> wf_rmt c'"
proof -
  obtain b where b: "serialize_from_ping (Some (rc_reply c))
      (Some (string_storage (ping_header r) slack)) = Inr (ENONE, Some b)" "ping_of b = seen slack r"
    using serialize_header [OF r] by blast
  obtain req where req: "ping_bytes (set_ping (rc_request c) p) = Inr (req, ping_header p)" "wf_out req"
    using ping_bytes_eq wf by (auto simp: wf_rmt_def)
  have "request (polls (ping_header p)) (ping_header p) (rc_net c) = (ping_header r, rc_net c, [ping_header p])"
    using wf polls by (simp add: request_def concurrent_request_def request_loop_3 wf_rmt_def
        initialize_client_def Let_def split: option.split)
  with b req wf show ?thesis
    by (simp add: ping_endpoint_def wf_rmt_def)
qed

section \<open>A ping between two clients\<close>

text \<open>
  One exchange over a wire that delivers at once: \<^verbatim>\<open>ping_endpoint\<close> of the client runs against a
  peer whose answer to a message is the server's callback on that message, and the server ends
  in the state the callback leaves after the messages that \<^verbatim>\<open>ping_endpoint\<close> really sent.
\<close>

definition answer_of :: "bytes \<Rightarrow> 's rmt_client \<Rightarrow> 's \<Rightarrow> message \<Rightarrow> nat \<Rightarrow> message option" where
  "answer_of slack server s msg i =
     (case ping_server_callback slack msg server s of Inl _ \<Rightarrow> None | Inr (reply, _, _) \<Rightarrow> Some reply)"

fun serve_pings :: "bytes \<Rightarrow> message list \<Rightarrow> 's rmt_client \<Rightarrow> 's \<Rightarrow> ('s rmt_client \<times> 's) res" where
  "serve_pings slack [] server s = Inr (server, s)"
| "serve_pings slack (msg # msgs) server s =
     bindR (ping_server_callback slack msg server s) (\<lambda>(_, server', s'). serve_pings slack msgs server' s')"

definition ping_exchange :: "bytes \<Rightarrow> bytes \<Rightarrow> ping \<Rightarrow> 'c rmt_client \<Rightarrow> 's rmt_client \<Rightarrow> 's \<Rightarrow>
    (ping \<times> 'c rmt_client \<times> 's rmt_client \<times> 's) res" where
  "ping_exchange server_slack client_slack p client server s =
     bindR (ping_endpoint (answer_of server_slack server s) client_slack p client) (\<lambda>(r, client', sent).
     bindR (serve_pings server_slack sent server s) (\<lambda>(server', s').
       Inr (r, client', server', s')))"

lemma ping_exchange_eq:
  assumes wf: "wf_rmt client" "wf_rmt server"
    and p: "pg_type p \<le> MAX_PING_TYPE" "3 \<le> length sl1" "3 \<le> length sl2"
    and f: "(case rc_callbacks server (uint (pg_type p)) of Some f \<Rightarrow> f (seen sl1 p) s
      | None \<Rightarrow> Inr (process_control_command_default (seen sl1 p), s)) = Inr (ret, s')"
    and ret: "pg_type ret \<le> MAX_PING_TYPE"
  shows "\<exists>c' v'. ping_exchange sl1 sl2 p client server s = Inr (seen sl2 ret, c', v', s') \<and>
    wf_rmt c' \<and> wf_rmt v' \<and> rc_callbacks v' = rc_callbacks server"
proof -
  obtain v' where v': "ping_server_callback sl1 (ping_header p) server s = Inr (ping_header ret, v', s')"
    "wf_rmt v'" "rc_callbacks v' = rc_callbacks server"
    using ping_server_callback_header [OF wf(2) p(1,2) f] by blast
  then have "answer_of sl1 server s (ping_header p) 0 = Some (ping_header ret)" by (simp add: answer_of_def)
  from ping_endpoint_reply [of client ret sl2 "answer_of sl1 server s", OF wf(1) ret p(3) this] obtain c' where
    "ping_endpoint (answer_of sl1 server s) sl2 p client = Inr (seen sl2 ret, c', [ping_header p])" "wf_rmt c'"
    by blast
  with v' show ?thesis by (simp add: ping_exchange_def)
qed

section \<open>Properties\<close>

text \<open>
  C28: a ping of a registered type reaches its callback and the callback's answer reaches the
  caller, when what \<^verbatim>\<open>ping_endpoint\<close> sends is delivered to the server and the server's reply to it
  is what it receives: type and code exactly, the low 32 bits of \<^verbatim>\<open>excess\<close> exactly, in both directions; the
  server's state is the one the callback leaves, and both clients can go on.  Both clients are as
  their constructors make them or left by an earlier exchange, and the callback ends without a
  fault.  Types above \<^verbatim>\<open>MAX_PING_TYPE\<close> are excluded, as are strings whose storage ends less than three bytes
  after the terminating null.
\<close>

theorem ping_reaches_callback:
  assumes "wf_rmt client" and "wf_rmt server" and "rc_callbacks server (uint (pg_type p)) = Some f"
    and "pg_type p \<le> MAX_PING_TYPE" and "3 \<le> length sl1" and "3 \<le> length sl2"
    and "f (seen sl1 p) s = Inr (ret, s')" and "pg_type ret \<le> MAX_PING_TYPE"
  shows "\<exists>r c' v'. ping_exchange sl1 sl2 p client server s = Inr (r, c', v', s') \<and>
    pg_type r = pg_type ret \<and> pg_code r = pg_code ret \<and>
    take_bit 32 (pg_excess r) = take_bit 32 (pg_excess ret) \<and>
    pg_type (seen sl1 p) = pg_type p \<and> pg_code (seen sl1 p) = pg_code p \<and>
    take_bit 32 (pg_excess (seen sl1 p)) = take_bit 32 (pg_excess p) \<and>
    wf_rmt c' \<and> wf_rmt v'"
proof -
  obtain c' v' where "ping_exchange sl1 sl2 p client server s = Inr (seen sl2 ret, c', v', s')"
    "wf_rmt c'" "wf_rmt v'"
    using ping_exchange_eq [OF assms(1,2,4,5,6) _ assms(8), of s s'] assms(3,7) by auto
  then show ?thesis by (auto simp: seen_def take_bit_header_excess)
qed

lemma ping_reaches_callback_witness:
  "\<exists>c v :: nat rmt_client. new_rmt_client ''tcp://*:5570'' = Inr c \<and>
     snd (register_ping_func 8 (\<lambda>p n. Inr (\<lparr>pg_type = ACK, pg_code = 7, pg_excess = 0\<rparr>, Suc n)) c) = v \<and>
     (\<exists>r c' v'. ping_exchange [0, 0, 0] [0, 0, 0] \<lparr>pg_type = STATE_REQUEST, pg_code = 1, pg_excess = 5\<rparr>
        c v 0 = Inr (r, c', v', 1) \<and> pg_code r = 7)"
proof -
  obtain c :: "nat rmt_client" where c: "new_rmt_client ''tcp://*:5570'' = Inr c" "wf_rmt c"
    using wf_new_rmt_client by blast
  then have n: "rc_callbacks c = (\<lambda>_. None)"
    by (auto simp: new_rmt_client_def initialize_client_def new_zmq_client_def starting_defs
        start_thread_fresh)
  let ?f = "\<lambda>p n. Inr (\<lparr>pg_type = ACK, pg_code = 7, pg_excess = 0\<rparr>, Suc n)"
  let ?v = "snd (register_ping_func 8 ?f c)"
  have v: "wf_rmt ?v" "rc_callbacks ?v 8 = Some ?f"
    using c(2) n by (simp_all add: register_ping_func_def wf_rmt_def)
  let ?p = "\<lparr>pg_type = STATE_REQUEST, pg_code = 1, pg_excess = 5\<rparr>"
  let ?ret = "\<lparr>pg_type = ACK, pg_code = 7, pg_excess = 0\<rparr>"
  have "uint (pg_type ?p) = 8" by (simp add: STATE_REQUEST_def)
  then have "rc_callbacks ?v (uint (pg_type ?p)) = Some ?f" using v(2) by simp
  from ping_reaches_callback [OF c(2) v(1) this, of "[0, 0, 0]" "[0, 0, 0]" 0 ?ret 1]
  obtain r c' v' where "ping_exchange [0, 0, 0] [0, 0, 0] ?p c ?v 0 = Inr (r, c', v', 1)"
    "pg_code r = pg_code ?ret"
    by (auto simp: const_simps)
  then have "\<exists>r c' v'. ping_exchange [0, 0, 0] [0, 0, 0] ?p c ?v 0 = Inr (r, c', v', 1) \<and> pg_code r = 7"
    by (intro exI conjI) simp_all
  note ex = this
  show ?thesis
    by (rule exI [of _ c], rule exI [of _ ?v], intro conjI) (rule c(1), rule refl, rule ex)
qed

text \<open>
  The first callback registered for a type wins: registering any list of callbacks,
  the one a ping of type \<open>t\<close> reaches is the one the client already had, or else the first of
  the list; and registration reports which were taken when the types are distinct.
\<close>

theorem first_ping_func_wins:
  "rc_callbacks (snd (register_all register_ping_func fs c)) t =
    (case rc_callbacks c t of Some f \<Rightarrow> Some f | None \<Rightarrow> map_of fs t)"
  by (rule ping_funcs.register_all_look)

text \<open>
  A message that is no ping of protocol version 1 is not answered with
  \<^verbatim>\<open>INVALID_REQUEST\<close>, as the source intends: it is taken for a ping of type 0, code 0 and
  excess 0 and, with no callback for type 0, acknowledged.
\<close>

theorem malformed_ping_acknowledged:
  assumes "wf_rmt c" and "v \<noteq> PROTOCOL_VERSION" and "rc_callbacks c 0 = None"
  shows "\<exists>c'. ping_server_callback slack (v # rest) c s =
      Inr (ping_header \<lparr>pg_type = ACK, pg_code = 0, pg_excess = 0\<rparr>, c', s) \<and> wf_rmt c'"
proof -
  obtain b where b: "serialize_from_ping (Some (rc_incoming c)) (Some (string_storage (v # rest) slack)) =
      Inr (ENONE, Some b)" "ping_of b = \<lparr>pg_type = 0, pg_code = 0, pg_excess = 0\<rparr>"
    using serialize_from_ping_other [of v "rc_incoming c" "rest @ [0] @ slack"] assms(2)
    by (simp add: string_storage_def ping_of_def PROTOCOL_VERSION_def)
  obtain out where out: "ping_bytes (set_ping (rc_outgoing c) \<lparr>pg_type = ACK, pg_code = 0, pg_excess = 0\<rparr>) =
      Inr (out, ping_header \<lparr>pg_type = ACK, pg_code = 0, pg_excess = 0\<rparr>)" "wf_out out"
    using ping_bytes_eq assms(1) by (auto simp: wf_rmt_def)
  have "ping_server_callback slack (v # rest) c s =
      Inr (ping_header \<lparr>pg_type = ACK, pg_code = 0, pg_excess = 0\<rparr>,
        c\<lparr>rc_incoming := b, rc_outgoing := out\<rparr>, s)"
    using assms(3) b out
    by (simp add: ping_server_callback_def process_control_command_default_def Let_def)
  with out assms(1) show ?thesis by (simp add: wf_rmt_def)
qed

lemma malformed_ping_acknowledged_witness:
  "\<exists>c :: unit rmt_client. new_rmt_client ''tcp://*:5570'' = Inr c \<and>
    (\<exists>c'. ping_server_callback [] [104, 105] c () =
      Inr (ping_header \<lparr>pg_type = ACK, pg_code = 0, pg_excess = 0\<rparr>, c', ()))"
proof -
  obtain c :: "unit rmt_client" where c: "new_rmt_client ''tcp://*:5570'' = Inr c" "wf_rmt c"
    using wf_new_rmt_client by blast
  then have "rc_callbacks c 0 = None"
    by (auto simp: new_rmt_client_def initialize_client_def new_zmq_client_def starting_defs
        start_thread_fresh)
  with c malformed_ping_acknowledged [OF c(2), of 104 "[]" "[105]" "()"] show ?thesis
    by (auto simp: PROTOCOL_VERSION_def)
qed

text \<open>
  An endpoint that does not answer cannot be told from one that answers with zeros: after
  three sends the text \<^verbatim>\<open>No response\<close> is parsed as a packet, passes, and
  \<^verbatim>\<open>ping_endpoint\<close> returns the ping of type, code and excess 0.
\<close>

theorem unanswered_ping_is_zero:
  assumes "wf_rmt c" and "polls (ping_header p) 0 = None" and "polls (ping_header p) 1 = None"
    and "polls (ping_header p) 2 = None"
  shows "\<exists>c'. ping_endpoint polls slack p c =
      Inr (\<lparr>pg_type = 0, pg_code = 0, pg_excess = 0\<rparr>, c', replicate 3 (ping_header p)) \<and> wf_rmt c'"
proof -
  obtain req where req: "ping_bytes (set_ping (rc_request c) p) = Inr (req, ping_header p)" "wf_out req"
    using ping_bytes_eq assms(1) by (auto simp: wf_rmt_def)
  have r: "request (polls (ping_header p)) (ping_header p) (rc_net c) =
      (no_response, rc_net c, replicate 3 (ping_header p))"
    using assms by (simp add: request_def concurrent_request_def request_loop_3 wf_rmt_def
        initialize_client_def Let_def eval_nat_numeral)
  have "string_storage no_response slack = 78 # tl (string_storage no_response slack)"
    by (simp add: string_storage_def no_response_def bytes_of_string_def of_char_def)
  then obtain b where b: "serialize_from_ping (Some (rc_reply c)) (Some (string_storage no_response slack)) =
      Inr (ENONE, Some b)" "ping_of b = \<lparr>pg_type = 0, pg_code = 0, pg_excess = 0\<rparr>"
    using serialize_from_ping_other [of 78 "rc_reply c" "tl (string_storage no_response slack)"]
    by (auto simp: ping_of_def)
  show ?thesis
    using req r b assms(1) by (simp add: ping_endpoint_def wf_rmt_def)
qed

lemma unanswered_ping_is_zero_witness:
  "\<exists>c :: unit rmt_client. new_rmt_client ''tcp://*:5570'' = Inr c \<and>
    (\<exists>c' sent. ping_endpoint (\<lambda>_ _. None) [] \<lparr>pg_type = 8, pg_code = 2, pg_excess = 1\<rparr> c =
      Inr (\<lparr>pg_type = 0, pg_code = 0, pg_excess = 0\<rparr>, c', sent))"
proof -
  obtain c :: "unit rmt_client" where c: "new_rmt_client ''tcp://*:5570'' = Inr c" "wf_rmt c"
    using wf_new_rmt_client by blast
  with unanswered_ping_is_zero [OF c(2), of "\<lambda>_ _. None"] show ?thesis by blast
qed

end
