(* ===== verification/Data_Util.thy ===== *)
theory Data_Util
  imports Prelude
begin

text \<open>
  Model of \<^verbatim>\<open>src/messages/data.c\<close> with its headers \<^verbatim>\<open>data.h\<close> and
  \<^verbatim>\<open>type_codes.h\<close>: the type codes, the bit reversal of a word, the byte-order
  functions, \<^verbatim>\<open>reverse_bytes\<close>, \<^verbatim>\<open>memcpy_rmt\<close> and the functions that look for
  the smallest width that holds an integer.  Words keep their C width; C's
  integer promotions are written out where they matter.
\<close>

section \<open>Type codes\<close>

definition CHAR_TYPE :: u8 where [const_simps]: "CHAR_TYPE = 99"
definition BYTE_TYPE :: u8 where [const_simps]: "BYTE_TYPE = 121"
definition BOOL :: u8 where [const_simps]: "BOOL = 98"
definition INT8 :: u8 where [const_simps]: "INT8 = 112"
definition UINT8 :: u8 where [const_simps]: "UINT8 = 114"
definition INT16 :: u8 where [const_simps]: "INT16 = 110"
definition UINT16 :: u8 where [const_simps]: "UINT16 = 113"
definition INT32 :: u8 where [const_simps]: "INT32 = 105"
definition UINT32 :: u8 where [const_simps]: "UINT32 = 117"
definition INT64 :: u8 where [const_simps]: "INT64 = 120"
definition UINT64 :: u8 where [const_simps]: "UINT64 = 116"
definition FLOAT :: u8 where [const_simps]: "FLOAT = 102"
definition DOUBLE :: u8 where [const_simps]: "DOUBLE = 100"
definition STRING :: u8 where [const_simps]: "STRING = 115"

section \<open>Bit reversal\<close>

text \<open>
  The loop the four \<^verbatim>\<open>bitswap\<close> functions share:
  \<^verbatim>\<open>while (data) { reversed <<= 1; reversed |= data & 1; data >>= 1; count--; }\<close>
\<close>

function bitswap_loop :: "'a::len word \<Rightarrow> 'a word \<Rightarrow> 'a word \<Rightarrow> 'a word \<times> 'a word" where
  "bitswap_loop data reversed count =
     (if data = 0 then (reversed, count)
      else bitswap_loop (drop_bit 1 data) (push_bit 1 reversed OR (data AND 1)) (count - 1))"
  by pat_completeness auto
termination
proof (relation "measure (\<lambda>(d, _, _). unat d)")
  fix d r c :: "'a word"
  assume "d \<noteq> 0"
  then have "0 < unat d" by (simp add: unat_gt_0)
  moreover have "unat (drop_bit 1 d) = unat d div 2"
    using unat_drop_bit_eq [of 1 d] by (simp only: drop_bit_eq_div power_one_right)
  ultimately show "((drop_bit 1 d, push_bit 1 r OR (d AND 1), c - 1), d, r, c)
      \<in> measure (\<lambda>(d, _, _). unat d)"
    by (simp only: in_measure prod.case)
qed simp

declare bitswap_loop.simps [simp del]

text \<open>
  Shifting an \<^verbatim>\<open>unsigned\<close> of at least the width of \<^verbatim>\<open>int\<close> by its width or more
  is undefined; narrower operands are promoted to \<^verbatim>\<open>int\<close> first.
\<close>

definition shl_checked :: "'a::len word \<Rightarrow> nat \<Rightarrow> 'a word res" where
  "shl_checked w n = (if n < LENGTH('a) then Inr (push_bit n w) else Inl Bad_Shift)"

definition bitswap8 :: "u8 \<Rightarrow> u8" where
  "bitswap8 data =
     (let (reversed, count) = bitswap_loop (drop_bit 1 data) data 8
      in push_bit (unat count) reversed)"

definition bitswap16 :: "u16 \<Rightarrow> u16" where
  "bitswap16 data =
     (let (reversed, count) = bitswap_loop (drop_bit 1 data) data 16
      in push_bit (unat count) reversed)"

definition bitswap32 :: "u32 \<Rightarrow> u32 res" where
  "bitswap32 data =
     (let (reversed, count) = bitswap_loop (drop_bit 1 data) data 32
      in shl_checked reversed (unat count))"

definition bitswap64 :: "u64 \<Rightarrow> u64 res" where
  "bitswap64 data =
     (let (reversed, count) = bitswap_loop (drop_bit 1 data) data 64
      in shl_checked reversed (unat count))"

lemma bit_shl1:
  "bit (push_bit 1 (w :: 'a::len word)) n \<longleftrightarrow> 0 < n \<and> n < LENGTH('a) \<and> bit w (n - 1)"
  by (subst bit_push_bit_iff) (auto dest: bit_imp_le_length)

lemma bit_shl1_or:
  "bit (push_bit 1 r OR (d AND 1) :: 'a::len word) n \<longleftrightarrow>
     (if n = 0 then bit d 0 else n < LENGTH('a) \<and> bit r (n - 1))"
  by (subst bit_or_iff, subst bit_shl1) (auto simp: bit_and_iff bit_1_iff)

text \<open>
  What the loop computes, for operands with at most \<open>count\<close> significant bits: the
  reversal of \<open>data\<close> in a field of \<open>count\<close> bits, below the bits of \<open>reversed\<close>.
\<close>

lemma bit_bitswap_loop:
  fixes d r c :: "'a::len word"
  assumes "bitswap_loop d r c = (r', c')"
    and "\<And>n. bit d n \<Longrightarrow> n < unat c"
  shows "bit (push_bit (unat c') r') n \<longleftrightarrow>
    n < LENGTH('a) \<and> (if n < unat c then bit d (unat c - Suc n) else bit r (n - unat c))"
  using assms
proof (induction d r c rule: bitswap_loop.induct)
  case (1 d r c)
  show ?case
  proof (cases "d = 0")
    case True
    with "1.prems" show ?thesis
      by (auto simp: bitswap_loop.simps bit_push_bit_iff)
  next
    case False
    then obtain m where m: "bit d m" by (auto simp: bit_eq_iff)
    then have c0: "0 < unat c" using "1.prems"(2) by fastforce
    then have c1: "unat (c - 1) = unat c - 1"
      by (metis unat_minus_one unat_0 less_irrefl)
    have small: "bit (drop_bit 1 d) n \<Longrightarrow> n < unat (c - 1)" for n
      using "1.prems"(2) [of "Suc n"] c1 by (simp add: bit_drop_bit_eq)
    from False "1.prems"(1) have
      "bitswap_loop (drop_bit 1 d) (push_bit 1 r OR (d AND 1)) (c - 1) = (r', c')"
      by (simp add: bitswap_loop.simps)
    from "1.IH" [OF False this small] have IH:
      "bit (push_bit (unat c') r') n \<longleftrightarrow> n < LENGTH('a) \<and>
         (if n < unat c - 1 then bit (drop_bit 1 d) (unat c - 1 - Suc n)
          else bit (push_bit 1 r OR (d AND 1)) (n - (unat c - 1)))"
      by (simp add: c1)
    consider "n < unat c - 1" | "n = unat c - 1" | "unat c \<le> n" using c0 by linarith
    then show ?thesis
    proof cases
      case 1
      then show ?thesis unfolding IH by (auto simp: bit_drop_bit_eq Suc_diff_Suc)
    next
      case 2
      with c0 show ?thesis unfolding IH bit_shl1_or by auto
    next
      case 3
      then have "n - (unat c - 1) - 1 = n - unat c" and "n - (unat c - 1) \<noteq> 0"
        using c0 by auto
      with 3 c0 show ?thesis unfolding IH bit_shl1_or by auto
    qed
  qed
qed


text \<open>
  All four functions start the loop at \<open>data >> 1\<close> with \<open>count\<close> the full width, so
  the last shift goes one place too far: the result is the reversal of the word,
  shifted left by one, and bit 0 of the operand is always lost.
\<close>

lemma bitswap_loop_result:
  fixes d c :: "'a::len word"
  assumes c: "unat c = LENGTH('a)"
    and res: "bitswap_loop (drop_bit 1 d) d c = (r', c')"
  shows "push_bit (unat c') r' = push_bit 1 (word_reverse d)"
proof (rule bit_word_eqI)
  fix n assume n: "n < LENGTH('a)"
  have "bit (drop_bit 1 d) m \<Longrightarrow> m < unat c" for m
    using c by (auto dest: bit_imp_le_length)
  from bit_bitswap_loop [OF res this, of n] n c
  have "bit (push_bit (unat c') r') n = bit (drop_bit 1 d) (LENGTH('a) - Suc n)"
    by simp
  also have "\<dots> = bit d (LENGTH('a) - n)"
    using n by (simp only: bit_drop_bit_eq comp_def) (simp add: Suc_diff_Suc)
  also have "\<dots> = bit (push_bit 1 (word_reverse d)) n"
    unfolding bit_shl1
    using n by (cases n) (auto simp: bit_word_reverse_iff dest: bit_imp_le_length)
  finally show "bit (push_bit (unat c') r') n = bit (push_bit 1 (word_reverse d)) n" .
qed

text \<open>
  The loop runs once per significant bit of \<open>data >> 1\<close>, so the final shift count is
  the full width exactly when \<open>data >> 1\<close> is zero.
\<close>

lemma bitswap_loop_count_le:
  fixes d c :: "'a::len word"
  assumes "bitswap_loop d r c = (r', c')" and "\<And>n. bit d n \<Longrightarrow> n < unat c"
  shows "unat c' \<le> unat c \<and> (d \<noteq> 0 \<longrightarrow> unat c' < unat c)"
  using assms
proof (induction d r c rule: bitswap_loop.induct)
  case (1 d r c)
  show ?case
  proof (cases "d = 0")
    case True
    with "1.prems" show ?thesis by (simp add: bitswap_loop.simps)
  next
    case False
    then obtain m where "bit d m" by (auto simp: bit_eq_iff)
    then have c0: "0 < unat c" using "1.prems"(2) by fastforce
    then have c1: "unat (c - 1) = unat c - 1"
      by (metis unat_minus_one unat_0 less_irrefl)
    have small: "bit (drop_bit 1 d) n \<Longrightarrow> n < unat (c - 1)" for n
      using "1.prems"(2) [of "Suc n"] c1 by (simp add: bit_drop_bit_eq)
    from False "1.prems"(1) have
      "bitswap_loop (drop_bit 1 d) (push_bit 1 r OR (d AND 1)) (c - 1) = (r', c')"
      by (simp add: bitswap_loop.simps)
    from "1.IH" [OF False this small] c0 c1 show ?thesis by linarith
  qed
qed

lemma bitswap_loop_count_full:
  fixes d c :: "'a::len word"
  assumes c: "unat c = LENGTH('a)"
    and res: "bitswap_loop (drop_bit 1 d) d c = (r', c')"
  shows "unat c' < LENGTH('a) \<longleftrightarrow> drop_bit 1 d \<noteq> 0"
proof -
  have "bit (drop_bit 1 d) m \<Longrightarrow> m < unat c" for m
    using c by (auto dest: bit_imp_le_length)
  from bitswap_loop_count_le [OF res this] c
  have "drop_bit 1 d \<noteq> 0 \<Longrightarrow> unat c' < LENGTH('a)" by simp
  moreover have "drop_bit 1 d = 0 \<Longrightarrow> unat c' = LENGTH('a)"
    using res c by (auto simp: bitswap_loop.simps)
  ultimately show ?thesis by auto
qed

lemma bitswap8_eq: "bitswap8 d = push_bit 1 (word_reverse d)"
proof -
  obtain r' c' where res: "bitswap_loop (drop_bit 1 d) d 8 = (r', c')" by force
  show ?thesis unfolding bitswap8_def res Let_def prod.case
    by (rule bitswap_loop_result [OF _ res]) simp
qed

lemma bitswap16_eq: "bitswap16 d = push_bit 1 (word_reverse d)"
proof -
  obtain r' c' where res: "bitswap_loop (drop_bit 1 d) d 16 = (r', c')" by force
  show ?thesis unfolding bitswap16_def res Let_def prod.case
    by (rule bitswap_loop_result [OF _ res]) simp
qed

lemma drop_bit_1_zero_iff: "drop_bit 1 (d :: 'a::len word) = 0 \<longleftrightarrow> unat d \<le> 1"
proof -
  have "unat (drop_bit 1 d) = unat d div 2"
    using unat_drop_bit_eq [of 1 d] by (simp only: drop_bit_eq_div power_one_right)
  then show ?thesis by (simp only: unat_eq_zero [symmetric]) linarith
qed

lemma shl_bitswap_loop:
  fixes d c :: "'a::len word"
  assumes c: "unat c = LENGTH('a)"
    and res: "bitswap_loop (drop_bit 1 d) d c = (r', c')"
  shows "shl_checked r' (unat c') =
    (if unat d \<le> 1 then Inl Bad_Shift else Inr (push_bit 1 (word_reverse d)))"
  using bitswap_loop_count_full [OF c res]
  unfolding shl_checked_def bitswap_loop_result [OF c res] drop_bit_1_zero_iff by auto

lemma bitswap32_eq:
  "bitswap32 d = (if unat d \<le> 1 then Inl Bad_Shift else Inr (push_bit 1 (word_reverse d)))"
proof -
  obtain r' c' where res: "bitswap_loop (drop_bit 1 d) d 32 = (r', c')" by force
  show ?thesis unfolding bitswap32_def res Let_def prod.case
    by (rule shl_bitswap_loop [OF _ res]) simp
qed

lemma bitswap64_eq:
  "bitswap64 d = (if unat d \<le> 1 then Inl Bad_Shift else Inr (push_bit 1 (word_reverse d)))"
proof -
  obtain r' c' where res: "bitswap_loop (drop_bit 1 d) d 64 = (r', c')" by force
  show ?thesis unfolding bitswap64_def res Let_def prod.case
    by (rule shl_bitswap_loop [OF _ res]) simp
qed

section \<open>Byte order\<close>

text \<open>
  \<^verbatim>\<open>__RMT_BYTE_ORDER__\<close> and \<^verbatim>\<open>__RMT_BIG_ENDIAN__\<close> are both 0, so the preprocessor
  keeps the first branch of \<^verbatim>\<open>host16\<close>, \<^verbatim>\<open>host32\<close> and \<^verbatim>\<open>host64\<close>; the
  \<^verbatim>\<open>network\<close> names are macros for the same functions.
\<close>

definition host16 :: "u16 \<Rightarrow> u16" where [simp]: "host16 data = data"
definition host32 :: "u32 \<Rightarrow> u32" where [simp]: "host32 data = data"
definition host64 :: "u64 \<Rightarrow> u64" where [simp]: "host64 data = data"

definition bswap_constant_16 :: "u16 \<Rightarrow> u16" where
  "bswap_constant_16 x = (drop_bit 8 x AND 0xFF) OR push_bit 8 (x AND 0xFF)"

definition bswap_constant_32 :: "u32 \<Rightarrow> u32" where
  "bswap_constant_32 x =
     drop_bit 24 (x AND 0xFF000000) OR drop_bit 8 (x AND 0x00FF0000) OR
     push_bit 8 (x AND 0x0000FF00) OR push_bit 24 (x AND 0x000000FF)"

definition bswap_constant_64 :: "u64 \<Rightarrow> u64" where
  "bswap_constant_64 x =
     drop_bit 56 (x AND 0xFF00000000000000) OR drop_bit 40 (x AND 0x00FF000000000000) OR
     drop_bit 24 (x AND 0x0000FF0000000000) OR drop_bit 8 (x AND 0x000000FF00000000) OR
     push_bit 8 (x AND 0x00000000FF000000) OR push_bit 24 (x AND 0x0000000000FF0000) OR
     push_bit 40 (x AND 0x000000000000FF00) OR push_bit 56 (x AND 0x00000000000000FF)"

text \<open>The mask constants as shifted byte masks, so that their bits are known for every place.\<close>

lemma byte_masks:
  "(0xFF :: 'a::len word) = mask 8"
  "(0xFF00 :: 'a word) = push_bit 8 (mask 8)"
  "(0xFF0000 :: 'a word) = push_bit 16 (mask 8)"
  "(0xFF000000 :: 'a word) = push_bit 24 (mask 8)"
  "(0xFF00000000 :: 'a word) = push_bit 32 (mask 8)"
  "(0xFF0000000000 :: 'a word) = push_bit 40 (mask 8)"
  "(0xFF000000000000 :: 'a word) = push_bit 48 (mask 8)"
  "(0xFF00000000000000 :: 'a word) = push_bit 56 (mask 8)"
  by (simp_all add: mask_eq_exp_minus_1 push_bit_eq_mult)

lemma bswap_constant_16_bytes: "le_bytes (bswap_constant_16 x) = rev (le_bytes x)"
  by (simp add: le_bytes_def bswap_constant_16_def upt_rec)
     (auto intro!: bit_word_eqI simp: byte_masks bit_simps)

lemma bswap_constant_32_bytes: "le_bytes (bswap_constant_32 x) = rev (le_bytes x)"
  by (simp add: le_bytes_def bswap_constant_32_def upt_rec)
     (auto intro!: bit_word_eqI simp: byte_masks bit_simps)

lemma bswap_constant_64_bytes: "le_bytes (bswap_constant_64 x) = rev (le_bytes x)"
  by (simp add: le_bytes_def bswap_constant_64_def upt_rec)
     (auto intro!: bit_word_eqI simp: byte_masks bit_simps)

section \<open>Byte loops over memory\<close>

text \<open>
  \<^verbatim>\<open>while (len--) *d++ = *s++;\<close> -- the loop of \<^verbatim>\<open>memcpy_rmt\<close>, which
  \<^verbatim>\<open>serialize_data\<close> and \<^verbatim>\<open>get_data\<close> repeat for the bytes their fast path
  leaves.  Source and destination are different objects.
\<close>

fun copy_bytes :: "nat \<Rightarrow> bytes \<Rightarrow> nat \<Rightarrow> bytes \<Rightarrow> nat \<Rightarrow> bytes res" where
  "copy_bytes 0 dst d src s = Inr dst"
| "copy_bytes (Suc len) dst d src s =
     bindR (load src s 1) (\<lambda>b. bindR (store dst d b) (\<lambda>dst'.
       copy_bytes len dst' (d + 1) src (s + 1)))"

definition memcpy_rmt :: "bytes \<Rightarrow> bytes \<Rightarrow> nat \<Rightarrow> bytes res" where
  "memcpy_rmt destination src len = copy_bytes len destination 0 src 0"

lemma copy_bytes_Inr:
  assumes "d + n \<le> length dst" and "s + n \<le> length src"
  shows "copy_bytes n dst d src s = Inr (take d dst @ take n (drop s src) @ drop (d + n) dst)"
  using assms
proof (induction n arbitrary: dst d s)
  case 0
  then show ?case by simp
next
  case (Suc n)
  then have s: "s < length src" and d: "d < length dst" by simp_all
  let ?D = "take d dst @ [src ! s] @ drop (Suc d) dst"
  have one: "load src s (Suc 0) = Inr [src ! s]"
    using s by (simp add: load_def Cons_nth_drop_Suc [symmetric])
  have st: "store dst d [src ! s] = Inr ?D"
    using d by (simp add: store_def)
  have "copy_bytes n ?D (Suc d) src (Suc s) =
      Inr (take (Suc d) ?D @ take n (drop (Suc s) src) @ drop (Suc d + n) ?D)"
    by (rule Suc.IH) (use Suc.prems d in auto)
  moreover have "drop (Suc d + n) ?D = drop (Suc d + n) dst"
    using d by (simp add: add.commute)
  moreover have "take (Suc n) (drop s src) = src ! s # take n (drop (Suc s) src)"
    using s by (simp add: Cons_nth_drop_Suc [symmetric])
  ultimately show ?case using d by (simp add: one st)
qed

lemma copy_bytes_Inl:
  assumes "\<not> (d + n \<le> length dst \<and> s + n \<le> length src)" and "0 < n"
  shows "copy_bytes n dst d src s = Inl Out_Of_Bounds"
  using assms
proof (induction n arbitrary: dst d s)
  case 0
  then show ?case by simp
next
  case (Suc n)
  show ?case
  proof (cases "d < length dst \<and> s < length src")
    case False
    then show ?thesis by (auto simp: load_def store_def bindR_def)
  next
    case True
    then have "n \<noteq> 0" using Suc.prems by auto
    with True Suc.prems Suc.IH show ?thesis by (auto simp: load_def store_def)
  qed
qed

lemma copy_bytes_eq:
  "copy_bytes n dst d src s =
     (if n = 0 then Inr dst
      else if d + n \<le> length dst \<and> s + n \<le> length src
      then Inr (take d dst @ take n (drop s src) @ drop (d + n) dst)
      else Inl Out_Of_Bounds)"
proof (cases "n = 0")
  case False
  then show ?thesis using copy_bytes_Inr [of d n dst s src] copy_bytes_Inl [of d n dst s src]
    by auto
qed simp

text \<open>
  \<^verbatim>\<open>reverse_bytes\<close>: the loop variables are \<^verbatim>\<open>int\<close>, so \<^verbatim>\<open>len\<close> is truncated to
  32 bits, and \<^verbatim>\<open>end\<close> starts at \<^verbatim>\<open>len\<close>, one past the last byte.
\<close>

function reverse_loop :: "bytes \<Rightarrow> nat \<Rightarrow> nat \<Rightarrow> bytes res" where
  "reverse_loop data start endp =
     (if start < endp then
        bindR (load data start 1) (\<lambda>temp.
        bindR (load data endp 1) (\<lambda>e.
        bindR (store data start e) (\<lambda>data1.
        bindR (store data1 endp temp) (\<lambda>data2.
          reverse_loop data2 (start + 1) (endp - 1)))))
      else Inr data)"
  by pat_completeness auto
termination by (relation "measure (\<lambda>(_, s, e). e - s)") auto

declare reverse_loop.simps [simp del]

definition reverse_bytes :: "bytes \<Rightarrow> u64 \<Rightarrow> bytes res" where
  "reverse_bytes data len =
     (let endp = sint (ucast len :: u32)
      in if 0 < endp then reverse_loop data 0 (nat endp) else Inr data)"

lemma reverse_loop_mid:
  assumes "length xs = s" and "s + length mid = Suc e" and "mid \<noteq> []"
  shows "reverse_loop (xs @ mid @ ys) s e = Inr (xs @ rev mid @ ys)"
  using assms
proof (induction "length mid" arbitrary: mid xs ys s e rule: less_induct)
  case less
  show ?case
  proof (cases "s < e")
    case False
    with less.prems have "length mid = 1" by (cases mid) auto
    then obtain a where "mid = [a]" by (cases mid) auto
    with False show ?thesis by (simp add: reverse_loop.simps)
  next
    case True
    then obtain a m b where mid: "mid = a # m @ [b]"
      using less.prems by (cases mid; cases "tl mid" rule: rev_cases) auto
    have e: "length (xs @ a # m) = e" using less.prems mid by simp
    have ld: "load (xs @ mid @ ys) s 1 = Inr [a]" "load (xs @ mid @ ys) e 1 = Inr [b]"
      using load_mid [of xs s "[a]" 1 "m @ [b] @ ys"] load_mid [of "xs @ a # m" e "[b]" 1 ys]
        less.prems e by (simp_all add: mid)
    have st: "store (xs @ mid @ ys) s [b] = Inr (xs @ b # m @ [b] @ ys)"
        "store (xs @ b # m @ [b] @ ys) e [a] = Inr (xs @ b # m @ [a] @ ys)"
      using store_mid [of xs s "[a]" "[b]" "m @ [b] @ ys"] less.prems
        store_mid [of "xs @ b # m" e "[b]" "[a]" ys] e by (simp_all add: mid)
    have "reverse_loop (xs @ mid @ ys) s e = reverse_loop (xs @ b # m @ [a] @ ys) (s + 1) (e - 1)"
      using True by (subst reverse_loop.simps) (simp only: if_True ld st bindR_Inr)
    also have "\<dots> = Inr (xs @ b # rev m @ [a] @ ys)"
    proof (cases "m = []")
      case True
      then have "\<not> s + 1 < e - 1" using less.prems mid by simp
      then show ?thesis using True by (subst reverse_loop.simps) simp
    next
      case False
      then show ?thesis
        using less.hyps [of m "xs @ [b]" "s + 1" "e - 1" "[a] @ ys"] less.prems mid by simp
    qed
    finally show ?thesis by (simp add: mid)
  qed
qed

lemma reverse_bytes_eq:
  assumes len: "unat len < 2 ^ 31"
  shows "reverse_bytes data len =
    (if len = 0 then Inr data
     else if unat len < length data
     then Inr (rev (take (Suc (unat len)) data) @ drop (Suc (unat len)) data)
     else Inl Out_Of_Bounds)"
proof -
  let ?n = "unat len"
  have small: "uint len < 2 ^ 31"
    using len [folded of_nat_less_iff [where 'a = int]] by simp
  then have u: "uint (ucast len :: u32) = uint len"
    by (simp add: unsigned_ucast_eq take_bit_int_eq_self)
  have se: "sint (ucast len :: u32) = int ?n"
    unfolding sint_uint u using small
    by (simp add: signed_take_bit_int_eq_self order_trans [OF _ uint_ge_0])
  have run: "reverse_bytes data len = (if 0 < ?n then reverse_loop data 0 ?n else Inr data)"
    by (simp only: reverse_bytes_def se Let_def nat_int of_nat_0_less_iff)
  show ?thesis
  proof (cases "?n = 0")
    case True
    with run show ?thesis by (simp add: unat_eq_zero)
  next
    case False
    have "reverse_loop data 0 ?n = Inl Out_Of_Bounds" if "\<not> ?n < length data"
      using that False by (cases "data = []") (simp_all add: reverse_loop.simps load_def)
    moreover have "reverse_loop data 0 ?n =
        Inr (rev (take (Suc ?n) data) @ drop (Suc ?n) data)" if "?n < length data"
      using that reverse_loop_mid [of "[]" 0 "take (Suc ?n) data" ?n "drop (Suc ?n) data"]
      by (cases data) auto
    ultimately show ?thesis using False by (auto simp: run)
  qed
qed

section \<open>The smallest width that holds an integer\<close>

text \<open>
  \<^verbatim>\<open>(1L << 63) >> 55\<close> and its kin are signed shifts; as compiled on the target
  they are the sign-extended constants below.  A comparison or a bitwise operation
  with one of them is done at the width of the promoted operands.
\<close>

definition smallest_64_size :: "u64 \<Rightarrow> nat" where
  "smallest_64_size data =
     (if data = data AND (0xFF OR drop_bit 62 data) \<and>
         data = data OR signed_drop_bit 55 (push_bit 63 1) then 8
      else if data = data AND (0xFFFF OR drop_bit 62 data) \<and>
         data = data OR signed_drop_bit 47 (push_bit 63 1) then 16
      else if data = data AND (0xFFFFFFFF OR drop_bit 62 data) \<and>
         data = data OR signed_drop_bit 31 (push_bit 63 1) then 32
      else 64)"

definition smallest_32_size :: "u32 \<Rightarrow> nat" where
  "smallest_32_size data =
     (if data = data AND 0xFF then 8 else if data = data AND 0xFFFF then 16 else 32)"

definition smallest_16_size :: "u16 \<Rightarrow> nat" where
  "smallest_16_size data = (if data = data AND 0xFF then 8 else 16)"

definition signed_smallest_64_size :: "u64 \<Rightarrow> nat" where
  "signed_smallest_64_size data =
     (if data = data OR signed_drop_bit 55 (push_bit 63 1) then 8
      else if data = data OR signed_drop_bit 47 (push_bit 63 1) then 16
      else if data = data OR signed_drop_bit 31 (push_bit 63 1) then 32
      else 64)"

definition signed_smallest_32_size :: "u32 \<Rightarrow> nat" where
  "signed_smallest_32_size data =
     (if data = data OR signed_drop_bit 23 (push_bit 31 1) then 8
      else if (scast data :: u64) = scast data OR signed_drop_bit 15 (push_bit 31 1) then 16
      else 32)"

definition signed_smallest_16_size :: "u16 \<Rightarrow> nat" where
  "signed_smallest_16_size data =
     (let x = (scast data :: u32)
      in if x = x OR signed_drop_bit 23 (push_bit 31 1 AND x) then 8
         else if x = x OR signed_drop_bit 15 (push_bit 31 1 AND x) then 16
         else 32)"

text \<open>
  \<^verbatim>\<open>optimize_int\<close>: \<^verbatim>\<open>data\<close> points to the integer; \<^verbatim>\<open>*num_bytes\<close> is overwritten
  with the size found, and the result says whether it changed.  The INT64 case reads
  an \<^verbatim>\<open>int16_t\<close>.
\<close>

definition optimize_int :: "u8 \<Rightarrow> bytes \<Rightarrow> u8 \<Rightarrow> (nat \<times> u8) res" where
  "optimize_int type_code data num_bytes =
     bindR
       (if type_code = INT16 then
          bindR (load_word data 0) (\<lambda>w. Inr (of_nat (signed_smallest_16_size w)))
        else if type_code = UINT16 then
          bindR (load_word data 0) (\<lambda>w. Inr (of_nat (smallest_16_size w)))
        else if type_code = INT32 then
          bindR (load_word data 0) (\<lambda>w. Inr (of_nat (signed_smallest_32_size w)))
        else if type_code = UINT32 then
          bindR (load_word data 0) (\<lambda>w. Inr (of_nat (smallest_32_size w)))
        else if type_code = INT64 then
          bindR (load_word data 0) (\<lambda>w :: u16. Inr (of_nat (signed_smallest_64_size (scast w))))
        else if type_code = UINT64 then
          bindR (load_word data 0) (\<lambda>w. Inr (of_nat (smallest_64_size w)))
        else Inr num_bytes)
       (\<lambda>num_bytes'. Inr (if num_bytes' = num_bytes then 1 else 0, num_bytes'))"

lemma word_eq_and_mask_iff: "w = w AND mask n \<longleftrightarrow> (\<forall>i. bit (w :: 'a::len word) i \<longrightarrow> i < n)"
  by (auto simp: bit_eq_iff bit_simps dest: bit_imp_le_length)

lemma unat_less_exp_iff_bits:
  "unat (w :: 'a::len word) < 2 ^ n \<longleftrightarrow> (\<forall>i. bit w i \<longrightarrow> i < n)"
proof -
  have "unat w < 2 ^ n \<longleftrightarrow> take_bit n (unat w) = unat w"
    by (simp add: take_bit_nat_eq_self_iff)
  also have "\<dots> \<longleftrightarrow> take_bit n w = w"
    by (metis unsigned_take_bit_eq unsigned_word_eqI)
  also have "\<dots> \<longleftrightarrow> (\<forall>i. bit w i \<longrightarrow> i < n)"
    by (auto simp: bit_eq_iff bit_simps dest: bit_imp_le_length)
  finally show ?thesis .
qed

lemma fits_mask_iff: "w = w AND mask n \<longleftrightarrow> unat (w :: 'a::len word) < 2 ^ n"
  by (simp only: word_eq_and_mask_iff unat_less_exp_iff_bits)

lemma smallest_16_size_eq: "smallest_16_size w = (if unat w < 2 ^ 8 then 8 else 16)"
  using fits_mask_iff [of w 8] by (simp add: smallest_16_size_def mask_eq_exp_minus_1)

lemma smallest_32_size_eq:
  "smallest_32_size w = (if unat w < 2 ^ 8 then 8 else if unat w < 2 ^ 16 then 16 else 32)"
  using fits_mask_iff [of w 8] fits_mask_iff [of w 16]
  by (simp add: smallest_32_size_def mask_eq_exp_minus_1)

text \<open>The sign constants: all ones above bit \<open>n\<close>.\<close>

lemma sign_constants:
  "signed_drop_bit 55 (push_bit 63 1 :: u64) = push_bit 8 (mask 56)"
  "signed_drop_bit 47 (push_bit 63 1 :: u64) = push_bit 16 (mask 48)"
  "signed_drop_bit 31 (push_bit 63 1 :: u64) = push_bit 32 (mask 32)"
  "signed_drop_bit 23 (push_bit 31 1 :: u32) = push_bit 8 (mask 24)"
  by (simp_all add: mask_eq_exp_minus_1)

lemma high_ones_iff:
  fixes w :: "'a::len word"
  assumes n: "n < LENGTH('a)"
  shows "w = w OR push_bit n (mask (LENGTH('a) - n)) \<longleftrightarrow> - (2 ^ n) \<le> sint w \<and> sint w < 0"
proof -
  let ?m = "LENGTH('a) - 1"
  have bits: "bit (sint w) i = bit w (min i ?m)" for i
    by (auto simp: bit_sint_iff min_def dest: bit_imp_le_length)
  have neg: "sint w < 0 \<longleftrightarrow> bit w ?m"
    by (simp add: bit_last_iff)
  have "- (2 ^ n) \<le> sint w \<and> sint w < 0 \<longleftrightarrow>
      signed_take_bit n (sint w) = sint w \<and> sint w < 0"
    unfolding signed_take_bit_int_eq_self_iff
    using zero_le_power [of "2 :: int" n] by linarith
  also have "\<dots> \<longleftrightarrow> (\<forall>i. bit w (min (min i n) ?m) = bit w (min i ?m)) \<and> bit w ?m"
    unfolding neg bit_eq_iff bit_signed_take_bit_iff bits by (simp add: min.commute)
  also have "\<dots> \<longleftrightarrow> (\<forall>i. n \<le> i \<and> i < LENGTH('a) \<longrightarrow> bit w i)" (is "?L \<longleftrightarrow> ?R")
  proof
    assume L: ?L
    then have "bit w (min (min ?m n) ?m) = bit w (min ?m ?m)" and m: "bit w ?m" by blast+
    then have "bit w n" using n by (cases "n = ?m") (auto simp: min_def split: if_splits)
    show ?R
    proof (intro allI impI)
      fix i assume i: "n \<le> i \<and> i < LENGTH('a)"
      have "bit w (min (min i n) ?m) = bit w (min i ?m)" using L by blast
      then show "bit w i" using i n \<open>bit w n\<close> by (simp add: min_def split: if_splits)
    qed
  next
    assume R: ?R
    then show ?L using n by (auto simp: min_def)
  qed
  also have "\<dots> \<longleftrightarrow> w = w OR push_bit n (mask (LENGTH('a) - n))"
    using n by (auto simp: bit_eq_iff bit_simps dest: bit_imp_le_length)
  finally show ?thesis by blast
qed

text \<open>
  The unsigned 64-bit test asks for a value with no bit above the low byte (or half,
  or word) that at the same time has all of them: no value passes.
\<close>

lemma smallest_64_size_eq: "smallest_64_size w = 64"
proof -
  have "False" if low: "w = w AND (mask n OR drop_bit 62 w)" and high: "w = w OR push_bit n (mask (64 - n))"
    and n: "n < 63" for n
  proof -
    have "63 - n < 64 - n" using n by linarith
    then have "bit w 63" by (subst high, subst bit_or_iff) (use n in \<open>auto simp: bit_simps\<close>)
    moreover have "\<not> bit w 63"
      by (subst low) (use n in \<open>auto simp: bit_simps dest: bit_imp_le_length\<close>)
    ultimately show False by simp
  qed
  from this [of 8] this [of 16] this [of 32] show ?thesis
    unfolding smallest_64_size_def sign_constants by (auto simp: mask_eq_exp_minus_1)
qed

lemma signed_smallest_64_size_eq:
  "signed_smallest_64_size w =
    (if 0 \<le> sint w then 64
     else if - (2 ^ 8) \<le> sint w then 8
     else if - (2 ^ 16) \<le> sint w then 16
     else if - (2 ^ 32) \<le> sint w then 32 else 64)"
  using high_ones_iff [of 8 w] high_ones_iff [of 16 w] high_ones_iff [of 32 w]
  unfolding signed_smallest_64_size_def sign_constants by auto

lemma or_single_bit_iff:
  "n < LENGTH('a) \<Longrightarrow> x = x OR push_bit n 1 \<longleftrightarrow> bit (x :: 'a::len word) n"
proof
  assume n: "n < LENGTH('a)" and "x = x OR push_bit n 1"
  then have "bit x n \<longleftrightarrow> bit (x OR push_bit n 1) n" by simp
  then show "bit x n" using n by (simp add: bit_or_iff bit_exp_iff)
next
  assume "bit x n"
  then show "x = x OR push_bit n 1"
    by (intro bit_word_eqI) (auto simp: bit_or_iff bit_exp_iff)
qed

lemma signed_smallest_32_size_eq:
  "signed_smallest_32_size w =
    (if - (2 ^ 8) \<le> sint w \<and> sint w < 0 then 8 else if bit w 16 then 16 else 32)"
proof -
  have "signed_drop_bit 15 (push_bit 31 1 :: u64) = push_bit 16 1" by simp
  moreover have "(scast w :: u64) = scast w OR push_bit 16 1 \<longleftrightarrow> bit w 16"
    by (subst or_single_bit_iff) (simp_all add: bit_signed_iff min_def)
  ultimately show ?thesis
    using high_ones_iff [of 8 w] unfolding signed_smallest_32_size_def sign_constants by auto
qed

section \<open>Properties\<close>

text \<open>
  \<^verbatim>\<open>reverse_bytes(data, len)\<close> works on one byte more than it is told to: it reverses the
  first \<open>len + 1\<close> bytes of a longer object, and on an object of exactly \<open>len\<close> bytes it reads
  and writes past its end.  Only a length of zero is harmless.
\<close>

theorem reverse_bytes_one_too_far:
  assumes "unat len < 2 ^ 31"
  shows "reverse_bytes data len =
    (if len = 0 then Inr data
     else if unat len < length data
     then Inr (rev (take (Suc (unat len)) data) @ drop (Suc (unat len)) data)
     else Inl Out_Of_Bounds)"
  by (rule reverse_bytes_eq [OF assms])

lemma reverse_bytes_one_too_far_witness:
  "reverse_bytes [1, 2, 3, 4] 3 = Inr [4, 3, 2, 1] \<and> reverse_bytes [1, 2, 3] 3 = Inl Out_Of_Bounds"
  using reverse_bytes_one_too_far [of 3 "[1, 2, 3, 4]"] reverse_bytes_one_too_far [of 3 "[1, 2, 3]"]
  by simp

text \<open>
  What the bit reversals compute.  Each of the four gives the mirror image of its operand
  shifted left by one more place, so bit 0 of the operand is lost; the 32- and 64-bit ones
  shift by the full width, which is undefined, for the operands 0 and 1.
\<close>

theorem bitswap_result:
  "bitswap8 a = push_bit 1 (word_reverse a) \<and>
   bitswap16 b = push_bit 1 (word_reverse b) \<and>
   bitswap32 c = (if unat c \<le> 1 then Inl Bad_Shift else Inr (push_bit 1 (word_reverse c))) \<and>
   bitswap64 d = (if unat d \<le> 1 then Inl Bad_Shift else Inr (push_bit 1 (word_reverse d)))"
  by (simp only: bitswap8_eq bitswap16_eq bitswap32_eq bitswap64_eq simp_thms)

text \<open>
  The smallest width for an integer.  The unsigned 16- and 32-bit searches find it; the
  unsigned 64-bit one always answers 64, its two tests excluding each other; the signed
  64-bit one answers 64 for every value that is not negative, however small, and otherwise
  the least of 8, 16, 32 and 64 with the value not below minus two to that power.
\<close>

theorem smallest_size_result:
  "smallest_16_size a = (if unat a < 2 ^ 8 then 8 else 16) \<and>
   smallest_32_size b = (if unat b < 2 ^ 8 then 8 else if unat b < 2 ^ 16 then 16 else 32) \<and>
   smallest_64_size c = 64 \<and>
   signed_smallest_64_size d =
     (if 0 \<le> sint d then 64
      else if - (2 ^ 8) \<le> sint d then 8
      else if - (2 ^ 16) \<le> sint d then 16
      else if - (2 ^ 32) \<le> sint d then 32 else 64)"
  by (simp only: smallest_16_size_eq smallest_32_size_eq smallest_64_size_eq
      signed_smallest_64_size_eq simp_thms)

section \<open>The macro \<^verbatim>\<open>bitswap\<close>\<close>

text \<open>
  Which of the four functions the macro calls for a value of \<^verbatim>\<open>sizeof\<close> so many bytes, by the
  function's width; \<open>None\<close> is no call.
\<close>

definition bitswap_macro :: "nat \<Rightarrow> nat option" where
  "bitswap_macro size_of =
     (if size_of = 8 then Some 8
      else if size_of = 16 then Some 16
      else if size_of = 32 then Some 16
      else if size_of = 64 then Some 64
      else None)"

text \<open>For the integers of the program: nothing for 8, 16 and 32 bits, and 64 bits as if they were 8.\<close>

lemma bitswap_macro_integers:
  "map (\<lambda>bits. bitswap_macro (bits div 8)) [8, 16, 32, 64] = [None, None, None, Some 8]"
  by (simp add: bitswap_macro_def)

end
