(* ===== verification/Data_Message.thy ===== *)
theory Data_Message
  imports Data_Util
begin

text \<open>
  Model of \<^verbatim>\<open>src/messages/data_messages.c\<close> and its headers \<^verbatim>\<open>data_message.h\<close> and
  \<^verbatim>\<open>data_message_keys.h\<close>: a data packet is a 13-byte header followed by
  elements \<^verbatim>\<open>[size][type][payload][0]\<close>.  \<open>serialize_data\<close> appends an element,
  \<open>get_data\<close> reads one back, \<open>to_wire\<close> writes the header.  \<^verbatim>\<open>NO_NET_BYTE\<close> is
  defined, so integers are stored as they lie in memory.  The array \<^verbatim>\<open>data\<close> and the
  object a caller passes are separate objects; an access outside either is a
  fault.  \<^verbatim>\<open>network16\<close> and its kin are macros for \<^verbatim>\<open>host16\<close>.  The printing functions
  are in \<open>Message_Print\<close>.
\<close>

section \<open>Keys\<close>

definition MESSAGE_SIZE :: nat where [const_simps]: "MESSAGE_SIZE = 256"
definition PROTPOS :: nat where [const_simps]: "PROTPOS = 0"
definition OPPOS :: nat where [const_simps]: "OPPOS = PROTPOS + 1"
definition FUNCPOS :: nat where [const_simps]: "FUNCPOS = OPPOS + 1"
definition MAGPOS :: nat where [const_simps]: "MAGPOS = FUNCPOS + 2"
definition BYTEPOS :: nat where [const_simps]: "BYTEPOS = MAGPOS + 2"
definition FLDPOS :: nat where [const_simps]: "FLDPOS = BYTEPOS + 4"
definition NULLTERMPOS :: nat where [const_simps]: "NULLTERMPOS = FLDPOS + 2"
definition DTPOS :: nat where [const_simps]: "DTPOS = NULLTERMPOS + 1"
definition DATA_HEADER_SIZE :: nat where [const_simps]: "DATA_HEADER_SIZE = DTPOS"
definition MAX_FIELDS :: nat where [const_simps]: "MAX_FIELDS = 32"
definition DATA_PROTOCOL_VERSION :: u8 where [const_simps]: "DATA_PROTOCOL_VERSION = 1"
definition DATA_PACKET :: u8 where [const_simps]: "DATA_PACKET = 1"
definition MAX_MESSAGE_TYPE :: u8 where [const_simps]: "MAX_MESSAGE_TYPE = 2"

lemma data_positions:
  "MESSAGE_SIZE = 256" "PROTPOS = 0" "OPPOS = 1" "FUNCPOS = 2" "MAGPOS = 4" "BYTEPOS = 6"
  "FLDPOS = 10" "DTPOS = 13" "DATA_HEADER_SIZE = 13" "MAX_FIELDS = 32"
  by (simp_all add: const_simps)

section \<open>The buffer\<close>

record data_buffer =
  db_protocol_version :: u8
  db_opcode :: u8
  db_functional_flags :: u16
  db_checksum :: u16
  db_byte_length :: u32
  db_fields :: u16
  db_data :: bytes
  db_serialize_flags :: u64

definition zero_data_buffer :: data_buffer where
  "zero_data_buffer =
     \<lparr>db_protocol_version = 0, db_opcode = 0, db_functional_flags = 0, db_checksum = 0,
      db_byte_length = 0, db_fields = 0, db_data = replicate MESSAGE_SIZE 0,
      db_serialize_flags = 0\<rparr>"

text \<open>\<^verbatim>\<open>to_wire\<close>: \<open>None\<close> is the null pointer; the first component is the value returned.\<close>

definition to_wire :: "data_buffer option \<Rightarrow> (int \<times> data_buffer option) res" where
  "to_wire buffer =
     (case buffer of
        None \<Rightarrow> Inr (1, None)
      | Some b \<Rightarrow>
          bindR (store_word (db_data b) PROTPOS (db_protocol_version b)) (\<lambda>d.
          bindR (store_word d OPPOS (db_opcode b)) (\<lambda>d.
          bindR (store_word d FUNCPOS (host16 (db_functional_flags b))) (\<lambda>d.
          bindR (store_word d MAGPOS (host16 (db_checksum b))) (\<lambda>d.
          bindR (store_word d BYTEPOS (host32 (db_byte_length b))) (\<lambda>d.
          bindR (store_word d FLDPOS (host16 (db_fields b))) (\<lambda>d.
            Inr (0, Some (b\<lparr>db_data := d\<rparr>)))))))))"

text \<open>\<^verbatim>\<open>create_buffer\<close> exits the process on a null pointer.\<close>

definition create_buffer :: "data_buffer option \<Rightarrow> data_buffer res" where
  "create_buffer buff =
     (case buff of
        None \<Rightarrow> Inl Terminated
      | Some _ \<Rightarrow>
          bindR (to_wire (Some (zero_data_buffer\<lparr>db_protocol_version := DATA_PROTOCOL_VERSION,
              db_opcode := DATA_PACKET, db_byte_length := of_nat DATA_HEADER_SIZE\<rparr>)))
            (\<lambda>(_, b). case b of Some b' \<Rightarrow> Inr b' | None \<Rightarrow> Inl Null_Deref))"

section \<open>Header fields of a message\<close>

definition get_protocol_version :: "bytes \<Rightarrow> u8 res" where
  "get_protocol_version val = load_word val 0"

definition get_opcode_impl :: "bytes \<Rightarrow> u8 \<Rightarrow> u8 res" where
  "get_opcode_impl buffer protocol_version =
     (if protocol_version = 1 then
        bindR (load_word buffer OPPOS) (\<lambda>ret. Inr (if ret \<le> MAX_MESSAGE_TYPE then 0 else ret))
      else Inr 0)"

definition get_checksum_impl :: "bytes \<Rightarrow> u8 \<Rightarrow> u16 res" where
  "get_checksum_impl buffer protocol_version =
     (if protocol_version = 1 then load_word buffer MAGPOS else Inr 0)"

definition get_byte_length_impl :: "bytes \<Rightarrow> u8 \<Rightarrow> u32 res" where
  "get_byte_length_impl buffer protocol_version =
     (if protocol_version = 1 then
        bindR (load_word buffer BYTEPOS)
          (\<lambda>ret. Inr (if ret \<le> of_nat MESSAGE_SIZE then ret else 0))
      else Inr 0)"

definition get_number_fields_impl :: "bytes \<Rightarrow> u8 \<Rightarrow> u16 res" where
  "get_number_fields_impl buffer protocol_version =
     (if protocol_version = 1 then load_word buffer FLDPOS else Inr 0)"

text \<open>The macros of \<^verbatim>\<open>data_message.h\<close> read the protocol version first.\<close>

definition get_header :: "(bytes \<Rightarrow> u8 \<Rightarrow> 'a res) \<Rightarrow> bytes \<Rightarrow> 'a res" where
  "get_header impl val = bindR (get_protocol_version val) (impl val)"

lemmas get_header_impls = get_header_def get_opcode_impl_def get_checksum_impl_def
  get_byte_length_impl_def get_number_fields_impl_def

section \<open>Copying a payload\<close>

definition four_byte_type :: "u8 \<Rightarrow> bool" where
  "four_byte_type t \<longleftrightarrow> t = INT32 \<or> t = UINT32 \<or> t = FLOAT"

definition one_byte_type :: "u8 \<Rightarrow> bool" where
  "one_byte_type t \<longleftrightarrow> t = CHAR_TYPE \<or> t = UINT8 \<or> t = INT8 \<or> t = BYTE_TYPE"

definition two_byte_type :: "u8 \<Rightarrow> bool" where
  "two_byte_type t \<longleftrightarrow> t = INT16 \<or> t = BOOL"

text \<open>
  The default branch of both functions.  The loop moves eight bytes for every four
  it counts; it runs only when the low halves of the first long of the source and of
  the destination have no bit of \<^verbatim>\<open>0xFFFFFFFC\<close>.
\<close>

function copy_longs :: "nat \<Rightarrow> bytes \<Rightarrow> nat \<Rightarrow> bytes \<Rightarrow> nat \<Rightarrow> (nat \<times> bytes \<times> nat \<times> nat) res" where
  "copy_longs n dst d src s =
     (if 4 \<le> n then
        bindR (load src s 8) (\<lambda>v. bindR (store dst d v) (\<lambda>dst'.
          copy_longs (n - 4) dst' (d + 8) src (s + 8)))
      else Inr (n, dst, d, s))"
  by pat_completeness auto
termination by (relation "measure fst") auto

declare copy_longs.simps [simp del]

definition copy_default :: "nat \<Rightarrow> bytes \<Rightarrow> nat \<Rightarrow> bytes \<Rightarrow> nat \<Rightarrow> (bytes \<times> nat) res" where
  "copy_default n dst d src s =
     bindR (load_word src s) (\<lambda>sourcel :: u64.
     bindR (if sourcel AND 0xFFFFFFFC = 0
            then bindR (load_word dst d) (\<lambda>destl :: u64. Inr (destl AND 0xFFFFFFFC = 0))
            else Inr False) (\<lambda>fast.
     bindR (if fast then copy_longs n dst d src s else Inr (n, dst, d, s)) (\<lambda>(n', dst', d', s').
     bindR (copy_bytes n' dst' d' src s') (\<lambda>dst''. Inr (dst'', d' + n')))))"

text \<open>
  One payload, by type code: the destination, and the position after what was written.
  \<open>n\<close> is used by the default branch only.
\<close>

definition copy_payload :: "u8 \<Rightarrow> nat \<Rightarrow> bytes \<Rightarrow> nat \<Rightarrow> bytes \<Rightarrow> nat \<Rightarrow> (bytes \<times> nat) res" where
  "copy_payload type_code n dst d src s =
     (if four_byte_type type_code then
        bindR (load_word src s) (\<lambda>w :: u32.
        bindR (store_word dst d w) (\<lambda>dst'. Inr (dst', d + 4)))
      else if one_byte_type type_code then
        bindR (load_word src s) (\<lambda>w :: u8.
        bindR (store_word dst d w) (\<lambda>dst'. Inr (dst', d + 1)))
      else if two_byte_type type_code then
        bindR (load_word src s) (\<lambda>w :: u16.
        bindR (store_word dst d w) (\<lambda>dst'. Inr (dst', d + 2)))
      else copy_default n dst d src s)"

section \<open>Appending and reading an element\<close>

definition serialize_data :: "data_buffer \<Rightarrow> bytes option \<Rightarrow> u8 \<Rightarrow> u8 \<Rightarrow> (int \<times> data_buffer) res" where
  "serialize_data buffer data num_bytes type_code =
     (case data of
        None \<Rightarrow> Inr (0, buffer)
      | Some src \<Rightarrow>
          if 3 + ucast num_bytes + db_byte_length buffer < (256 :: u32) then
            let head = unat (db_byte_length buffer) in
            bindR (store_word (db_data buffer) head num_bytes) (\<lambda>d.
            bindR (store_word d (head + 1) type_code) (\<lambda>d.
            bindR (copy_payload type_code (unat num_bytes) d (head + 2) src 0) (\<lambda>(d, head').
            bindR (store_word d head' (0 :: u8)) (\<lambda>d.
              Inr (0, buffer\<lparr>db_data := d,
                db_byte_length := db_byte_length buffer + (3 + ucast num_bytes),
                db_fields := db_fields buffer + 1\<rparr>)))))
          else Inr (0, buffer))"

record element =
  el_size :: u8
  el_type_code :: u8
  el_data :: "nat option"

definition zero_element :: element where
  "zero_element = \<lparr>el_size = 0, el_type_code = 0, el_data = None\<rparr>"

text \<open>
  The loop that jumps over elements: \<open>i\<close> is the offset from the first one, \<open>n\<close> the number
  still to skip; \<open>Inl\<close> is the early return on a bad terminator.
\<close>

fun skip_elements :: "bytes \<Rightarrow> nat \<Rightarrow> nat \<Rightarrow> (errno + nat) res" where
  "skip_elements data i 0 = Inr (Inr i)"
| "skip_elements data i (Suc n) =
     bindR (load_word data (DTPOS + i)) (\<lambda>size :: u8.
     bindR (load_word data (DTPOS + i + 2 + unat size)) (\<lambda>terminator :: u8.
       if terminator \<noteq> 0 then Inr (Inl EBADMSG)
       else skip_elements data (i + 2 + unat size + 1) n))"

definition get_data :: "bytes option \<Rightarrow> bytes option \<Rightarrow> nat \<Rightarrow> (errno \<times> element \<times> bytes option) res" where
  "get_data data destination index =
     (case (data, destination) of
        (None, _) \<Rightarrow> Inr (EINVAL, zero_element, destination)
      | (Some _, None) \<Rightarrow> Inr (EINVAL, zero_element, destination)
      | (Some msg, Some dst) \<Rightarrow>
          bindR (load_word msg FLDPOS) (\<lambda>w.
          let fields = unat (host16 w) in
          if MAX_FIELDS \<le> fields \<or> fields \<le> index then Inr (ERANGE, zero_element, destination)
          else bindR (skip_elements msg 0 index) (\<lambda>r.
            case r of
              Inl e \<Rightarrow> Inr (e, zero_element, destination)
            | Inr i \<Rightarrow>
                bindR (load_word msg (DTPOS + i)) (\<lambda>size :: u8.
                bindR (load_word msg (DTPOS + i + 1)) (\<lambda>type_code :: u8.
                bindR (copy_payload type_code (unat size) dst 0 msg (DTPOS + i + 2)) (\<lambda>(dst', _).
                  Inr (ENONE, \<lparr>el_size = size, el_type_code = type_code,
                    el_data = Some (DTPOS + i + 2)\<rparr>, Some dst')))))))"

section \<open>The wire image of the header\<close>

definition db_header :: "data_buffer \<Rightarrow> bytes" where
  "db_header b = [db_protocol_version b, db_opcode b] @ le_bytes (db_functional_flags b) @
     le_bytes (db_checksum b) @ le_bytes (db_byte_length b) @ le_bytes (db_fields b)"

lemma length_db_header [simp]: "length (db_header b) = 12"
  by (simp add: db_header_def)

lemma to_wire_eq:
  assumes "12 \<le> length (db_data b)"
  shows "to_wire (Some b) = Inr (0, Some (b\<lparr>db_data := db_header b @ drop 12 (db_data b)\<rparr>))"
proof -
  let ?d = "db_data b" and ?h = "[db_protocol_version b, db_opcode b]"
  let ?h2 = "?h @ le_bytes (db_functional_flags b)"
  let ?h3 = "?h2 @ le_bytes (db_checksum b)"
  let ?h4 = "?h3 @ le_bytes (db_byte_length b)"
  note len = assms
  have "store_word ?d 0 (db_protocol_version b) = Inr ([db_protocol_version b] @ drop 1 ?d)"
    using store_word_at [of "[]" 0 ?d "db_protocol_version b"] len by simp
  moreover have "store_word ([db_protocol_version b] @ drop 1 ?d) 1 (db_opcode b) =
      Inr (?h @ drop 2 ?d)"
    using store_word_at [of "[db_protocol_version b]" 1 ?d "db_opcode b"] len
    by (simp add: numeral_2_eq_2)
  moreover have "store_word (?h @ drop 2 ?d) 2 (db_functional_flags b) = Inr (?h2 @ drop 4 ?d)"
    using store_word_at [of ?h 2 ?d "db_functional_flags b"] len by (simp del: drop_eq_Nil)
  moreover have "store_word (?h2 @ drop 4 ?d) 4 (db_checksum b) = Inr (?h3 @ drop 6 ?d)"
    using store_word_at [of ?h2 4 ?d "db_checksum b"] len by simp
  moreover have "store_word (?h3 @ drop 6 ?d) 6 (db_byte_length b) = Inr (?h4 @ drop 10 ?d)"
    using store_word_at [of ?h3 6 ?d "db_byte_length b"] len by simp
  moreover have "store_word (?h4 @ drop 10 ?d) 10 (db_fields b) =
      Inr (db_header b @ drop 12 ?d)"
    using store_word_at [of ?h4 10 ?d "db_fields b"] len by (simp add: db_header_def)
  ultimately show ?thesis by (simp add: to_wire_def data_positions)
qed

lemma create_buffer_eq:
  "create_buffer (Some b) = Inr (let z = zero_data_buffer\<lparr>db_protocol_version := 1, db_opcode := 1,
      db_byte_length := 13\<rparr> in z\<lparr>db_data := db_header z @ replicate 244 0\<rparr>)"
  by (simp add: create_buffer_def to_wire_eq zero_data_buffer_def const_simps Let_def)

lemma fields_of_header:
  "load_word (db_header b @ rest) FLDPOS = Inr (db_fields b)"
  by (rule load_word_at [where zs = rest and xs = "take 10 (db_header b)"])
    (simp_all add: db_header_def const_simps)

section \<open>The abstract message\<close>

text \<open>
  What a buffer stands for: a list of elements, each a type code and its payload bytes.
\<close>

type_synonym entry = "u8 \<times> bytes"

definition encode_entry :: "entry \<Rightarrow> bytes" where
  "encode_entry e = of_nat (length (snd e)) # fst e # snd e @ [0]"

definition encode_entries :: "entry list \<Rightarrow> bytes" where
  "encode_entries es = concat (map encode_entry es)"

lemma encode_entries_simps [simp]:
  "encode_entries [] = []"
  "encode_entries (e # es) = encode_entry e @ encode_entries es"
  "encode_entries (es @ fs) = encode_entries es @ encode_entries fs"
  by (simp_all add: encode_entries_def)

lemma length_encode_entry [simp]: "length (encode_entry e) = length (snd e) + 3"
  by (simp add: encode_entry_def)

definition represents :: "data_buffer \<Rightarrow> entry list \<Rightarrow> bool" where
  "represents b es \<longleftrightarrow>
     length (db_data b) = MESSAGE_SIZE \<and>
     unat (db_byte_length b) = DATA_HEADER_SIZE + length (encode_entries es) \<and>
     DATA_HEADER_SIZE + length (encode_entries es) \<le> MESSAGE_SIZE \<and>
     db_fields b = of_nat (length es) \<and>
     take (length (encode_entries es)) (drop DATA_HEADER_SIZE (db_data b)) = encode_entries es"

text \<open>The width a fixed-width type code is stored with.\<close>

definition fixed_width :: "u8 \<Rightarrow> nat option" where
  "fixed_width t = (if four_byte_type t then Some 4 else if one_byte_type t then Some 1
     else if two_byte_type t then Some 2 else None)"

text \<open>
  Payloads both functions copy byte for byte: a fixed-width type with its own
  width, or at least eight bytes whose first long does not start the fast path.
\<close>

definition plain_entry :: "entry \<Rightarrow> bool" where
  "plain_entry e \<longleftrightarrow> length (snd e) < 256 \<and>
     (case fixed_width (fst e) of
        Some w \<Rightarrow> length (snd e) = w
      | None \<Rightarrow> 8 \<le> length (snd e) \<and> (le_word (take 8 (snd e)) :: u64) AND 0xFFFFFFFC \<noteq> 0)"

section \<open>Payload copies\<close>

lemma copy_word_exact:
  assumes "s + LENGTH('a) div 8 \<le> length src" and "d + LENGTH('a) div 8 \<le> length dst"
    and "8 dvd LENGTH('a)"
  shows "bindR (load_word src s) (\<lambda>w :: 'a::len word. bindR (store_word dst d w)
      (\<lambda>dst'. Inr (dst', d + LENGTH('a) div 8))) =
    Inr (take d dst @ take (LENGTH('a) div 8) (drop s src) @ drop (d + LENGTH('a) div 8) dst,
      d + LENGTH('a) div 8)"
proof -
  let ?v = "take (LENGTH('a) div 8) (drop s src)"
  have "length ?v * 8 = LENGTH('a)" using assms by (auto elim!: dvdE)
  then have "le_bytes (le_word ?v :: 'a word) = ?v" by (rule le_bytes_le_word)
  then show ?thesis using assms by (simp add: load_word_def load_def store_word_def store_def)
qed

lemma copy_payload_exact:
  assumes "plain_entry (t, p)" and src: "take (length p) (drop s src) = p"
    and d: "d + length p \<le> length dst"
  shows "copy_payload t (length p) dst d src s =
    Inr (take d dst @ p @ drop (d + length p) dst, d + length p)"
proof -
  have s: "s + length p \<le> length src \<or> p = []"
  proof -
    have "length p = min (length src - s) (length p)"
      using arg_cong [OF src, of length] by (simp add: min.commute)
    then show ?thesis by (cases p) auto
  qed
  consider (four) "four_byte_type t" "length p = 4"
    | (one) "\<not> four_byte_type t" "one_byte_type t" "length p = 1"
    | (two) "\<not> four_byte_type t" "\<not> one_byte_type t" "two_byte_type t" "length p = 2"
    | (default) "\<not> four_byte_type t" "\<not> one_byte_type t" "\<not> two_byte_type t" "8 \<le> length p"
        "(le_word (take 8 p) :: u64) AND 0xFFFFFFFC \<noteq> 0"
    using assms(1) by (auto simp: plain_entry_def fixed_width_def split: if_splits)
  then show ?thesis
  proof cases
    case four
    with s have "s + 4 \<le> length src" by auto
    with four copy_word_exact [of s src d dst, where 'a = 32] d src show ?thesis
      by (simp add: copy_payload_def)
  next
    case one
    with s have "s + 1 \<le> length src" by auto
    with one copy_word_exact [of s src d dst, where 'a = 8] d src show ?thesis
      by (simp add: copy_payload_def)
  next
    case two
    with s have "s + 2 \<le> length src" by auto
    with two copy_word_exact [of s src d dst, where 'a = 16] d src show ?thesis
      by (simp add: copy_payload_def)
  next
    case default
    with s have len: "s + length p \<le> length src" by auto
    have "take 8 (drop s src) = take 8 p"
      using src default(4) by (metis min.absorb1 take_take)
    then have "load_word src s = (Inr (le_word (take 8 p)) :: u64 res)"
      using len default(4) by (simp add: load_word_def load_def)
    with default len d src show ?thesis
      by (simp add: copy_payload_def copy_default_def copy_bytes_eq)
  qed
qed

section \<open>Appending refines list append\<close>

lemma plain_entry_length: "plain_entry e \<Longrightarrow> length (snd e) < 256"
  by (simp add: plain_entry_def)

lemma unat_of_nat_u8: "n < 256 \<Longrightarrow> unat (of_nat n :: u8) = n"
  by (simp add: unat_of_nat take_bit_nat_eq_self)

text \<open>The guard of \<^verbatim>\<open>serialize_data\<close> is a 32-bit sum; for a represented message it is exact.\<close>

lemma guard_iff:
  assumes "unat l \<le> 256" and "n < 256"
  shows "3 + ucast (of_nat n :: u8) + l < (256 :: u32) \<longleftrightarrow> unat l + 3 + n < 256"
    and "unat l + 3 + n < 256 \<Longrightarrow> unat (l + (3 + ucast (of_nat n :: u8)) :: u32) = unat l + 3 + n"
proof -
  have u: "unat (ucast (of_nat n :: u8) :: u32) = n"
    using assms(2) by (simp add: unsigned_ucast_eq unat_of_nat_u8 take_bit_nat_eq_self)
  have "unat (3 + ucast (of_nat n :: u8) :: u32) = 3 + n"
    using u assms(2) by (subst unat_word_ariths) simp
  then have s: "unat (l + (3 + ucast (of_nat n :: u8)) :: u32) = unat l + 3 + n"
    using assms by (subst unat_word_ariths) simp
  then show "3 + ucast (of_nat n :: u8) + l < (256 :: u32) \<longleftrightarrow> unat l + 3 + n < 256"
    unfolding word_less_nat_alt add.commute [of _ l] s by simp
  show "unat (l + (3 + ucast (of_nat n :: u8)) :: u32) = unat l + 3 + n" by (rule s)
qed

lemma serialize_data_fits:
  assumes plain: "plain_entry (t, p)" and len: "length (db_data b) = MESSAGE_SIZE"
    and fits: "unat (db_byte_length b) + 3 + length p < MESSAGE_SIZE"
  shows "serialize_data b (Some p) (of_nat (length p)) t =
    Inr (0, b\<lparr>db_data := take (unat (db_byte_length b)) (db_data b) @ encode_entry (t, p) @
        drop (unat (db_byte_length b) + 3 + length p) (db_data b),
      db_byte_length := db_byte_length b + (3 + ucast (of_nat (length p) :: u8)),
      db_fields := db_fields b + 1\<rparr>)"
proof -
  let ?h = "unat (db_byte_length b)" and ?d = "db_data b" and ?n = "length p"
  let ?x = "take ?h ?d"
  have n: "?n < 256" using plain_entry_length [OF plain] by simp
  have room: "?h + 3 + ?n < 256" "length ?d = 256" using len fits by (simp_all add: const_simps)
  then have x: "length ?x = ?h" by simp
  have g: "3 + ucast (of_nat ?n :: u8) + db_byte_length b < (256 :: u32)"
    using guard_iff(1) [of "db_byte_length b" ?n] n room by simp
  have st1: "store_word ?d ?h (of_nat ?n :: u8) = Inr (?x @ [of_nat ?n] @ drop (?h + 1) ?d)"
    using store_word_at [of ?x ?h ?d "of_nat ?n :: u8"] x room by simp
  have st2: "store_word (?x @ [of_nat ?n] @ drop (?h + 1) ?d) (?h + 1) t =
      Inr ((?x @ [of_nat ?n, t]) @ drop (?h + 2) ?d)"
    using store_word_at [of "?x @ [of_nat ?n]" "?h + 1" ?d t] x room by simp
  have cp: "copy_payload t (unat (of_nat ?n :: u8)) ((?x @ [of_nat ?n, t]) @ drop (?h + 2) ?d)
      (?h + 2) p 0 = Inr ((?x @ [of_nat ?n, t] @ p) @ drop (?h + 2 + ?n) ?d, ?h + 2 + ?n)"
    unfolding unat_of_nat_u8 [OF n]
    by (subst copy_payload_exact [OF plain]) (use x room in \<open>simp_all add: add.commute\<close>)
  have st3: "store_word ((?x @ [of_nat ?n, t] @ p) @ drop (?h + 2 + ?n) ?d) (?h + 2 + ?n) (0 :: u8) =
      Inr (?x @ encode_entry (t, p) @ drop (?h + 3 + ?n) ?d)"
    using store_word_at [of "?x @ [of_nat ?n, t] @ p" "?h + 2 + ?n" ?d "0 :: u8"] x room
    by (simp add: encode_entry_def numeral_3_eq_3)
  show ?thesis
    by (simp only: serialize_data_def option.case g if_True Let_def st1 st2 cp st3 bindR_Inr prod.case)
qed

lemma serialize_data_full:
  assumes "unat (db_byte_length b) \<le> 256" and "n < 256"
    and "MESSAGE_SIZE \<le> unat (db_byte_length b) + 3 + n"
  shows "serialize_data b data (of_nat n) t = Inr (0, b)"
  using assms guard_iff(1) [of "db_byte_length b" n]
  by (simp add: serialize_data_def const_simps split: option.split)

lemma represents_append:
  assumes r: "represents b es"
    and fits: "unat (db_byte_length b) + 3 + length p < MESSAGE_SIZE" and n: "length p < 256"
  shows "represents (b\<lparr>db_data := take (unat (db_byte_length b)) (db_data b) @ encode_entry (t, p) @
        drop (unat (db_byte_length b) + 3 + length p) (db_data b),
      db_byte_length := db_byte_length b + (3 + ucast (of_nat (length p) :: u8)),
      db_fields := db_fields b + 1\<rparr>) (es @ [(t, p)])" (is "represents ?b' _")
proof -
  let ?h = "unat (db_byte_length b)" and ?d = "db_data b" and ?L = "length (encode_entries es)"
  have b: "length ?d = 256" "?h = 13 + ?L" "13 + ?L \<le> 256" "take ?L (drop 13 ?d) = encode_entries es"
    using r by (simp_all add: represents_def data_positions)
  have "unat (db_byte_length ?b') = ?h + 3 + length p"
    using guard_iff(2) [of "db_byte_length b" "length p"] b fits n by (simp add: const_simps)
  moreover have "take (13 + ?L) ?d = take 13 ?d @ encode_entries es"
    using b(4) by (simp add: take_add)
  ultimately show ?thesis
    using b r fits by (simp add: represents_def data_positions)
qed

lemma represents_create_buffer:
  "\<exists>b'. create_buffer (Some b) = Inr b' \<and> represents b' []"
  by (simp add: create_buffer_eq represents_def zero_data_buffer_def const_simps Let_def)

section \<open>Reading refines list indexing\<close>

text \<open>The bytes of a message that starts with a header and holds the elements \<open>es\<close>.\<close>

definition message_bytes :: "bytes \<Rightarrow> entry list \<Rightarrow> bytes \<Rightarrow> bytes" where
  "message_bytes hdr es rest = hdr @ encode_entries es @ rest"

lemma skip_elements_append:
  assumes "length hdr = DTPOS" and "\<forall>e \<in> set es. length (snd e) < 256"
    and "i = length (encode_entries ds)"
  shows "skip_elements (hdr @ encode_entries ds @ encode_entries es @ rest) i (length es) =
    Inr (Inr (i + length (encode_entries es)))"
  using assms
proof (induction es arbitrary: ds i)
  case Nil
  then show ?case by simp
next
  case (Cons e es)
  obtain t p where e: "e = (t, p)" by fastforce
  have n: "length p < 256" using Cons.prems e by auto
  let ?x = "hdr @ encode_entries ds" and ?n = "of_nat (length p) :: u8"
  let ?m = "hdr @ encode_entries ds @ encode_entries (e # es) @ rest"
  have x: "length ?x = DTPOS + i" using Cons.prems by simp
  have "load_word ?m (DTPOS + i) = Inr ?n"
    by (rule load_word_at [where xs = ?x and zs = "t # p @ [0] @ encode_entries es @ rest"])
      (use x in \<open>simp_all add: e encode_entry_def\<close>)
  moreover have "load_word ?m (DTPOS + i + 2 + unat ?n) = Inr (0 :: u8)"
    by (rule load_word_at [where xs = "?x @ ?n # t # p" and zs = "encode_entries es @ rest"])
      (use x n in \<open>simp_all add: e encode_entry_def unat_of_nat_u8\<close>)
  moreover have "skip_elements ?m (i + 2 + unat ?n + 1) (length es) =
      Inr (Inr (i + length (encode_entries (e # es))))"
    using Cons.IH [of "i + 3 + length p" "ds @ [e]"] Cons.prems n
    by (simp add: e unat_of_nat_u8 add.commute add.left_commute numeral_3_eq_3)
  ultimately show ?case by simp
qed

lemma get_data_entry:
  assumes msg: "msg = hdr @ encode_entries (ds @ (t, p) # es) @ rest" and hdr: "length hdr = DTPOS"
    and ok: "\<forall>e \<in> set ds. plain_entry e" "plain_entry (t, p)"
    and fields: "load_word msg FLDPOS = Inr (of_nat k :: u16)" "length ds < k" "k < MAX_FIELDS"
    and dst: "length p \<le> length dst"
  shows "get_data (Some msg) (Some dst) (length ds) =
    Inr (ENONE, \<lparr>el_size = of_nat (length p), el_type_code = t,
      el_data = Some (DTPOS + length (encode_entries ds) + 2)\<rparr>, Some (p @ drop (length p) dst))"
proof -
  let ?L = "length (encode_entries ds)" and ?x = "hdr @ encode_entries ds"
  let ?n = "of_nat (length p) :: u8" and ?r = "[0] @ encode_entries es @ rest"
  have n: "length p < 256" using plain_entry_length [OF ok(2)] by simp
  have m: "msg = ?x @ [?n, t] @ p @ ?r" and x: "length ?x = DTPOS + ?L"
    using msg hdr by (simp_all add: encode_entry_def)
  have k: "unat (of_nat k :: u16) = k"
    using fields(3) by (simp add: const_simps unat_of_nat take_bit_nat_eq_self)
  have sk: "skip_elements msg 0 (length ds) = Inr (Inr ?L)"
    using skip_elements_append [of hdr ds 0 "[]" "encode_entries ((t, p) # es) @ rest"]
      hdr ok(1) msg by (simp add: plain_entry_def)
  have sz: "load_word msg (DTPOS + ?L) = Inr ?n"
    by (rule load_word_at [where xs = ?x and zs = "t # p @ ?r"]) (use m x in simp_all)
  have ty: "load_word msg (DTPOS + ?L + 1) = Inr t"
    by (rule load_word_at [where xs = "?x @ [?n]" and zs = "p @ ?r"]) (use m x in simp_all)
  have "drop (DTPOS + ?L + 2) msg = p @ ?r"
    using m x by simp
  then have "copy_payload t (unat ?n) dst 0 msg (DTPOS + ?L + 2) =
      Inr (p @ drop (length p) dst, length p)"
    unfolding unat_of_nat_u8 [OF n] using copy_payload_exact [OF ok(2), of "DTPOS + ?L + 2" msg 0 dst] dst
    by simp
  with sk sz ty fields k show ?thesis
    by (simp add: get_data_def Let_def)
qed

section \<open>Properties\<close>

text \<open>A client that appends several elements, ignoring the returned codes.\<close>

fun serialize_all :: "data_buffer \<Rightarrow> entry list \<Rightarrow> data_buffer res" where
  "serialize_all b [] = Inr b"
| "serialize_all b ((t, p) # es) =
     bindR (serialize_data b (Some p) (of_nat (length p)) t) (\<lambda>(_, b'). serialize_all b' es)"

lemma serialize_all_represents:
  assumes "represents b ds" and "\<forall>e \<in> set es. plain_entry e"
    and "DATA_HEADER_SIZE + length (encode_entries (ds @ es)) < MESSAGE_SIZE"
  shows "\<exists>b'. serialize_all b es = Inr b' \<and> represents b' (ds @ es)"
  using assms
proof (induction es arbitrary: b ds)
  case Nil
  then show ?case by simp
next
  case (Cons e es)
  obtain t p where e: "e = (t, p)" by fastforce
  then have plain: "plain_entry (t, p)" using Cons.prems(2) by simp
  have len: "length (db_data b) = MESSAGE_SIZE"
    and l: "unat (db_byte_length b) = DATA_HEADER_SIZE + length (encode_entries ds)"
    using Cons.prems(1) by (simp_all add: represents_def)
  have fits: "unat (db_byte_length b) + 3 + length p < MESSAGE_SIZE"
    using Cons.prems(3) l by (simp add: e)
  note app = represents_append [OF Cons.prems(1) fits, of t]
  from serialize_data_fits [OF plain len fits] app plain_entry_length [OF plain]
  obtain b1 where b1: "serialize_data b (Some p) (of_nat (length p)) t = Inr (0, b1)"
    "represents b1 (ds @ [e])" by (simp add: e)
  with Cons.IH [of b1 "ds @ [e]"] Cons.prems show ?case by (simp add: e)
qed

text \<open>
  C7: \<^verbatim>\<open>serialize_data\<close> refines list append: on a buffer that represents the elements \<open>es\<close>,
  a payload copied byte for byte is appended as one element when
  \<^verbatim>\<open>3 + num_bytes + byte_length < MESSAGE_SIZE\<close>; otherwise the buffer is left unchanged.
  In both cases the function returns 0, so a dropped element is not reported.
\<close>

theorem serialize_data_refines_append:
  assumes "represents b es" and "plain_entry (t, p)"
  shows "\<exists>b'. serialize_data b (Some p) (of_nat (length p)) t = Inr (0, b') \<and>
    (if DATA_HEADER_SIZE + length (encode_entries es) + 3 + length p < MESSAGE_SIZE
     then represents b' (es @ [(t, p)]) else b' = b)"
proof (cases "unat (db_byte_length b) + 3 + length p < MESSAGE_SIZE")
  case True
  with assms represents_append [OF assms(1) True] serialize_data_fits [of t p b]
    plain_entry_length [OF assms(2)] show ?thesis by (auto simp: represents_def)
next
  case False
  with assms serialize_data_full [of b "length p"] plain_entry_length [OF assms(2)]
  show ?thesis by (simp add: represents_def const_simps)
qed

lemma serialize_data_refines_append_witness:
  "\<exists>b. represents b [] \<and> (\<exists>b'. serialize_data b (Some [7, 0]) 2 INT16 = Inr (0, b') \<and>
     represents b' [(INT16, [7, 0])])"
proof -
  obtain b where "represents b []" using represents_create_buffer by blast
  moreover have "plain_entry (INT16, [7, 0])"
    by (simp add: plain_entry_def fixed_width_def four_byte_type_def one_byte_type_def
        two_byte_type_def const_simps)
  ultimately show ?thesis
    using serialize_data_refines_append [of b "[]" INT16 "[7, 0]"] by (auto simp: const_simps)
qed

text \<open>The bytes of a whole message, and what appending leaves alone.\<close>

lemma serialize_all_keeps:
  "serialize_all b es = Inr b' \<Longrightarrow> db_protocol_version b' = db_protocol_version b \<and> db_opcode b' = db_opcode b \<and>
    db_functional_flags b' = db_functional_flags b \<and> db_checksum b' = db_checksum b"
proof (induction es arbitrary: b)
  case (Cons e es)
  obtain t p where e: "e = (t, p)" by fastforce
  obtain r b1 where b1: "serialize_data b (Some p) (of_nat (length p)) t = Inr (r, b1)" "serialize_all b1 es = Inr b'"
    using Cons.prems by (auto simp: e bindR_eq_Inr)
  then have "db_protocol_version b1 = db_protocol_version b \<and> db_opcode b1 = db_opcode b \<and>
    db_functional_flags b1 = db_functional_flags b \<and> db_checksum b1 = db_checksum b"
    by (auto simp: serialize_data_def bindR_eq_Inr Let_def split: if_splits)
  with Cons.IH [OF b1(2)] show ?case by simp
qed simp

lemma wire_image:
  assumes "\<forall>e \<in> set es. plain_entry e" and "DATA_HEADER_SIZE + length (encode_entries es) < MESSAGE_SIZE"
  obtains b b' hdr rest where "bindR (create_buffer (Some x)) (\<lambda>b. serialize_all b es) = Inr b"
    and "to_wire (Some b) = Inr (0, Some b')" and "db_data b' = hdr @ encode_entries es @ rest"
    and "hdr = db_header b @ [hdr ! 12]" and "length hdr = DTPOS" and "represents b es"
    and "db_protocol_version b = 1" and "db_opcode b = 1" and "db_functional_flags b = 0" and "db_checksum b = 0"
proof -
  obtain b0 where b0: "create_buffer (Some x) = Inr b0" "represents b0 []"
    using represents_create_buffer by blast
  with serialize_all_represents [of b0 "[]" es] assms
  obtain b where b: "serialize_all b0 es = Inr b" "represents b es" by auto
  let ?L = "length (encode_entries es)"
  have len: "length (db_data b) = 256" and enc: "take ?L (drop 13 (db_data b)) = encode_entries es"
    using b(2) by (simp_all add: represents_def data_positions)
  have d12: "drop 12 (db_data b) = db_data b ! 12 # drop 13 (db_data b)"
    using len by (simp add: Cons_nth_drop_Suc [symmetric])
  have d13: "drop 13 (db_data b) = encode_entries es @ drop (13 + ?L) (db_data b)"
    using append_take_drop_id [of ?L "drop 13 (db_data b)"] by (simp add: enc add.commute)
  have "to_wire (Some b) = Inr (0, Some (b\<lparr>db_data := db_header b @ drop 12 (db_data b)\<rparr>))"
    using to_wire_eq [of b] len by simp
  moreover have "db_protocol_version b0 = 1 \<and> db_opcode b0 = 1 \<and> db_functional_flags b0 = 0 \<and> db_checksum b0 = 0"
    using b0(1) by (auto simp: create_buffer_eq zero_data_buffer_def Let_def)
  ultimately show thesis
    using serialize_all_keeps [OF b(1)] b b0
    by (intro that [of b "b\<lparr>db_data := db_header b @ drop 12 (db_data b)\<rparr>" "db_header b @ [db_data b ! 12]" "drop (13 + ?L) (db_data b)"])
      (simp_all add: d12 d13 const_simps nth_append)
qed

lemma entries_counted:
  assumes "DATA_HEADER_SIZE + length (encode_entries es) < MESSAGE_SIZE"
  shows "unat (of_nat (length es) :: u16) = length es"
proof -
  have "3 * length es \<le> length (encode_entries es)" by (induction es) simp_all
  then show ?thesis using assms by (simp add: const_simps unat_of_nat take_bit_nat_eq_self)
qed

text \<open>
  C8: the round trip of a whole message whose elements are plain: of a type of fixed width
  (four, one or two bytes; \<^verbatim>\<open>UINT16\<close> is not among them) with exactly that many bytes, of any
  other type with 8 to 255 bytes, the first eight of which, read as a 64-bit number, have one of
  the bits 2 to 31 set.  A buffer made by \<^verbatim>\<open>create_buffer\<close>, filled with such elements, in
  all shorter than \<^verbatim>\<open>MESSAGE_SIZE\<close>, and finished with \<^verbatim>\<open>to_wire\<close> gives bytes from
  which \<^verbatim>\<open>get_data\<close> reads element \<open>i\<close> back into a destination that is long enough: its size, type
  code, payload and the rest of the destination untouched, whatever follows the message.  This
  needs fewer than \<^verbatim>\<open>MAX_FIELDS\<close> elements; a longer message answers \<^verbatim>\<open>ERANGE\<close> for every one of its
  elements.  (Elements that are not plain are read past their end: \<open>short_object_overread\<close>,
  \<open>small_uint64_overruns\<close>.)
\<close>

theorem data_message_roundtrip:
  assumes "\<forall>e \<in> set es. plain_entry e"
    and "DATA_HEADER_SIZE + length (encode_entries es) < MESSAGE_SIZE"
    and "i < length es" and "es ! i = (t, p)" and "length p \<le> length dst"
  shows "\<exists>b b' off. bindR (create_buffer (Some x)) (\<lambda>b. serialize_all b es) = Inr b \<and>
    to_wire (Some b) = Inr (0, Some b') \<and>
    get_data (Some (db_data b' @ after)) (Some dst) i =
      Inr (if length es < MAX_FIELDS
        then (ENONE, \<lparr>el_size = of_nat (length p), el_type_code = t, el_data = Some off\<rparr>,
          Some (p @ drop (length p) dst))
        else (ERANGE, zero_element, Some dst)) \<and>
    take (length p) (drop off (db_data b')) = p"
proof -
  obtain b w hdr rest0 where b: "bindR (create_buffer (Some x)) (\<lambda>b. serialize_all b es) = Inr b"
    "to_wire (Some b) = Inr (0, Some w)" "db_data w = hdr @ encode_entries es @ rest0"
    "hdr = db_header b @ [hdr ! 12]" "length hdr = DTPOS" "represents b es"
    by (rule wire_image [OF assms(1,2)]) blast
  have f: "db_fields b = of_nat (length es)" using b(6) by (simp add: represents_def)
  define rest where "rest = rest0 @ after"
  have wm: "db_data w @ after = hdr @ encode_entries es @ rest" using b(3) by (simp add: rest_def)
  let ?ds = "take i es" and ?es = "drop (Suc i) es"
  let ?off = "DTPOS + length (encode_entries ?ds) + 2"
  have es: "es = ?ds @ (t, p) # ?es" using assms(3,4) by (metis id_take_nth_drop)
  have plain: "plain_entry (t, p)" using assms(1,3,4) by (metis nth_mem)
  have hdr: "db_data w @ after = db_header b @ [hdr ! 12] @ encode_entries es @ rest"
    unfolding wm by (subst b(4)) simp
  have few: "get_data (Some (db_data w @ after)) (Some dst) (length ?ds) =
      Inr (ENONE, \<lparr>el_size = of_nat (length p), el_type_code = t, el_data = Some ?off\<rparr>,
        Some (p @ drop (length p) dst))" if "length es < MAX_FIELDS"
  proof (rule get_data_entry [where k = "length es" and es = ?es and rest = rest and hdr = hdr])
    show "db_data w @ after = hdr @ encode_entries (?ds @ (t, p) # ?es) @ rest"
      using wm by (simp only: es [symmetric])
    show "load_word (db_data w @ after) FLDPOS = Inr (of_nat (length es) :: u16)"
      using fields_of_header [of b "[hdr ! 12] @ encode_entries es @ rest"] f unfolding wm by (subst b(4)) simp
  qed (use assms plain b(5) that in \<open>auto dest: in_set_takeD\<close>)
  have many: "get_data (Some (db_data w @ after)) (Some dst) i = Inr (ERANGE, zero_element, Some dst)"
    if "\<not> length es < MAX_FIELDS"
    using that unfolding hdr by (simp add: get_data_def fields_of_header f entries_counted [OF assms(2)] Let_def)
  have "take (length p) (drop ?off (db_data w)) = p"
  proof -
    have "db_data w = (hdr @ encode_entries ?ds @ [of_nat (length p), t]) @ p @
        ([0] @ encode_entries ?es @ rest0)" (is "_ = ?X @ p @ ?Y")
      unfolding b(3) by (subst es) (simp add: encode_entry_def)
    moreover have "?off = length ?X" using b(5) by (simp add: const_simps)
    ultimately show ?thesis by (rule take_drop_mid)
  qed
  with few many b(1,2) assms(3) show ?thesis
    by (cases "length es < MAX_FIELDS") (auto intro: exI [of _ ?off])
qed

lemma data_message_roundtrip_witness:
  "\<exists>b b' off. bindR (create_buffer (Some zero_data_buffer))
      (\<lambda>b. serialize_all b [(INT16, [7, 0]), (CHAR_TYPE, [65])]) = Inr b \<and>
    to_wire (Some b) = Inr (0, Some b') \<and>
    get_data (Some (db_data b' @ [])) (Some [1, 2]) 1 =
      Inr (ENONE, \<lparr>el_size = 1, el_type_code = CHAR_TYPE, el_data = Some off\<rparr>, Some [65, 2]) \<and>
    take 1 (drop off (db_data b')) = [65]"
  using data_message_roundtrip [of "[(INT16, [7, 0]), (CHAR_TYPE, [65])]" 1 CHAR_TYPE "[65]"
      "[1, 2]" zero_data_buffer "[]"]
  by (simp add: plain_entry_def fixed_width_def four_byte_type_def one_byte_type_def
      two_byte_type_def const_simps)

lemma and_fast_mask: "w AND 0xFFFFFFFC = push_bit 2 (drop_bit 2 (take_bit 32 (w :: u64)))"
proof -
  have m: "(0xFFFFFFFC :: u64) = push_bit 2 (mask 30)" by (simp add: mask_eq_exp_minus_1)
  show ?thesis
  proof (unfold m, rule bit_word_eqI)
    fix n assume n: "n < LENGTH(64)"
    show "bit (w AND push_bit 2 (mask 30)) n =
        bit (push_bit 2 (drop_bit 2 (take_bit 32 w))) n"
    proof (cases "2 \<le> n")
      case True
      then obtain m where "n = 2 + m" using le_Suc_ex by blast
      with n show ?thesis
        unfolding bit_and_iff bit_push_bit_iff bit_drop_bit_eq bit_take_bit_iff bit_mask_iff o_def by auto
    qed (unfold bit_and_iff bit_push_bit_iff, simp)
  qed
qed

text \<open>The default branch on a source that starts with a small long.\<close>

lemma copy_default_fast_overruns:
  assumes "load_word src 0 = Inr w" and "w AND 0xFFFFFFFC = (0 :: u64)"
    and "load_word dst d = Inr v" and "v AND 0xFFFFFFFC = (0 :: u64)"
    and "length src < 2 * n" and n: "n div 4 = k" "2 \<le> k" "length src < 8 * k"
  shows "copy_default n dst d src 0 = Inl Out_Of_Bounds"
proof -
  have "copy_longs m dst' d' src s = Inl Out_Of_Bounds"
    if "length src < s + 8 * (m div 4)" and "4 \<le> m" for m dst' d' s
    using that
  proof (induction m dst' d' src s rule: copy_longs.induct)
    case (1 m dst d src s)
    show ?case
    proof (cases "s + 8 \<le> length src \<and> d + 8 \<le> length dst")
      case False
      then have "load src s 8 = Inl Out_Of_Bounds \<or>
          (\<exists>v. load src s 8 = Inr v \<and> store dst d v = Inl Out_Of_Bounds)"
        by (auto simp: load_def store_def)
      with 1 show ?thesis by (subst copy_longs.simps) auto
    next
      case True
      then obtain v dst' where v: "load src s 8 = Inr v" "store dst d v = Inr dst'"
        by (auto simp: load_def store_def)
      have q: "m div 4 = Suc ((m - 4) div 4)" using 1 by (simp add: le_div_geq)
      have "4 \<le> m - 4" using True 1 q by (cases "(m - 4) div 4") (auto simp: div_eq_0_iff)
      with 1 v q show ?thesis by (subst copy_longs.simps) auto
    qed
  qed
  then show ?thesis using assms by (simp add: copy_default_def)
qed

text \<open>
  The fast path of the default branch moves eight bytes for every four it counts.
  Serialising a 64-bit integer whose low half is below 4 (zero, say) into the cleared
  space of a message reads eight bytes past the integer.
\<close>

theorem small_uint64_overruns:
  assumes "represents b es" and "unat (db_byte_length b) + 11 < MESSAGE_SIZE"
    and "take 8 (drop (unat (db_byte_length b) + 2) (db_data b)) = replicate 8 0"
    and "(take_bit 32 w :: u64) < 4" and "t = UINT64 \<or> t = INT64 \<or> t = DOUBLE"
  shows "serialize_data b (Some (le_bytes w)) 8 t = Inl Out_Of_Bounds"
proof -
  let ?h = "unat (db_byte_length b)" and ?d = "db_data b"
  have len: "length ?d = 256" "?h + 11 < 256" using assms by (simp_all add: represents_def const_simps)
  have g: "3 + ucast (8 :: u8) + db_byte_length b < (256 :: u32)"
    using guard_iff(1) [of "db_byte_length b" 8] len by simp
  define d2 where "d2 = take ?h ?d @ [8, t] @ drop (?h + 2) ?d"
  have st: "store_word ?d ?h (8 :: u8) = Inr (take ?h ?d @ [8] @ drop (?h + 1) ?d)"
    "store_word (take ?h ?d @ [8] @ drop (?h + 1) ?d) (?h + 1) t = Inr d2"
    using store_word_at [of "take ?h ?d" ?h ?d "8 :: u8"] len
      store_word_at [of "take ?h ?d @ [8]" "?h + 1" ?d t] by (simp_all add: d2_def)
  have split: "drop (?h + 2) ?d = replicate 8 0 @ drop (?h + 10) ?d"
    using append_take_drop_id [of 8 "drop (?h + 2) ?d"] assms(3) by (simp add: add.commute)
  have z8: "replicate 8 0 = le_bytes (0 :: u64)" by code_simp
  have z: "load_word d2 (?h + 2) = Inr (0 :: u64)"
    by (rule load_word_at [where xs = "take ?h ?d @ [8, t]" and zs = "drop (?h + 10) ?d"])
      (use len in \<open>simp_all only: d2_def split z8, simp_all\<close>)
  have w: "w AND 0xFFFFFFFC = 0"
  proof -
    have "w AND 0xFFFFFFFC = push_bit 2 (drop_bit 2 (take_bit 32 w))" by (rule and_fast_mask)
    also have "drop_bit 2 (take_bit 32 w) = 0"
    proof -
      have "unat (take_bit 32 w) < 2 ^ 2" using assms(4) by (simp add: word_less_nat_alt)
      then have "unat (drop_bit 2 (take_bit 32 w)) = 0"
        unfolding unat_drop_bit_eq by (simp only: drop_bit_eq_div div_less)
      then show ?thesis by (simp only: unat_eq_zero)
    qed
    finally show ?thesis by simp
  qed
  have "load_word (le_bytes w) 0 = Inr w"
    by (rule load_word_at [where xs = "[]" and zs = "[]"]) simp_all
  then have "copy_default 8 d2 (?h + 2) (le_bytes w) 0 = Inl Out_Of_Bounds"
    using w z by (intro copy_default_fast_overruns [where k = 2 and w = w and v = 0]) simp_all
  moreover have "\<not> four_byte_type t" "\<not> one_byte_type t" "\<not> two_byte_type t"
    using assms(5) by (auto simp: four_byte_type_def one_byte_type_def two_byte_type_def const_simps)
  ultimately show ?thesis
    using g st by (simp add: serialize_data_def copy_payload_def Let_def)
qed

lemma small_uint64_overruns_witness:
  "bindR (create_buffer (Some zero_data_buffer))
     (\<lambda>b. serialize_data b (Some (le_bytes (0 :: u64))) 8 UINT64) = Inl Out_Of_Bounds"
proof -
  obtain b where b: "create_buffer (Some zero_data_buffer) = Inr b" "represents b []"
    using represents_create_buffer by blast
  then have "take 8 (drop (unat (db_byte_length b) + 2) (db_data b)) = replicate 8 0"
    "unat (db_byte_length b) = 13"
    by (auto simp: create_buffer_eq Let_def)
  with b small_uint64_overruns [of b "[]" 0 UINT64] show ?thesis
    by (simp add: const_simps)
qed

text \<open>
  The default branch reads a whole long of the caller's object before it looks at
  \<^verbatim>\<open>num_bytes\<close>: any string or other default-typed object shorter than eight bytes is
  read past its end, in every buffer with room for it.
\<close>

theorem short_object_overread:
  assumes "represents b es" and "fixed_width t = None" and "length p < 8" and "n < 256"
    and "unat (db_byte_length b) + 3 + n < MESSAGE_SIZE"
  shows "serialize_data b (Some p) (of_nat n) t = Inl Out_Of_Bounds"
proof -
  let ?h = "unat (db_byte_length b)" and ?d = "db_data b"
  have len: "length ?d = 256" "?h + 3 + n < 256" using assms by (simp_all add: represents_def const_simps)
  have g: "3 + ucast (of_nat n :: u8) + db_byte_length b < (256 :: u32)"
    using guard_iff(1) [of "db_byte_length b" n] len assms(4) by simp
  have st: "store_word ?d ?h (of_nat n :: u8) = Inr (take ?h ?d @ [of_nat n] @ drop (?h + 1) ?d)"
    "store_word (take ?h ?d @ [of_nat n] @ drop (?h + 1) ?d) (?h + 1) t =
       Inr (take ?h ?d @ [of_nat n, t] @ drop (?h + 2) ?d)"
    using store_word_at [of "take ?h ?d" ?h ?d "of_nat n :: u8"] len
      store_word_at [of "take ?h ?d @ [of_nat n]" "?h + 1" ?d t] by simp_all
  have "load_word p 0 = (Inl Out_Of_Bounds :: u64 res)"
    using assms(3) by (intro load_word_Inl) simp
  moreover have "\<not> four_byte_type t" "\<not> one_byte_type t" "\<not> two_byte_type t"
    using assms(2) by (auto simp: fixed_width_def split: if_splits)
  ultimately show ?thesis
    using g st by (simp add: serialize_data_def copy_payload_def copy_default_def Let_def)
qed

lemma short_object_overread_witness:
  "bindR (create_buffer (Some zero_data_buffer))
     (\<lambda>b. serialize_data b (Some [104, 105]) 2 STRING) = Inl Out_Of_Bounds"
proof -
  obtain b where b: "create_buffer (Some zero_data_buffer) = Inr b" "represents b []"
    using represents_create_buffer by blast
  moreover have "unat (db_byte_length b) = 13" using b(2) by (simp add: represents_def const_simps)
  ultimately show ?thesis
    using short_object_overread [of b "[]" STRING "[104, 105]" 2]
    by (simp add: fixed_width_def four_byte_type_def one_byte_type_def two_byte_type_def const_simps)
qed

text \<open>
  A writer may append more elements than a reader accepts: once a message
  declares \<^verbatim>\<open>MAX_FIELDS\<close> fields, \<^verbatim>\<open>get_data\<close> refuses every index with \<^verbatim>\<open>ERANGE\<close>, and so it
  does for an index past the last field of any message; the destination is untouched.
\<close>

theorem get_data_range:
  assumes "MAX_FIELDS \<le> unat (db_fields b) \<or> unat (db_fields b) \<le> index"
  shows "get_data (Some (db_header b @ body)) (Some dst) index =
    Inr (ERANGE, zero_element, Some dst)"
  using assms by (auto simp: get_data_def Let_def fields_of_header)

lemma get_data_range_witness:
  "get_data (Some (db_header (zero_data_buffer\<lparr>db_fields := 32\<rparr>) @ [0])) (Some [1]) 0 =
    Inr (ERANGE, zero_element, Some [1])"
  using get_data_range [of "zero_data_buffer\<lparr>db_fields := 32\<rparr>" 0 "[0]" "[1]"]
  by (simp add: const_simps)

text \<open>
  \<^verbatim>\<open>get_opcode\<close> answers the wrong way round: for every opcode of the protocol it
  returns 0, and it returns the byte itself exactly when it is not one.
\<close>

theorem get_opcode_inverted:
  "get_header get_opcode_impl (1 # op # rest) = Inr (if op \<le> MAX_MESSAGE_TYPE then 0 else op)"
  by (simp add: get_header_impls get_protocol_version_def load_word_u8 data_positions)

end
