(* ===== verification/Rmt_Messages.thy ===== *)
theory Rmt_Messages
  imports Data_Message
begin

text \<open>
  Model of \<^verbatim>\<open>src/messages/rmt_messages.c\<close> and \<^verbatim>\<open>rmt_messages.h\<close>: the robot's message
  types.  Each \<^verbatim>\<open>create_\<close> function builds a data packet with one element per field and
  remembers where the payloads lie (\<^verbatim>\<open>indexes\<close>); \<^verbatim>\<open>to_wire\<close> writes the fields to those
  offsets, \<^verbatim>\<open>from_wire\<close> reads them from received bytes.  A float is its 32-bit pattern.
\<close>

section \<open>Steps the message types share\<close>

text \<open>\<^verbatim>\<open>to_wire(&buff)\<close> on an object, so the pointer is not null.\<close>

definition to_wire_buff :: "data_buffer \<Rightarrow> data_buffer res" where
  "to_wire_buff b = bindR (to_wire (Some b))
     (\<lambda>(_, b'). case b' of Some x \<Rightarrow> Inr x | None \<Rightarrow> Inl Null_Deref)"

text \<open>\<^verbatim>\<open>serialize_data(&buff, &v, sizeof(v), t)\<close> with the returned code ignored.\<close>

definition add_word :: "data_buffer \<Rightarrow> u32 \<Rightarrow> u8 \<Rightarrow> u8 \<Rightarrow> data_buffer res" where
  "add_word b v num_bytes type_code =
     bindR (serialize_data b (Some (le_bytes v)) num_bytes type_code) (\<lambda>(_, b'). Inr b')"

text \<open>
  \<^verbatim>\<open>(size_t)(get_data(buff.data, &v, i).data - buff.data)\<close>: the variable afterwards and
  the offset; a null \<^verbatim>\<open>data\<close> pointer makes the difference undefined.
\<close>

definition read_index :: "data_buffer \<Rightarrow> u32 \<Rightarrow> nat \<Rightarrow> (u32 \<times> nat) res" where
  "read_index b v i =
     bindR (get_data (Some (db_data b)) (Some (le_bytes v)) i) (\<lambda>(_, el, dst).
       case (el_data el, dst) of
         (Some off, Some v') \<Rightarrow> Inr (le_word v', off)
       | _ \<Rightarrow> Inl Null_Deref)"

text \<open>Consecutive assignments \<^verbatim>\<open>*(float* )(data + offset) = field\<close>.\<close>

fun store_all :: "bytes \<Rightarrow> (nat \<times> u32) list \<Rightarrow> bytes res" where
  "store_all d [] = Inr d"
| "store_all d ((p, w) # ps) = bindR (store_word d p w) (\<lambda>d'. store_all d' ps)"

section \<open>Velocity commands\<close>

record cmd_vel =
  cv_lin :: float32
  cv_ang :: float32
  cv_indexes :: "nat list"
  cv_buff :: data_buffer

definition create_cmd_vel :: "cmd_vel res" where
  "create_cmd_vel =
     (let lin = 0; ang = 0 in
      bindR (create_buffer (Some zero_data_buffer)) (\<lambda>buff.
      bindR (add_word buff lin 4 FLOAT) (\<lambda>buff.
      bindR (add_word buff ang 4 FLOAT) (\<lambda>buff.
      bindR (to_wire_buff buff) (\<lambda>buff.
      bindR (read_index buff lin 0) (\<lambda>(lin, i0).
      bindR (read_index buff ang 1) (\<lambda>(ang, i1).
        Inr \<lparr>cv_lin = lin, cv_ang = ang, cv_indexes = [i0, i1], cv_buff = buff\<rparr>)))))))"

definition cmd_vel_to_wire :: "cmd_vel \<Rightarrow> (int \<times> cmd_vel) res" where
  "cmd_vel_to_wire vel =
     bindR (store_all (db_data (cv_buff vel))
       [(cv_indexes vel ! 0, cv_lin vel), (cv_indexes vel ! 1, cv_ang vel)]) (\<lambda>d.
     Inr (1, vel\<lparr>cv_buff := (cv_buff vel)\<lparr>db_data := d\<rparr>\<rparr>))"

definition cmd_vel_from_wire :: "cmd_vel \<Rightarrow> bytes \<Rightarrow> (int \<times> cmd_vel) res" where
  "cmd_vel_from_wire vel data =
     bindR (load_word data (cv_indexes vel ! 0)) (\<lambda>lin.
     bindR (load_word data (cv_indexes vel ! 1)) (\<lambda>ang.
       Inr (1, vel\<lparr>cv_lin := lin, cv_ang := ang\<rparr>)))"

section \<open>Values from the micro-controller\<close>

record teensy_msg =
  te_lin :: float32
  te_ang :: float32
  te_indexes :: "nat list"
  te_buff :: data_buffer

text \<open>The second field is declared with \<^verbatim>\<open>sizeof(int16_t)\<close> bytes.\<close>

definition create_teensy_msg :: "teensy_msg res" where
  "create_teensy_msg =
     (let lin = 0; ang = 0 in
      bindR (create_buffer (Some zero_data_buffer)) (\<lambda>buff.
      bindR (add_word buff lin 4 FLOAT) (\<lambda>buff.
      bindR (add_word buff ang 2 FLOAT) (\<lambda>buff.
      bindR (to_wire_buff buff) (\<lambda>buff.
      bindR (read_index buff lin 0) (\<lambda>(lin, i0).
      bindR (read_index buff ang 1) (\<lambda>(ang, i1).
        Inr \<lparr>te_lin = lin, te_ang = ang, te_indexes = [i0, i1], te_buff = buff\<rparr>)))))))"

definition teensy_msg_to_wire :: "teensy_msg \<Rightarrow> (int \<times> teensy_msg) res" where
  "teensy_msg_to_wire msg =
     bindR (store_all (db_data (te_buff msg))
       [(te_indexes msg ! 1, te_ang msg), (te_indexes msg ! 0, te_lin msg)]) (\<lambda>d.
     Inr (1, msg\<lparr>te_buff := (te_buff msg)\<lparr>db_data := d\<rparr>\<rparr>))"

definition teensy_msg_from_wire :: "teensy_msg \<Rightarrow> bytes \<Rightarrow> (int \<times> teensy_msg) res" where
  "teensy_msg_from_wire msg data =
     bindR (load_word data (te_indexes msg ! 0)) (\<lambda>lin.
     bindR (load_word data (te_indexes msg ! 1)) (\<lambda>ang.
       Inr (1, msg\<lparr>te_lin := lin, te_ang := ang\<rparr>)))"

section \<open>The state of the path\<close>

record path_state =
  pa_x :: float32
  pa_y :: float32
  pa_theta :: float32
  pa_v :: float32
  pa_w :: float32
  pa_indexes :: "nat list"
  pa_buff :: data_buffer

definition create_path_state :: "path_state res" where
  "create_path_state =
     (let x = 0; y = 0; theta = 0; v = 0; w = 0 in
      bindR (create_buffer (Some zero_data_buffer)) (\<lambda>buff.
      bindR (add_word buff x 4 FLOAT) (\<lambda>buff.
      bindR (add_word buff y 4 FLOAT) (\<lambda>buff.
      bindR (add_word buff theta 4 FLOAT) (\<lambda>buff.
      bindR (add_word buff v 4 FLOAT) (\<lambda>buff.
      bindR (add_word buff w 4 FLOAT) (\<lambda>buff.
      bindR (to_wire_buff buff) (\<lambda>buff.
      bindR (read_index buff x 0) (\<lambda>(x, i0).
      bindR (read_index buff y 1) (\<lambda>(y, i1).
      bindR (read_index buff theta 2) (\<lambda>(theta, i2).
      bindR (read_index buff v 3) (\<lambda>(v, i3).
      bindR (read_index buff w 4) (\<lambda>(w, i4).
        Inr \<lparr>pa_x = x, pa_y = y, pa_theta = theta, pa_v = v, pa_w = w,
          pa_indexes = [i0, i1, i2, i3, i4], pa_buff = buff\<rparr>)))))))))))))"

definition path_state_to_wire :: "path_state \<Rightarrow> (int \<times> path_state) res" where
  "path_state_to_wire path =
     bindR (store_all (db_data (pa_buff path))
       [(pa_indexes path ! 0, pa_x path), (pa_indexes path ! 1, pa_y path),
        (pa_indexes path ! 2, pa_theta path), (pa_indexes path ! 3, pa_v path),
        (pa_indexes path ! 4, pa_w path)]) (\<lambda>d.
     Inr (1, path\<lparr>pa_buff := (pa_buff path)\<lparr>db_data := d\<rparr>\<rparr>))"

definition path_state_from_wire :: "path_state \<Rightarrow> bytes \<Rightarrow> (int \<times> path_state) res" where
  "path_state_from_wire msg data =
     bindR (load_word data (pa_indexes msg ! 0)) (\<lambda>x.
     bindR (load_word data (pa_indexes msg ! 1)) (\<lambda>y.
     bindR (load_word data (pa_indexes msg ! 2)) (\<lambda>theta.
     bindR (load_word data (pa_indexes msg ! 3)) (\<lambda>v.
     bindR (load_word data (pa_indexes msg ! 4)) (\<lambda>w.
       Inr (1, msg\<lparr>pa_x := x, pa_y := y, pa_theta := theta, pa_v := v, pa_w := w\<rparr>))))))"

section \<open>Sensor messages\<close>

definition TEENSY_MSG :: u32 where [const_simps]: "TEENSY_MSG = 1"
definition CAMERA_MESSAGE :: u32 where [const_simps]: "CAMERA_MESSAGE = 2"

record sensor_msg =
  se_type :: u32
  se_indexes :: "nat list"
  se_buff :: data_buffer

definition create_sensor_msg :: "sensor_msg res" where
  "create_sensor_msg =
     (let type = 0 in
      bindR (create_buffer (Some zero_data_buffer)) (\<lambda>buff.
      bindR (add_word buff type 4 INT32) (\<lambda>buff.
      bindR (to_wire_buff buff) (\<lambda>buff.
      bindR (read_index buff type 0) (\<lambda>(type, i0).
        Inr \<lparr>se_type = type, se_indexes = [i0], se_buff = buff\<rparr>)))))"

definition sensor_msg_from_wire :: "sensor_msg \<Rightarrow> bytes \<Rightarrow> (int \<times> sensor_msg) res" where
  "sensor_msg_from_wire msg data =
     bindR (load_word data (se_indexes msg ! 0)) (\<lambda>id.
       if id = CAMERA_MESSAGE then Inr (sint CAMERA_MESSAGE, msg\<lparr>se_type := CAMERA_MESSAGE\<rparr>)
       else if id = TEENSY_MSG then Inr (sint TEENSY_MSG, msg\<lparr>se_type := TEENSY_MSG\<rparr>)
       else Inr (-1, msg))"

subsection \<open>The micro-controller's odometry\<close>

record teensy_sensor_array =
  ta_v :: float32
  ta_w :: float32
  ta_dt :: float32
  ta_indexes :: "nat list"
  ta_msg :: sensor_msg

definition create_teensy_sensor_array :: "teensy_sensor_array res" where
  "create_teensy_sensor_array =
     (let v = 0; w = 0; dt = 0 in
      bindR create_sensor_msg (\<lambda>msg.
      bindR (add_word (se_buff msg) v 4 FLOAT) (\<lambda>buff.
      bindR (add_word buff w 4 FLOAT) (\<lambda>buff.
      bindR (add_word buff dt 4 FLOAT) (\<lambda>buff.
      bindR (to_wire_buff buff) (\<lambda>buff.
      bindR (read_index buff v 1) (\<lambda>(v, i0).
      bindR (read_index buff w 2) (\<lambda>(w, i1).
      bindR (read_index buff dt 3) (\<lambda>(dt, i2).
        Inr \<lparr>ta_v = v, ta_w = w, ta_dt = dt, ta_indexes = [i0, i1, i2, 0],
          ta_msg = msg\<lparr>se_type := TEENSY_MSG, se_buff := buff\<rparr>\<rparr>)))))))))"

definition teensy_sensor_array_to_wire :: "teensy_sensor_array \<Rightarrow> (int \<times> teensy_sensor_array) res" where
  "teensy_sensor_array_to_wire msg =
     bindR (store_all (db_data (se_buff (ta_msg msg)))
       [(se_indexes (ta_msg msg) ! 0, se_type (ta_msg msg)), (ta_indexes msg ! 0, ta_v msg),
        (ta_indexes msg ! 1, ta_w msg), (ta_indexes msg ! 2, ta_dt msg)]) (\<lambda>d.
     Inr (1, msg\<lparr>ta_msg := (ta_msg msg)\<lparr>se_buff := (se_buff (ta_msg msg))\<lparr>db_data := d\<rparr>\<rparr>\<rparr>))"

definition teensy_sensor_array_from_wire ::
    "teensy_sensor_array \<Rightarrow> bytes \<Rightarrow> (int \<times> teensy_sensor_array) res" where
  "teensy_sensor_array_from_wire msg data =
     bindR (load_word data (se_indexes (ta_msg msg) ! 0)) (\<lambda>id.
       if id \<noteq> TEENSY_MSG then Inr (-1, msg)
       else
         bindR (load_word data (ta_indexes msg ! 0)) (\<lambda>v.
         bindR (load_word data (ta_indexes msg ! 1)) (\<lambda>w.
         bindR (load_word data (ta_indexes msg ! 2)) (\<lambda>dt.
           Inr (1, msg\<lparr>ta_v := v, ta_w := w, ta_dt := dt\<rparr>)))))"

subsection \<open>The camera's position\<close>

record camera_msg =
  ca_x :: float32
  ca_y :: float32
  ca_theta :: float32
  ca_dt :: float32
  ca_indexes :: "nat list"
  ca_msg :: sensor_msg

text \<open>
  Four fields are appended, three offsets are stored; the initialiser leaves the
  other entries of \<^verbatim>\<open>indexes\<close> zero.  The variables that \<^verbatim>\<open>get_data\<close> fills are those
  the source names, one field further than the element read.
\<close>

definition create_camera_msg :: "camera_msg res" where
  "create_camera_msg =
     (let x = 0; y = 0; theta = 0; dt = 0 in
      bindR create_sensor_msg (\<lambda>msg.
      bindR (add_word (se_buff msg) x 4 FLOAT) (\<lambda>buff.
      bindR (add_word buff y 4 FLOAT) (\<lambda>buff.
      bindR (add_word buff theta 4 FLOAT) (\<lambda>buff.
      bindR (add_word buff dt 4 FLOAT) (\<lambda>buff.
      bindR (to_wire_buff buff) (\<lambda>buff.
      bindR (read_index buff y 1) (\<lambda>(y, i0).
      bindR (read_index buff theta 2) (\<lambda>(theta, i1).
      bindR (read_index buff dt 3) (\<lambda>(dt, i2).
        Inr \<lparr>ca_x = x, ca_y = y, ca_theta = theta, ca_dt = dt, ca_indexes = [i0, i1, i2, 0, 0],
          ca_msg = msg\<lparr>se_type := CAMERA_MESSAGE, se_buff := buff\<rparr>\<rparr>))))))))))"

definition camera_msg_to_wire :: "camera_msg \<Rightarrow> (int \<times> camera_msg) res" where
  "camera_msg_to_wire msg =
     bindR (store_all (db_data (se_buff (ca_msg msg)))
       [(se_indexes (ca_msg msg) ! 0, se_type (ca_msg msg)), (ca_indexes msg ! 0, ca_x msg),
        (ca_indexes msg ! 1, ca_y msg), (ca_indexes msg ! 2, ca_theta msg),
        (ca_indexes msg ! 3, ca_dt msg)]) (\<lambda>d.
     Inr (1, msg\<lparr>ca_msg := (ca_msg msg)\<lparr>se_buff := (se_buff (ca_msg msg))\<lparr>db_data := d\<rparr>\<rparr>\<rparr>))"

definition camera_msg_from_wire :: "camera_msg \<Rightarrow> bytes \<Rightarrow> (int \<times> camera_msg) res" where
  "camera_msg_from_wire msg data =
     bindR (load_word data (se_indexes (ca_msg msg) ! 0)) (\<lambda>id.
       if id \<noteq> CAMERA_MESSAGE then Inr (-1, msg)
       else
         bindR (load_word data (ca_indexes msg ! 0)) (\<lambda>x.
         bindR (load_word data (ca_indexes msg ! 1)) (\<lambda>y.
         bindR (load_word data (ca_indexes msg ! 2)) (\<lambda>theta.
         bindR (load_word data (ca_indexes msg ! 3)) (\<lambda>dt.
           Inr (1, msg\<lparr>ca_x := x, ca_y := y, ca_theta := theta, ca_dt := dt\<rparr>))))))"

section \<open>What the constructors build\<close>

text \<open>The packet of a constructor: its length, number of fields and bytes.\<close>

definition packet :: "u32 \<Rightarrow> u16 \<Rightarrow> bytes \<Rightarrow> data_buffer" where
  "packet byte_length n d =
     \<lparr>db_protocol_version = 1, db_opcode = 1, db_functional_flags = 0, db_checksum = 0,
      db_byte_length = byte_length, db_fields = n,
      db_data = [1, 1, 0, 0, 0, 0] @ le_bytes byte_length @ le_bytes n @ [0] @ d @
        replicate (243 - length d) 0, db_serialize_flags = 0\<rparr>"

lemma create_cmd_vel_eq:
  "create_cmd_vel = Inr \<lparr>cv_lin = 0, cv_ang = 0, cv_indexes = [15, 22],
     cv_buff = packet 27 2 [4, FLOAT, 0, 0, 0, 0, 0, 4, FLOAT, 0, 0, 0, 0, 0]\<rparr>"
  by code_simp

lemma create_teensy_msg_eq:
  "create_teensy_msg = Inr \<lparr>te_lin = 0, te_ang = 0, te_indexes = [15, 22],
     te_buff = packet 25 2 [4, FLOAT, 0, 0, 0, 0, 0, 2, FLOAT, 0, 0, 0, 0, 0]\<rparr>"
  by code_simp

lemma create_path_state_eq:
  "create_path_state = Inr \<lparr>pa_x = 0, pa_y = 0, pa_theta = 0, pa_v = 0, pa_w = 0,
     pa_indexes = [15, 22, 29, 36, 43],
     pa_buff = packet 48 5 (concat (replicate 5 [4, FLOAT, 0, 0, 0, 0, 0]))\<rparr>"
  by code_simp

lemma create_sensor_msg_eq:
  "create_sensor_msg = Inr \<lparr>se_type = 0, se_indexes = [15],
     se_buff = packet 20 1 [4, INT32, 0, 0, 0, 0, 0]\<rparr>"
  by code_simp

lemma create_teensy_sensor_array_eq:
  "create_teensy_sensor_array = Inr \<lparr>ta_v = 0, ta_w = 0, ta_dt = 0, ta_indexes = [22, 29, 36, 0],
     ta_msg = \<lparr>se_type = TEENSY_MSG, se_indexes = [15],
       se_buff = packet 41 4 ([4, INT32, 0, 0, 0, 0, 0] @
         concat (replicate 3 [4, FLOAT, 0, 0, 0, 0, 0]))\<rparr>\<rparr>"
  by code_simp

lemma create_camera_msg_eq:
  "create_camera_msg = Inr \<lparr>ca_x = 0, ca_y = 0, ca_theta = 0, ca_dt = 0,
     ca_indexes = [22, 29, 36, 0, 0],
     ca_msg = \<lparr>se_type = CAMERA_MESSAGE, se_indexes = [15],
       se_buff = packet 48 5 ([4, INT32, 0, 0, 0, 0, 0] @
         concat (replicate 4 [4, FLOAT, 0, 0, 0, 0, 0]))\<rparr>\<rparr>"
  by code_simp

lemma length_packet [simp]: "length d \<le> 243 \<Longrightarrow> length (db_data (packet l f d)) = 256"
  by (simp add: packet_def)

section \<open>Stores to disjoint fields\<close>

definition spaced :: "(nat \<times> u32) list \<Rightarrow> bool" where
  "spaced ps \<longleftrightarrow> sorted_wrt (\<lambda>p q. fst p + 4 \<le> fst q \<or> fst q + 4 \<le> fst p) ps"

lemma store_all_Inr:
  assumes "\<forall>p \<in> set ps. fst p + 4 \<le> length d"
  shows "\<exists>d'. store_all d ps = Inr d' \<and> length d' = length d"
  using assms
proof (induction ps arbitrary: d)
  case Nil
  then show ?case by simp
next
  case (Cons p ps)
  obtain q w where p: "p = (q, w)" by fastforce
  with Cons.prems obtain d1 where "store_word d q w = Inr d1"
    using store_word_Inr [of q d, where 'a = 32] by auto
  with p Cons.prems Cons.IH [of d1] store_word_length [OF this] show ?case by simp
qed

lemma store_all_untouched:
  assumes "store_all d ps = Inr d'" and "\<forall>p \<in> set ps. fst p + 4 \<le> q \<or> q + 4 \<le> fst p"
  shows "(load_word d' q :: u32 res) = load_word d q"
  using assms
proof (induction ps arbitrary: d)
  case Nil
  then show ?case by simp
next
  case (Cons p ps)
  obtain r w where p: "p = (r, w)" by fastforce
  with Cons.prems obtain d1 where d1: "store_word d r w = Inr d1" "store_all d1 ps = Inr d'"
    by (auto simp: bindR_eq_Inr)
  have "(load_word d1 q :: u32 res) = load_word d q"
    using Cons.prems(2) p by (intro load_word_store_disjoint [OF d1(1)]) auto
  with Cons d1 p show ?case by simp
qed

lemma store_all_load:
  assumes "store_all d ps = Inr d'" and "spaced ps" and "(q, w) \<in> set ps"
  shows "load_word d' q = Inr w"
  using assms
proof (induction ps arbitrary: d)
  case Nil
  then show ?case by simp
next
  case (Cons p ps)
  obtain r u where p: "p = (r, u)" by fastforce
  with Cons.prems obtain d1 where d1: "store_word d r u = Inr d1" "store_all d1 ps = Inr d'"
    by (auto simp: bindR_eq_Inr)
  show ?case
  proof (cases "(q, w) = p")
    case True
    have "load_word d1 r = Inr u" using load_word_store_same [OF d1(1)] by simp
    moreover have "\<forall>p' \<in> set ps. fst p' + 4 \<le> r \<or> r + 4 \<le> fst p'"
      using Cons.prems(2) p by (auto simp: spaced_def)
    ultimately show ?thesis using True p store_all_untouched [OF d1(2)] by simp
  next
    case False
    then have "(q, w) \<in> set ps" using Cons.prems(3) by auto
    with Cons.IH [OF d1(2)] Cons.prems(2) show ?thesis by (simp add: spaced_def)
  qed
qed

lemma load_word_append:
  "p + LENGTH('a) div 8 \<le> length d \<Longrightarrow> (load_word (d @ rest) p :: 'a::len word res) = load_word d p"
  by (simp add: load_word_def load_def)

text \<open>The two facts a message type needs of its stores.\<close>

lemma store_all_frame:
  assumes "length d = 256" and "spaced ps" and "\<forall>p \<in> set ps. fst p + 4 \<le> 256"
  obtains d' where "store_all d ps = Inr d'" and "length d' = 256"
    and "\<And>q w rest. (q, w) \<in> set ps \<Longrightarrow> load_word (d' @ rest) q = Inr w"
proof -
  obtain d' where d': "store_all d ps = Inr d'" "length d' = 256"
    using store_all_Inr [of ps d] assms by auto
  moreover have "load_word (d' @ rest) q = Inr w" if "(q, w) \<in> set ps" for q w rest
  proof -
    have "q + 4 \<le> length d'" using assms(3) that d'(2) by auto
    then show ?thesis using store_all_load [OF d'(1) assms(2) that] by (simp add: load_word_append)
  qed
  ultimately show thesis using that by blast
qed

section \<open>Exchanges of messages\<close>

text \<open>
  How the programs use a message type: a sender writes its message and ships the bytes, a
  receiver reads them.  \<open>relay\<close> is a chain of stations, each reading the bytes of the previous
  one and sending its own; \<open>receive_all\<close> is one receiver of several messages.
\<close>

definition send :: "('m \<Rightarrow> (int \<times> 'm) res) \<Rightarrow> ('m \<Rightarrow> bytes \<Rightarrow> (int \<times> 'm) res) \<Rightarrow> ('m \<Rightarrow> bytes) \<Rightarrow>
    'm \<Rightarrow> 'm \<Rightarrow> 'm res" where
  "send towire fromwire wire m n =
     bindR (towire m) (\<lambda>(_, m'). bindR (fromwire n (wire m')) (\<lambda>(_, n'). Inr n'))"

fun relay :: "('m \<Rightarrow> (int \<times> 'm) res) \<Rightarrow> ('m \<Rightarrow> bytes \<Rightarrow> (int \<times> 'm) res) \<Rightarrow> ('m \<Rightarrow> bytes) \<Rightarrow>
    'm \<Rightarrow> 'm list \<Rightarrow> 'm res" where
  "relay towire fromwire wire m [] = Inr m"
| "relay towire fromwire wire m (n # ns) =
     bindR (send towire fromwire wire m n) (\<lambda>n'. relay towire fromwire wire n' ns)"

fun receive_all :: "('m \<Rightarrow> (int \<times> 'm) res) \<Rightarrow> ('m \<Rightarrow> bytes \<Rightarrow> (int \<times> 'm) res) \<Rightarrow> ('m \<Rightarrow> bytes) \<Rightarrow>
    'm \<Rightarrow> 'm list \<Rightarrow> 'm res" where
  "receive_all towire fromwire wire n [] = Inr n"
| "receive_all towire fromwire wire n (m # ms) =
     bindR (send towire fromwire wire m n) (\<lambda>n'. receive_all towire fromwire wire n' ms)"

section \<open>The contract of a message type\<close>

text \<open>
  Every message type promises the same to its users: on well-formed messages
  \<^verbatim>\<open>to_wire\<close> succeeds and keeps the payload, and whatever the receiving message held,
  reading the sender's bytes with \<^verbatim>\<open>from_wire\<close> gives it the sender's payload.
\<close>

locale wire_message =
  fixes wf :: "'m \<Rightarrow> bool"
    and payload :: "'m \<Rightarrow> 'p"
    and wire :: "'m \<Rightarrow> bytes"
    and towire :: "'m \<Rightarrow> (int \<times> 'm) res"
    and fromwire :: "'m \<Rightarrow> bytes \<Rightarrow> (int \<times> 'm) res"
  assumes towire_ok: "wf m \<Longrightarrow> \<exists>m'. towire m = Inr (1, m') \<and> wf m' \<and> payload m' = payload m"
    and from_to: "wf m \<Longrightarrow> wf n \<Longrightarrow> towire m = Inr (1, m') \<Longrightarrow>
      \<exists>n'. fromwire n (wire m' @ rest) = Inr (1, n') \<and> wf n' \<and> payload n' = payload m"
begin

lemma send_ok:
  "wf m \<Longrightarrow> wf n \<Longrightarrow>
    \<exists>n'. send towire fromwire wire m n = Inr n' \<and> wf n' \<and> payload n' = payload m"
  using towire_ok [of m] from_to [of m n _ "[]"] by (fastforce simp: send_def)

lemma relay_ok:
  "wf m \<Longrightarrow> \<forall>n \<in> set ns. wf n \<Longrightarrow>
    \<exists>r. relay towire fromwire wire m ns = Inr r \<and> wf r \<and> payload r = payload m"
proof (induction ns arbitrary: m)
  case Nil
  then show ?case by simp
next
  case (Cons n ns)
  then obtain n' where "send towire fromwire wire m n = Inr n'" "wf n'" "payload n' = payload m"
    using send_ok by force
  with Cons show ?case by (metis bindR_Inr list.set_intros(2) relay.simps(2))
qed

lemma receive_all_last:
  "wf n \<Longrightarrow> \<forall>m \<in> set ms. wf m \<Longrightarrow>
    \<exists>r. receive_all towire fromwire wire n ms = Inr r \<and> wf r \<and>
      payload r = payload (last (n # ms))"
proof (induction ms arbitrary: n)
  case Nil
  then show ?case by simp
next
  case (Cons m ms)
  then obtain n' where n': "send towire fromwire wire m n = Inr n'" "wf n'" "payload n' = payload m"
    using send_ok by force
  with Cons show ?case by (cases ms) auto
qed

end

subsection \<open>The message types of the robot\<close>

definition wf_cmd_vel :: "cmd_vel \<Rightarrow> bool" where
  "wf_cmd_vel m \<longleftrightarrow> cv_indexes m = [15, 22] \<and> length (db_data (cv_buff m)) = MESSAGE_SIZE"

definition cmd_vel_payload :: "cmd_vel \<Rightarrow> float32 list" where
  "cmd_vel_payload m = [cv_lin m, cv_ang m]"

definition wf_teensy_msg :: "teensy_msg \<Rightarrow> bool" where
  "wf_teensy_msg m \<longleftrightarrow> te_indexes m = [15, 22] \<and> length (db_data (te_buff m)) = MESSAGE_SIZE"

definition teensy_msg_payload :: "teensy_msg \<Rightarrow> float32 list" where
  "teensy_msg_payload m = [te_lin m, te_ang m]"

definition wf_path_state :: "path_state \<Rightarrow> bool" where
  "wf_path_state m \<longleftrightarrow>
     pa_indexes m = [15, 22, 29, 36, 43] \<and> length (db_data (pa_buff m)) = MESSAGE_SIZE"

definition path_state_payload :: "path_state \<Rightarrow> float32 list" where
  "path_state_payload m = [pa_x m, pa_y m, pa_theta m, pa_v m, pa_w m]"

definition wf_teensy_sensor_array :: "teensy_sensor_array \<Rightarrow> bool" where
  "wf_teensy_sensor_array m \<longleftrightarrow>
     ta_indexes m = [22, 29, 36, 0] \<and> se_indexes (ta_msg m) = [15] \<and>
     se_type (ta_msg m) = TEENSY_MSG \<and> length (db_data (se_buff (ta_msg m))) = MESSAGE_SIZE"

definition teensy_sensor_array_payload :: "teensy_sensor_array \<Rightarrow> float32 list" where
  "teensy_sensor_array_payload m = [ta_v m, ta_w m, ta_dt m]"

definition wf_camera_msg :: "camera_msg \<Rightarrow> bool" where
  "wf_camera_msg m \<longleftrightarrow>
     ca_indexes m = [22, 29, 36, 0, 0] \<and> se_indexes (ca_msg m) = [15] \<and>
     se_type (ca_msg m) = CAMERA_MESSAGE \<and> length (db_data (se_buff (ca_msg m))) = MESSAGE_SIZE"

definition camera_msg_payload :: "camera_msg \<Rightarrow> float32 list" where
  "camera_msg_payload m = [ca_x m, ca_y m, ca_theta m, ca_dt m]"

lemmas wf_message_defs = wf_cmd_vel_def wf_teensy_msg_def wf_path_state_def
  wf_teensy_sensor_array_def wf_camera_msg_def data_positions

lemmas payload_defs = cmd_vel_payload_def teensy_msg_payload_def path_state_payload_def
  teensy_sensor_array_payload_def camera_msg_payload_def

lemmas to_wire_defs = cmd_vel_to_wire_def teensy_msg_to_wire_def path_state_to_wire_def
  teensy_sensor_array_to_wire_def camera_msg_to_wire_def

lemmas from_wire_defs = cmd_vel_from_wire_def teensy_msg_from_wire_def path_state_from_wire_def
  teensy_sensor_array_from_wire_def camera_msg_from_wire_def

lemma cmd_vel_to_wire_spec:
  assumes "wf_cmd_vel m"
  obtains d where "cmd_vel_to_wire m = Inr (1, m\<lparr>cv_buff := (cv_buff m)\<lparr>db_data := d\<rparr>\<rparr>)"
    and "length d = 256" and "\<And>rest. load_word (d @ rest) 15 = Inr (cv_lin m)"
    and "\<And>rest. load_word (d @ rest) 22 = Inr (cv_ang m)"
proof (rule store_all_frame [of "db_data (cv_buff m)"
      "[(15, cv_lin m), (22, cv_ang m)]"])
  show "length (db_data (cv_buff m)) = 256" using assms by (simp add: wf_message_defs)
  fix d'
  assume d': "store_all (db_data (cv_buff m)) [(15, cv_lin m), (22, cv_ang m)] = Inr d'" "length d' = 256"
    and ld: "\<And>q w rest. (q, w) \<in> set [(15, cv_lin m), (22, cv_ang m)] \<Longrightarrow> load_word (d' @ rest) q = Inr w"
  show thesis
    by (rule that [of d']) (use assms d' in \<open>simp_all add: cmd_vel_to_wire_def wf_message_defs ld\<close>)
qed (simp_all add: spaced_def)

lemma teensy_msg_to_wire_spec:
  assumes "wf_teensy_msg m"
  obtains d where "teensy_msg_to_wire m = Inr (1, m\<lparr>te_buff := (te_buff m)\<lparr>db_data := d\<rparr>\<rparr>)"
    and "length d = 256" and "\<And>rest. load_word (d @ rest) 15 = Inr (te_lin m)"
    and "\<And>rest. load_word (d @ rest) 22 = Inr (te_ang m)"
proof (rule store_all_frame [of "db_data (te_buff m)"
      "[(22, te_ang m), (15, te_lin m)]"])
  show "length (db_data (te_buff m)) = 256" using assms by (simp add: wf_message_defs)
  fix d'
  assume d': "store_all (db_data (te_buff m)) [(22, te_ang m), (15, te_lin m)] = Inr d'" "length d' = 256"
    and ld: "\<And>q w rest. (q, w) \<in> set [(22, te_ang m), (15, te_lin m)] \<Longrightarrow> load_word (d' @ rest) q = Inr w"
  show thesis
    by (rule that [of d']) (use assms d' in \<open>simp_all add: teensy_msg_to_wire_def wf_message_defs ld\<close>)
qed (simp_all add: spaced_def)

lemma path_state_to_wire_spec:
  assumes "wf_path_state m"
  obtains d where "path_state_to_wire m = Inr (1, m\<lparr>pa_buff := (pa_buff m)\<lparr>db_data := d\<rparr>\<rparr>)"
    and "length d = 256" and "\<And>rest. load_word (d @ rest) 15 = Inr (pa_x m)"
    and "\<And>rest. load_word (d @ rest) 22 = Inr (pa_y m)"
    and "\<And>rest. load_word (d @ rest) 29 = Inr (pa_theta m)"
    and "\<And>rest. load_word (d @ rest) 36 = Inr (pa_v m)"
    and "\<And>rest. load_word (d @ rest) 43 = Inr (pa_w m)"
proof (rule store_all_frame [of "db_data (pa_buff m)"
      "[(15, pa_x m), (22, pa_y m), (29, pa_theta m), (36, pa_v m), (43, pa_w m)]"])
  show "length (db_data (pa_buff m)) = 256" using assms by (simp add: wf_message_defs)
  fix d'
  assume d': "store_all (db_data (pa_buff m)) [(15, pa_x m), (22, pa_y m), (29, pa_theta m), (36, pa_v m), (43, pa_w m)] = Inr d'" "length d' = 256"
    and ld: "\<And>q w rest. (q, w) \<in> set [(15, pa_x m), (22, pa_y m), (29, pa_theta m), (36, pa_v m), (43, pa_w m)] \<Longrightarrow> load_word (d' @ rest) q = Inr w"
  show thesis
    by (rule that [of d']) (use assms d' in \<open>simp_all add: path_state_to_wire_def wf_message_defs ld\<close>)
qed (simp_all add: spaced_def)

lemma teensy_sensor_array_to_wire_spec:
  assumes "wf_teensy_sensor_array m"
  obtains d where "teensy_sensor_array_to_wire m =
      Inr (1, m\<lparr>ta_msg := (ta_msg m)\<lparr>se_buff := (se_buff (ta_msg m))\<lparr>db_data := d\<rparr>\<rparr>\<rparr>)"
    and "length d = 256" and "\<And>rest. load_word (d @ rest) 15 = Inr TEENSY_MSG"
    and "\<And>rest. load_word (d @ rest) 22 = Inr (ta_v m)"
    and "\<And>rest. load_word (d @ rest) 29 = Inr (ta_w m)"
    and "\<And>rest. load_word (d @ rest) 36 = Inr (ta_dt m)"
proof (rule store_all_frame [of "db_data (se_buff (ta_msg m))"
      "[(15, TEENSY_MSG), (22, ta_v m), (29, ta_w m), (36, ta_dt m)]"])
  show "length (db_data (se_buff (ta_msg m))) = 256" using assms by (simp add: wf_message_defs)
  fix d'
  assume d': "store_all (db_data (se_buff (ta_msg m))) [(15, TEENSY_MSG), (22, ta_v m), (29, ta_w m), (36, ta_dt m)] = Inr d'" "length d' = 256"
    and ld: "\<And>q w rest. (q, w) \<in> set [(15, TEENSY_MSG), (22, ta_v m), (29, ta_w m), (36, ta_dt m)] \<Longrightarrow> load_word (d' @ rest) q = Inr w"
  show thesis
    by (rule that [of d']) (use assms d' in \<open>simp_all add: teensy_sensor_array_to_wire_def wf_message_defs ld\<close>)
qed (simp_all add: spaced_def)

lemma camera_msg_to_wire_spec:
  assumes "wf_camera_msg m"
  obtains d where "camera_msg_to_wire m =
      Inr (1, m\<lparr>ca_msg := (ca_msg m)\<lparr>se_buff := (se_buff (ca_msg m))\<lparr>db_data := d\<rparr>\<rparr>\<rparr>)"
    and "length d = 256" and "\<And>rest. load_word (d @ rest) 15 = Inr CAMERA_MESSAGE"
    and "\<And>rest. load_word (d @ rest) 22 = Inr (ca_x m)"
    and "\<And>rest. load_word (d @ rest) 29 = Inr (ca_y m)"
    and "\<And>rest. load_word (d @ rest) 36 = Inr (ca_theta m)"
    and "\<And>rest. load_word (d @ rest) 0 = Inr (ca_dt m)"
proof (rule store_all_frame [of "db_data (se_buff (ca_msg m))"
      "[(15, CAMERA_MESSAGE), (22, ca_x m), (29, ca_y m), (36, ca_theta m), (0, ca_dt m)]"])
  show "length (db_data (se_buff (ca_msg m))) = 256" using assms by (simp add: wf_message_defs)
  fix d'
  assume d': "store_all (db_data (se_buff (ca_msg m))) [(15, CAMERA_MESSAGE), (22, ca_x m), (29, ca_y m), (36, ca_theta m), (0, ca_dt m)] = Inr d'" "length d' = 256"
    and ld: "\<And>q w rest. (q, w) \<in> set [(15, CAMERA_MESSAGE), (22, ca_x m), (29, ca_y m), (36, ca_theta m), (0, ca_dt m)] \<Longrightarrow> load_word (d' @ rest) q = Inr w"
  show thesis
    by (rule that [of d']) (use assms d' in \<open>simp_all add: camera_msg_to_wire_def wf_message_defs ld\<close>)
qed (simp_all add: spaced_def)

interpretation cv: wire_message wf_cmd_vel cmd_vel_payload "\<lambda>m. db_data (cv_buff m)"
    cmd_vel_to_wire cmd_vel_from_wire
  by unfold_locales
    (rule cmd_vel_to_wire_spec, assumption, clarsimp simp: from_wire_defs wf_message_defs payload_defs)+

interpretation te: wire_message wf_teensy_msg teensy_msg_payload "\<lambda>m. db_data (te_buff m)"
    teensy_msg_to_wire teensy_msg_from_wire
  by unfold_locales
    (rule teensy_msg_to_wire_spec, assumption, clarsimp simp: from_wire_defs wf_message_defs payload_defs)+

interpretation pa: wire_message wf_path_state path_state_payload "\<lambda>m. db_data (pa_buff m)"
    path_state_to_wire path_state_from_wire
  by unfold_locales
    (rule path_state_to_wire_spec, assumption, clarsimp simp: from_wire_defs wf_message_defs payload_defs)+

interpretation ta: wire_message wf_teensy_sensor_array teensy_sensor_array_payload
    "\<lambda>m. db_data (se_buff (ta_msg m))" teensy_sensor_array_to_wire teensy_sensor_array_from_wire
  by unfold_locales
    (rule teensy_sensor_array_to_wire_spec, assumption, clarsimp simp: from_wire_defs wf_message_defs payload_defs)+

interpretation ca: wire_message wf_camera_msg camera_msg_payload
    "\<lambda>m. db_data (se_buff (ca_msg m))" camera_msg_to_wire camera_msg_from_wire
  by unfold_locales
    (rule camera_msg_to_wire_spec, assumption, clarsimp simp: from_wire_defs wf_message_defs payload_defs)+

text \<open>The constructors give well-formed messages.\<close>

lemma wf_created:
  "\<exists>m. create_cmd_vel = Inr m \<and> wf_cmd_vel m"
  "\<exists>m. create_teensy_msg = Inr m \<and> wf_teensy_msg m"
  "\<exists>m. create_path_state = Inr m \<and> wf_path_state m"
  "\<exists>m. create_teensy_sensor_array = Inr m \<and> wf_teensy_sensor_array m"
  "\<exists>m. create_camera_msg = Inr m \<and> wf_camera_msg m"
  by (simp_all add: create_cmd_vel_eq create_teensy_msg_eq create_path_state_eq
      create_teensy_sensor_array_eq create_camera_msg_eq wf_message_defs eval_nat_numeral)

section \<open>Properties\<close>

text \<open>
  A velocity command survives the trip between two programs that each built their own
  \<^verbatim>\<open>cmd_vel\<close>: whatever the two floats, the receiver holds them after \<^verbatim>\<open>from_wire\<close>, and
  neither function fails or leaves the message.
\<close>

theorem cmd_vel_transfer:
  "\<exists>m r. create_cmd_vel = Inr m \<and>
     send cmd_vel_to_wire cmd_vel_from_wire (\<lambda>m. db_data (cv_buff m))
       (m\<lparr>cv_lin := l, cv_ang := a\<rparr>) m = Inr r \<and> cv_lin r = l \<and> cv_ang r = a"
proof -
  obtain m where m: "create_cmd_vel = Inr m" "wf_cmd_vel m" using wf_created(1) by blast
  moreover from m have "wf_cmd_vel (m\<lparr>cv_lin := l, cv_ang := a\<rparr>)" by (simp add: wf_cmd_vel_def)
  ultimately show ?thesis using cv.send_ok [of "m\<lparr>cv_lin := l, cv_ang := a\<rparr>" m]
    by (auto simp: payload_defs)
qed

text \<open>
  Odometry and camera messages are told apart: a \<^verbatim>\<open>teensy_sensor_array\<close> that is handed
  the bytes of a camera message refuses them with -1 and keeps its state, and
  \<^verbatim>\<open>sensor_msg_from_wire\<close> names the kind of both.
\<close>

theorem sensor_kinds_distinguished:
  assumes "wf_camera_msg c" and "wf_teensy_sensor_array t" and "se_indexes s = [15]"
  shows "\<exists>c' t'. camera_msg_to_wire c = Inr (1, c') \<and> teensy_sensor_array_to_wire t = Inr (1, t') \<and>
    teensy_sensor_array_from_wire t (db_data (se_buff (ca_msg c'))) = Inr (-1, t) \<and>
    camera_msg_from_wire c (db_data (se_buff (ta_msg t'))) = Inr (-1, c) \<and>
    sensor_msg_from_wire s (db_data (se_buff (ca_msg c'))) = Inr (2, s\<lparr>se_type := CAMERA_MESSAGE\<rparr>) \<and>
    sensor_msg_from_wire s (db_data (se_buff (ta_msg t'))) = Inr (1, s\<lparr>se_type := TEENSY_MSG\<rparr>)"
proof -
  obtain d where d: "camera_msg_to_wire c =
      Inr (1, c\<lparr>ca_msg := (ca_msg c)\<lparr>se_buff := (se_buff (ca_msg c))\<lparr>db_data := d\<rparr>\<rparr>\<rparr>)"
    "\<And>rest. load_word (d @ rest) 15 = Inr CAMERA_MESSAGE"
    using camera_msg_to_wire_spec [OF assms(1)] by metis
  obtain e where e: "teensy_sensor_array_to_wire t =
      Inr (1, t\<lparr>ta_msg := (ta_msg t)\<lparr>se_buff := (se_buff (ta_msg t))\<lparr>db_data := e\<rparr>\<rparr>\<rparr>)"
    "\<And>rest. load_word (e @ rest) 15 = Inr TEENSY_MSG"
    using teensy_sensor_array_to_wire_spec [OF assms(2)] by metis
  show ?thesis
    using assms d(1) e(1) d(2) [of "[]"] e(2) [of "[]"]
    by (simp add: wf_message_defs from_wire_defs sensor_msg_from_wire_def CAMERA_MESSAGE_def
        TEENSY_MSG_def)
qed

lemma sensor_kinds_distinguished_witness:
  "\<exists>c t s. create_camera_msg = Inr c \<and> create_teensy_sensor_array = Inr t \<and>
    create_sensor_msg = Inr s \<and>
    (\<exists>c' t'. camera_msg_to_wire c = Inr (1, c') \<and> teensy_sensor_array_to_wire t = Inr (1, t') \<and>
    teensy_sensor_array_from_wire t (db_data (se_buff (ca_msg c'))) = Inr (-1, t) \<and>
    camera_msg_from_wire c (db_data (se_buff (ta_msg t'))) = Inr (-1, c) \<and>
    sensor_msg_from_wire s (db_data (se_buff (ca_msg c'))) = Inr (2, s\<lparr>se_type := CAMERA_MESSAGE\<rparr>) \<and>
    sensor_msg_from_wire s (db_data (se_buff (ta_msg t'))) = Inr (1, s\<lparr>se_type := TEENSY_MSG\<rparr>))"
proof -
  obtain c t where ct: "create_camera_msg = Inr c" "wf_camera_msg c"
    "create_teensy_sensor_array = Inr t" "wf_teensy_sensor_array t"
    using wf_created(4,5) by blast
  obtain s where s: "create_sensor_msg = Inr s" "se_indexes s = [15]"
    by (simp add: create_sensor_msg_eq)
  show ?thesis
    by (rule exI [of _ c], rule exI [of _ t], rule exI [of _ s])
      (intro conjI ct(1,3) s(1) sensor_kinds_distinguished [OF ct(2,4) s(2)])
qed

text \<open>
  A path state relayed through any number of stations, each with its own message object,
  arrives with all five fields, and a receiver of several holds the last one sent.
\<close>

theorem path_state_relay:
  assumes "wf_path_state m" and "\<forall>n \<in> set ns. wf_path_state n"
  shows "(\<exists>r. relay path_state_to_wire path_state_from_wire (\<lambda>m. db_data (pa_buff m)) m ns = Inr r \<and>
      path_state_payload r = path_state_payload m) \<and>
    (\<exists>r. receive_all path_state_to_wire path_state_from_wire (\<lambda>m. db_data (pa_buff m)) m ns = Inr r \<and>
      path_state_payload r = path_state_payload (last (m # ns)))"
  using pa.relay_ok [OF assms] pa.receive_all_last [OF assms] by blast+

lemma path_state_relay_witness:
  "\<exists>m. create_path_state = Inr m \<and>
    (\<exists>r. relay path_state_to_wire path_state_from_wire (\<lambda>m. db_data (pa_buff m))
      (m\<lparr>pa_x := 5\<rparr>) [m, m] = Inr r \<and> pa_x r = 5)"
proof -
  obtain m where m: "create_path_state = Inr m" "wf_path_state m" using wf_created(3) by blast
  then have "wf_path_state (m\<lparr>pa_x := 5\<rparr>)" by (simp add: wf_path_state_def)
  with m path_state_relay [of "m\<lparr>pa_x := 5\<rparr>" "[m, m]"] show ?thesis
    by (auto simp: payload_defs)
qed

text \<open>
  The fourth offset of a \<^verbatim>\<open>camera_msg\<close> is never set, so \<^verbatim>\<open>to_wire\<close> writes \<^verbatim>\<open>dt\<close> over the
  first four bytes of the header: the protocol version on the wire is the low byte of
  \<^verbatim>\<open>dt\<close>, and a reader that checks it sees a length of zero unless that byte is 1.  A
  \<^verbatim>\<open>camera_msg\<close> that reads the same offsets still receives all four fields.
\<close>

theorem camera_dt_overwrites_header:
  assumes "wf_camera_msg m" and "wf_camera_msg n"
  shows "\<exists>m' n'. camera_msg_to_wire m = Inr (1, m') \<and>
    get_protocol_version (db_data (se_buff (ca_msg m'))) = Inr (ucast (ca_dt m)) \<and>
    (ucast (ca_dt m) \<noteq> (1 :: u8) \<longrightarrow>
      get_header get_byte_length_impl (db_data (se_buff (ca_msg m'))) = Inr 0) \<and>
    camera_msg_from_wire n (db_data (se_buff (ca_msg m'))) = Inr (1, n') \<and>
    camera_msg_payload n' = camera_msg_payload m"
proof -
  obtain d where d: "camera_msg_to_wire m =
      Inr (1, m\<lparr>ca_msg := (ca_msg m)\<lparr>se_buff := (se_buff (ca_msg m))\<lparr>db_data := d\<rparr>\<rparr>\<rparr>)"
    "length d = 256" "\<And>rest. load_word (d @ rest) 0 = Inr (ca_dt m)"
    using camera_msg_to_wire_spec [OF assms(1)] by metis
  have ca: "(le_word (take 4 d) :: u32) = ca_dt m"
    using d(2) d(3) [of "[]"] by (simp add: load_word_def load_def)
  have "(ucast (le_word (take 1 d @ drop 1 (take 4 d)) :: u32) :: u8) = le_word (take 1 d)"
    by (rule ucast_le_word) (simp_all add: d(2))
  moreover have "take 1 d @ drop 1 (take 4 d) = take 4 d"
    using append_take_drop_id [of 1 "take 4 d"] by (simp add: min_def)
  ultimately have v: "get_protocol_version d = Inr (ucast (ca_dt m))"
    using d(2) ca by (simp add: get_protocol_version_def load_word_def load_def)
  then have "ucast (ca_dt m) \<noteq> (1 :: u8) \<longrightarrow> get_header get_byte_length_impl d = Inr 0"
    by (simp add: get_header_def get_byte_length_impl_def)
  moreover obtain n' where "camera_msg_from_wire n (d @ []) = Inr (1, n')"
      "camera_msg_payload n' = camera_msg_payload m"
    using ca.from_to [OF assms d(1), of "[]"] by auto
  ultimately show ?thesis using d(1) v by simp
qed

lemma camera_dt_overwrites_header_witness:
  "\<exists>c m'. create_camera_msg = Inr c \<and> camera_msg_to_wire c = Inr (1, m') \<and>
    get_header get_byte_length_impl (db_data (se_buff (ca_msg m'))) = Inr 0"
  using wf_created(5) camera_dt_overwrites_header
  by (fastforce simp: create_camera_msg_eq)

text \<open>
  The second field of a \<^verbatim>\<open>teensy_msg\<close> is declared two bytes long and written as four, so
  the \<^verbatim>\<open>byte_length\<close> of the packet, 25, ends inside it: a receiver that is given that
  many bytes reads past them.
\<close>

theorem teensy_msg_length_short:
  "\<exists>m m'. create_teensy_msg = Inr m \<and>
     teensy_msg_to_wire (m\<lparr>te_lin := l, te_ang := a\<rparr>) = Inr (1, m') \<and>
     db_byte_length (te_buff m') = 25 \<and>
     teensy_msg_from_wire m (take 25 (db_data (te_buff m'))) = Inl Out_Of_Bounds \<and>
     (\<exists>r. teensy_msg_from_wire m (db_data (te_buff m')) = Inr (1, r) \<and> te_lin r = l \<and> te_ang r = a)"
proof -
  obtain m where m: "create_teensy_msg = Inr m" "wf_teensy_msg m" "db_byte_length (te_buff m) = 25"
    using wf_created(2) by (auto simp: create_teensy_msg_eq packet_def)
  then have "wf_teensy_msg (m\<lparr>te_lin := l, te_ang := a\<rparr>)" by (simp add: wf_teensy_msg_def)
  then obtain d where d: "teensy_msg_to_wire (m\<lparr>te_lin := l, te_ang := a\<rparr>) =
      Inr (1, m\<lparr>te_lin := l, te_ang := a, te_buff := (te_buff m)\<lparr>db_data := d\<rparr>\<rparr>)"
    "length d = 256" "\<And>rest. load_word (d @ rest) 15 = Inr l" "\<And>rest. load_word (d @ rest) 22 = Inr a"
    by (elim teensy_msg_to_wire_spec) simp
  have "load_word (take 25 d) 15 = Inr l"
    using d(2) d(3) [of "[]"] by (simp add: load_word_def load_def take_drop min_def)
  moreover have "(load_word (take 25 d) 22 :: u32 res) = Inl Out_Of_Bounds"
    by (intro load_word_Inl) (simp add: d(2))
  ultimately have "teensy_msg_from_wire m (take 25 d) = Inl Out_Of_Bounds"
    using m(2) by (simp add: teensy_msg_from_wire_def wf_teensy_msg_def)
  moreover have "teensy_msg_from_wire m d = Inr (1, m\<lparr>te_lin := l, te_ang := a\<rparr>)"
    using m d(3) [of "[]"] d(4) [of "[]"] by (simp add: teensy_msg_from_wire_def wf_teensy_msg_def)
  ultimately show ?thesis using m d(1)
    by (intro exI [of _ m]
        exI [of _ "m\<lparr>te_lin := l, te_ang := a, te_buff := (te_buff m)\<lparr>db_data := d\<rparr>\<rparr>"]) simp
qed

end
