(* ===== verification/Serial.thy ===== *)
theory Serial
  imports Prelude
begin

text \<open>
  Model of \<^verbatim>\<open>src/kernel/serial.c\<close> and \<^verbatim>\<open>serial.h\<close>: the serial line to the motor controller.
  The results of the system calls are parameters: what each \<^verbatim>\<open>read\<close> of one byte finds
  (\<open>inp k\<close> for the \<open>k\<close>-th call), how many bytes a \<^verbatim>\<open>write\<close> accepts, and what the system
  answers while the port is set up.  Waiting is not modelled.
\<close>

section \<open>The line\<close>

datatype read_result = Read_Error | No_Data | Got u8

text \<open>
  The settings of a terminal that \<^verbatim>\<open>serialport_init\<close> touches, with the flag values of the
  target's \<^verbatim>\<open>termios.h\<close>.  \<^verbatim>\<open>B14400\<close> and \<^verbatim>\<open>B28800\<close> do not exist there, so the preprocessor drops
  their cases.
\<close>

record termios =
  c_iflag :: u32
  c_oflag :: u32
  c_cflag :: u32
  c_lflag :: u32
  c_vmin :: u8
  c_vtime :: u8
  c_ispeed :: u32
  c_ospeed :: u32

definition B4800 :: u32 where [const_simps]: "B4800 = 0xC"
definition B9600 :: u32 where [const_simps]: "B9600 = 0xD"
definition B19200 :: u32 where [const_simps]: "B19200 = 0xE"
definition B38400 :: u32 where [const_simps]: "B38400 = 0xF"
definition B57600 :: u32 where [const_simps]: "B57600 = 0x1001"
definition B115200 :: u32 where [const_simps]: "B115200 = 0x1002"

definition PARENB :: u32 where [const_simps]: "PARENB = 0x100"
definition CSTOPB :: u32 where [const_simps]: "CSTOPB = 0x40"
definition CSIZE :: u32 where [const_simps]: "CSIZE = 0x30"
definition CS8 :: u32 where [const_simps]: "CS8 = 0x30"
definition CRTSCTS :: u32 where [const_simps]: "CRTSCTS = 0x80000000"
definition CREAD :: u32 where [const_simps]: "CREAD = 0x80"
definition CLOCAL :: u32 where [const_simps]: "CLOCAL = 0x800"
definition IXON :: u32 where [const_simps]: "IXON = 0x400"
definition IXOFF :: u32 where [const_simps]: "IXOFF = 0x1000"
definition IXANY :: u32 where [const_simps]: "IXANY = 0x800"
definition ICANON :: u32 where [const_simps]: "ICANON = 0x2"
definition ECHO :: u32 where [const_simps]: "ECHO = 0x8"
definition ECHOE :: u32 where [const_simps]: "ECHOE = 0x10"
definition ISIG :: u32 where [const_simps]: "ISIG = 0x1"
definition OPOST :: u32 where [const_simps]: "OPOST = 0x1"

definition baud_rate :: "int \<Rightarrow> u32" where
  "baud_rate baud =
     (if baud = 4800 then B4800 else if baud = 9600 then B9600
      else if baud = 19200 then B19200 else if baud = 38400 then B38400
      else if baud = 57600 then B57600 else if baud = 115200 then B115200
      else word_of_int baud)"

text \<open>
  The assignments to \<^verbatim>\<open>toptions\<close>, in order.  \<^verbatim>\<open>cfsetispeed\<close> and \<^verbatim>\<open>cfsetospeed\<close> store a speed.
\<close>

definition terminal_settings :: "u32 \<Rightarrow> termios \<Rightarrow> termios" where
  "terminal_settings brate t =
     (let t = t\<lparr>c_ispeed := brate\<rparr>;
          t = t\<lparr>c_ospeed := brate\<rparr>;
          t = t\<lparr>c_cflag := c_cflag t AND NOT PARENB\<rparr>;
          t = t\<lparr>c_cflag := c_cflag t AND NOT CSTOPB\<rparr>;
          t = t\<lparr>c_cflag := c_cflag t AND NOT CSIZE\<rparr>;
          t = t\<lparr>c_cflag := c_cflag t OR CS8\<rparr>;
          t = t\<lparr>c_cflag := c_cflag t AND NOT CRTSCTS\<rparr>;
          t = t\<lparr>c_cflag := c_cflag t OR (CREAD OR CLOCAL)\<rparr>;
          t = t\<lparr>c_iflag := c_iflag t AND NOT (IXON OR IXOFF OR IXANY)\<rparr>;
          t = t\<lparr>c_lflag := c_lflag t AND NOT (ICANON OR ECHO OR ECHOE OR ISIG)\<rparr>;
          t = t\<lparr>c_oflag := c_oflag t AND NOT OPOST\<rparr>;
          t = t\<lparr>c_vmin := 0\<rparr>
      in t\<lparr>c_vtime := 0\<rparr>)"

text \<open>
  What the system answers while a port is opened: the result of \<^verbatim>\<open>open\<close>, the settings
  \<^verbatim>\<open>tcgetattr\<close> finds (\<open>None\<close> when it fails), and the result of the second \<^verbatim>\<open>tcsetattr\<close>; the
  first one's is ignored.  The settings handed to the two calls are the second component of
  the result.
\<close>

record port_answers =
  ans_open :: int
  ans_getattr :: "termios option"
  ans_setattr :: int

text \<open>A port that opens, for examples.\<close>

definition open_port :: port_answers where
  "open_port = \<lparr>ans_open = 3, ans_getattr = Some \<lparr>c_iflag = 0x1400, c_oflag = 1, c_cflag = 0x1B0,
     c_lflag = 0xF, c_vmin = 1, c_vtime = 5, c_ispeed = 0, c_ospeed = 0\<rparr>, ans_setattr = 0\<rparr>"

definition serialport_init :: "port_answers \<Rightarrow> int \<Rightarrow> int \<times> termios list" where
  "serialport_init ans baud =
     (if ans_open ans = -1 then (-1, [])
      else case ans_getattr ans of
          None \<Rightarrow> (-1, [])
        | Some toptions \<Rightarrow>
            let t = terminal_settings (baud_rate baud) toptions
            in if ans_setattr ans < 0 then (-1, [t, t]) else (ans_open ans, [t, t]))"

text \<open>\<^verbatim>\<open>close\<close> and \<^verbatim>\<open>tcflush\<close> give the code returned; \<^verbatim>\<open>strlen\<close> looks for the null.\<close>

definition serialport_close :: "int \<Rightarrow> int" where
  "serialport_close n = n"

definition serialport_flush :: "int \<Rightarrow> int" where
  "serialport_flush n = n"

fun c_strlen :: "bytes \<Rightarrow> nat res" where
  "c_strlen [] = Inl Out_Of_Bounds"
| "c_strlen (b # bs) = (if b = 0 then Inr 0 else bindR (c_strlen bs) (\<lambda>n. Inr (n + 1)))"

definition serialport_write_len :: "int \<Rightarrow> bytes \<Rightarrow> (int \<times> bytes) res" where
  "serialport_write_len n str =
     bindR (c_strlen str) (\<lambda>len.
     bindR (load str 0 len) (\<lambda>out. Inr (if n \<noteq> int len then -1 else 0, out)))"

definition serialport_writebyte :: "int \<Rightarrow> int" where
  "serialport_writebyte n = (if n \<noteq> 1 then -1 else 0)"

text \<open>\<^verbatim>\<open>serialport_write(fd, str, bytes)\<close>: the code and what goes to \<^verbatim>\<open>write\<close>.\<close>

definition serialport_write :: "int \<Rightarrow> bytes \<Rightarrow> nat \<Rightarrow> (int \<times> bytes) res" where
  "serialport_write n str sz =
     bindR (load str 0 sz) (\<lambda>out. Inr (if n \<noteq> int sz then -1 else 0, out))"

text \<open>
  The loop of \<^verbatim>\<open>serialport_read\<close>; \<^verbatim>\<open>continue\<close> in a \<^verbatim>\<open>for\<close> loop still increments \<open>i\<close>.  The
  result is the code, the buffer and the number of reads made.
\<close>

function serial_read_loop :: "(nat \<Rightarrow> read_result) \<Rightarrow> nat \<Rightarrow> nat \<Rightarrow> nat \<Rightarrow> int \<Rightarrow> bytes \<Rightarrow>
    (int \<times> bytes \<times> nat) res" where
  "serial_read_loop inp k i sz timeout buf =
     (if i < sz \<and> 0 < timeout then
        (case inp k of
           Read_Error \<Rightarrow> Inr (-1, buf, k + 1)
         | No_Data \<Rightarrow>
             if timeout - 1 = 0 then Inr (-2, buf, k + 1)
             else serial_read_loop inp (k + 1) (i + 1) sz (timeout - 1) buf
         | Got b \<Rightarrow>
             bindR (store buf i [b]) (\<lambda>buf'. serial_read_loop inp (k + 1) (i + 1) sz timeout buf'))
      else Inr (0, buf, k))"
  by pat_completeness auto
termination by (relation "measure (\<lambda>(_, _, i, sz, _, _). sz - i)") auto

declare serial_read_loop.simps [simp del]

definition serialport_read :: "(nat \<Rightarrow> read_result) \<Rightarrow> nat \<Rightarrow> bytes \<Rightarrow> nat \<Rightarrow> int \<Rightarrow>
    (int \<times> bytes \<times> nat) res" where
  "serialport_read inp k buf sz timeout = serial_read_loop inp k 0 sz timeout buf"

text \<open>
  \<^verbatim>\<open>serialport_read_until\<close>: \<open>b\<close> is the one-byte array, \<open>None\<close> while nothing was read into
  it; \<^verbatim>\<open>continue\<close> jumps to the condition of the \<^verbatim>\<open>do\<close> loop.
\<close>

definition finish_read_until :: "bytes \<Rightarrow> nat \<Rightarrow> (int \<times> bytes) res" where
  "finish_read_until buf i = bindR (store buf i [0]) (\<lambda>buf'. Inr (int i + 1, buf'))"

function serial_until_loop :: "(nat \<Rightarrow> read_result) \<Rightarrow> nat \<Rightarrow> u8 option \<Rightarrow> nat \<Rightarrow> u8 \<Rightarrow> nat \<Rightarrow> int \<Rightarrow>
    bytes \<Rightarrow> (int \<times> bytes) res" where
  "serial_until_loop inp k b i until buf_max timeout buf =
     (case inp k of
        Read_Error \<Rightarrow> Inr (-1, buf)
      | No_Data \<Rightarrow>
          if timeout - 1 = 0 then Inr (-2, buf)
          else (case b of
              None \<Rightarrow> Inl Uninitialised
            | Some c \<Rightarrow>
                if c \<noteq> until \<and> i < buf_max \<and> 0 < timeout - 1
                then serial_until_loop inp (k + 1) b i until buf_max (timeout - 1) buf
                else finish_read_until buf i)
      | Got c \<Rightarrow>
          bindR (store buf i [c]) (\<lambda>buf'.
            if c \<noteq> until \<and> i + 1 < buf_max \<and> 0 < timeout
            then serial_until_loop inp (k + 1) (Some c) (i + 1) until buf_max timeout buf'
            else finish_read_until buf' (i + 1)))"
  by pat_completeness auto
termination by (relation "measure (\<lambda>(_, _, _, i, _, m, t, _). (m - i) + nat t)") auto

declare serial_until_loop.simps [simp del]

definition serialport_read_until :: "(nat \<Rightarrow> read_result) \<Rightarrow> bytes \<Rightarrow> u8 \<Rightarrow> nat \<Rightarrow> int \<Rightarrow>
    (int \<times> bytes) res" where
  "serialport_read_until inp buf until buf_max timeout =
     serial_until_loop inp 0 None 0 until buf_max timeout buf"

section \<open>The device\<close>

definition BUFFER_SIZE :: nat where [const_simps]: "BUFFER_SIZE = 30"

record state_resp =
  sr_v :: float32
  sr_w :: float32
  sr_w_err :: float32
  sr_dt :: float32

record teensy_device =
  td_fd :: int
  td_lin :: float32
  td_ang :: float32
  td_resp :: state_resp
  td_buffer :: bytes

text \<open>\<^verbatim>\<open>new_teensy_device\<close> opens the port at 9600 baud; the result of opening is the handle.\<close>

definition new_teensy_device :: "port_answers \<Rightarrow> int \<times> teensy_device" where
  "new_teensy_device ans =
     (let device = \<lparr>td_fd = 0, td_lin = 0, td_ang = 0,
            td_resp = \<lparr>sr_v = 0, sr_w = 0, sr_w_err = 0, sr_dt = 0\<rparr>,
            td_buffer = replicate BUFFER_SIZE 0\<rparr>;
          device = device\<lparr>td_fd := fst (serialport_init ans 9600)\<rparr>
      in (td_fd device, device))"

text \<open>The frame sent: \<^verbatim>\<open>'d'\<close>, two floats, a newline and a null.\<close>

definition teensy_send_data :: "int \<Rightarrow> teensy_device \<Rightarrow> (int \<times> teensy_device \<times> bytes) res" where
  "teensy_send_data n device =
     bindR (store_word (td_buffer device) 0 (100 :: u8)) (\<lambda>buf.
     bindR (store_word buf 1 (td_lin device)) (\<lambda>buf.
     bindR (store_word buf 5 (td_ang device)) (\<lambda>buf.
     bindR (store_word buf 9 (10 :: u8)) (\<lambda>buf.
     bindR (store_word buf 10 (0 :: u8)) (\<lambda>buf.
     bindR (serialport_write n buf 11) (\<lambda>(_, out).
       Inr (11, device\<lparr>td_buffer := buf\<rparr>, out)))))))"

definition send_drive :: "int \<Rightarrow> teensy_device \<Rightarrow> float32 \<Rightarrow> float32 \<Rightarrow>
    (int \<times> teensy_device \<times> bytes) res" where
  "send_drive n device lin ang = teensy_send_data n (device\<lparr>td_lin := lin, td_ang := ang\<rparr>)"

definition stop_robot :: "int \<Rightarrow> teensy_device \<Rightarrow> (int \<times> teensy_device \<times> bytes) res" where
  "stop_robot n device = teensy_send_data n (device\<lparr>td_lin := 0, td_ang := 0\<rparr>)"

text \<open>\<^verbatim>\<open>teensy_cleanup\<close> closes the handle; the handle closed is the value here.\<close>

definition teensy_cleanup :: "teensy_device \<Rightarrow> int" where
  "teensy_cleanup device = td_fd device"

text \<open>
  \<^verbatim>\<open>read_teensy_response\<close>: the values written to the four result pointers, when they are.
\<close>

definition read_teensy_response :: "(nat \<Rightarrow> read_result) \<Rightarrow> nat \<Rightarrow> teensy_device \<Rightarrow>
    (int \<times> teensy_device \<times> state_resp option \<times> nat) res" where
  "read_teensy_response inp k device =
     bindR (serialport_read inp k (td_buffer device) 17 1) (\<lambda>(ret, buf, k').
     let device1 = device\<lparr>td_buffer := buf\<rparr> in
     if ret < 0 then Inr (ret, device1, None, k')
     else bindR (load_word buf 0) (\<lambda>c :: u8.
       if c \<noteq> 114 then Inr (ret, device1, None, k')
       else
         bindR (load_word buf 1) (\<lambda>v.
         bindR (load_word buf 5) (\<lambda>w.
         bindR (load_word buf 9) (\<lambda>w_err.
         bindR (load_word buf 13) (\<lambda>dt.
           let r = \<lparr>sr_v = v, sr_w = w, sr_w_err = w_err, sr_dt = dt\<rparr>
           in Inr (ret, device1\<lparr>td_resp := r\<rparr>, Some r, k')))))))"

section \<open>Reading bytes\<close>

lemma serial_read_loop_got:
  assumes "\<And>j. j < length bs \<Longrightarrow> inp (k + j) = Got (bs ! j)" and "0 < t"
    and "i + length bs = sz" and "sz \<le> length buf"
  shows "serial_read_loop inp k i sz t buf =
    Inr (0, take i buf @ bs @ drop sz buf, k + length bs)"
  using assms
proof (induction bs arbitrary: k i buf)
  case Nil
  then show ?case by (simp add: serial_read_loop.simps)
next
  case (Cons b bs)
  have b: "inp k = Got b" using Cons.prems(1) [of 0] by simp
  have st: "store buf i [b] = Inr (take i buf @ b # drop (Suc i) buf)" (is "_ = Inr ?buf")
    using Cons.prems by (simp add: store_def)
  have "inp (Suc k + j) = Got (bs ! j)" if "j < length bs" for j
    using Cons.prems(1) [of "Suc j"] that by simp
  then have "serial_read_loop inp (k + 1) (i + 1) sz t ?buf =
      Inr (0, take (i + 1) ?buf @ bs @ drop sz ?buf, k + 1 + length bs)"
    using Cons.prems by (intro Cons.IH) simp_all
  moreover have "sz - i = Suc (length bs)" using Cons.prems by simp
  ultimately show ?case
    using Cons.prems b st by (subst serial_read_loop.simps) (simp add: min_def add.commute)
qed

lemma serialport_read_got:
  assumes "\<And>j. j < length bs \<Longrightarrow> inp (k + j) = Got (bs ! j)" and "0 < t" and "length bs \<le> length buf"
  shows "serialport_read inp k buf (length bs) t =
    Inr (0, bs @ drop (length bs) buf, k + length bs)"
  using serial_read_loop_got [of bs inp k t 0 "length bs" buf] assms
  by (simp add: serialport_read_def)

text \<open>The bytes of a frame from the controller.\<close>

definition response_frame :: "state_resp \<Rightarrow> bytes" where
  "response_frame r = [114] @ le_bytes (sr_v r) @ le_bytes (sr_w r) @ le_bytes (sr_w_err r) @
     le_bytes (sr_dt r)"

lemma length_response_frame [simp]: "length (response_frame r) = 17"
  by (simp add: response_frame_def)

lemma load_response_frame:
  "load_word (response_frame r @ rest) 0 = Inr (114 :: u8)"
  "load_word (response_frame r @ rest) 1 = Inr (sr_v r)"
  "load_word (response_frame r @ rest) 5 = Inr (sr_w r)"
  "load_word (response_frame r @ rest) 9 = Inr (sr_w_err r)"
  "load_word (response_frame r @ rest) 13 = Inr (sr_dt r)"
proof -
  let ?v = "le_bytes (sr_v r)" and ?w = "le_bytes (sr_w r)" and ?e = "le_bytes (sr_w_err r)"
  let ?d = "le_bytes (sr_dt r)"
  show "load_word (response_frame r @ rest) 0 = Inr (114 :: u8)"
    by (rule load_word_at [where xs = "[]" and zs = "?v @ ?w @ ?e @ ?d @ rest"])
      (simp_all add: response_frame_def)
  show "load_word (response_frame r @ rest) 1 = Inr (sr_v r)"
    by (rule load_word_at [where xs = "[114]" and zs = "?w @ ?e @ ?d @ rest"])
      (simp_all add: response_frame_def)
  show "load_word (response_frame r @ rest) 5 = Inr (sr_w r)"
    by (rule load_word_at [where xs = "[114] @ ?v" and zs = "?e @ ?d @ rest"])
      (simp_all add: response_frame_def)
  show "load_word (response_frame r @ rest) 9 = Inr (sr_w_err r)"
    by (rule load_word_at [where xs = "[114] @ ?v @ ?w" and zs = "?d @ rest"])
      (simp_all add: response_frame_def)
  show "load_word (response_frame r @ rest) 13 = Inr (sr_dt r)"
    by (rule load_word_at [where xs = "[114] @ ?v @ ?w @ ?e" and zs = rest])
      (simp_all add: response_frame_def)
qed

lemmas load_response = load_response_frame load_response_frame(2) [unfolded One_nat_def]

lemma read_teensy_response_frame:
  assumes "\<And>j. j < 17 \<Longrightarrow> inp (k + j) = Got (response_frame r ! j)"
    and "length (td_buffer device) = BUFFER_SIZE"
  shows "read_teensy_response inp k device = Inr (0,
    device\<lparr>td_buffer := response_frame r @ drop 17 (td_buffer device), td_resp := r\<rparr>, Some r, k + 17)"
proof -
  have "serialport_read inp k (td_buffer device) 17 1 =
      Inr (0, response_frame r @ drop 17 (td_buffer device), k + 17)"
    using serialport_read_got [of "response_frame r" inp k 1 "td_buffer device"] assms
    by (simp add: const_simps)
  then show ?thesis by (simp add: read_teensy_response_def load_response Let_def)
qed

definition drive_frame :: "float32 \<Rightarrow> float32 \<Rightarrow> bytes" where
  "drive_frame lin ang = [100] @ le_bytes lin @ le_bytes ang @ [10, 0]"

lemma length_drive_frame [simp]: "length (drive_frame lin ang) = 11"
  by (simp add: drive_frame_def)

lemma send_drive_eq:
  assumes "length (td_buffer device) = BUFFER_SIZE"
  shows "send_drive n device lin ang = Inr (11,
    device\<lparr>td_lin := lin, td_ang := ang,
      td_buffer := drive_frame lin ang @ drop 11 (td_buffer device)\<rparr>, drive_frame lin ang)"
proof -
  let ?d = "td_buffer device"
  let ?h1 = "[100] @ le_bytes lin" and ?h2 = "[100] @ le_bytes lin @ le_bytes ang"
  have len: "length ?d = 30" using assms by (simp add: const_simps)
  have "store_word ?d 0 (100 :: u8) = Inr ([100] @ drop 1 ?d)"
    using store_word_at [of "[]" 0 ?d "100 :: u8"] len by simp
  moreover have "store_word ([100] @ drop 1 ?d) 1 lin = Inr (?h1 @ drop 5 ?d)"
    using store_word_at [of "[100]" 1 ?d lin] len by simp
  moreover have "store_word (?h1 @ drop 5 ?d) 5 ang = Inr (?h2 @ drop 9 ?d)"
    using store_word_at [of ?h1 5 ?d ang] len by simp
  moreover have "store_word (?h2 @ drop 9 ?d) 9 (10 :: u8) = Inr ((?h2 @ [10]) @ drop 10 ?d)"
    using store_word_at [of ?h2 9 ?d "10 :: u8"] len by simp
  moreover have "store_word ((?h2 @ [10]) @ drop 10 ?d) 10 (0 :: u8) =
      Inr (drive_frame lin ang @ drop 11 ?d)"
    using store_word_at [of "?h2 @ [10]" 10 ?d "0 :: u8"] len by (simp add: drive_frame_def)
  ultimately show ?thesis
    by (simp add: send_drive_def teensy_send_data_def serialport_write_def load_def)
qed

section \<open>Opening the port\<close>

text \<open>A terminal in raw mode: eight bits, no parity, one stop bit, no flow control, no echo.\<close>

definition raw_8N1 :: "termios \<Rightarrow> bool" where
  "raw_8N1 t \<longleftrightarrow> c_cflag t AND CSIZE = CS8 \<and> c_cflag t AND PARENB = 0 \<and> c_cflag t AND CSTOPB = 0 \<and>
     c_cflag t AND CRTSCTS = 0 \<and> c_cflag t AND CREAD = CREAD \<and> c_cflag t AND CLOCAL = CLOCAL \<and>
     c_iflag t AND (IXON OR IXOFF OR IXANY) = 0 \<and>
     c_lflag t AND (ICANON OR ECHO OR ECHOE OR ISIG) = 0 \<and> c_oflag t AND OPOST = 0 \<and>
     c_vmin t = 0 \<and> c_vtime t = 0"

text \<open>Two settings that agree on every flag the set-up has no opinion about.\<close>

definition same_elsewhere :: "termios \<Rightarrow> termios \<Rightarrow> bool" where
  "same_elsewhere t u \<longleftrightarrow>
     c_cflag t AND NOT (CSIZE OR PARENB OR CSTOPB OR CRTSCTS OR CREAD OR CLOCAL) =
       c_cflag u AND NOT (CSIZE OR PARENB OR CSTOPB OR CRTSCTS OR CREAD OR CLOCAL) \<and>
     c_iflag t AND NOT (IXON OR IXOFF OR IXANY) = c_iflag u AND NOT (IXON OR IXOFF OR IXANY) \<and>
     c_lflag t AND NOT (ICANON OR ECHO OR ECHOE OR ISIG) =
       c_lflag u AND NOT (ICANON OR ECHO OR ECHOE OR ISIG) \<and>
     c_oflag t AND NOT OPOST = c_oflag u AND NOT OPOST"

section \<open>Properties\<close>

text \<open>
  C38: the dialogue with the motor controller: the frame written is \<^verbatim>\<open>'d'\<close>, the two floats,
  newline and null, eleven bytes inside the thirty of the buffer; and when the seventeen
  bytes of a reply arrive one after another, the four floats of the reply are stored, whatever
  the buffer held before.
\<close>

theorem teensy_dialogue:
  assumes "length (td_buffer device) = BUFFER_SIZE"
    and "\<And>j. j < 17 \<Longrightarrow> inp (k + j) = Got (response_frame r ! j)"
  shows "\<exists>d1 d2. send_drive n device lin ang = Inr (11, d1, drive_frame lin ang) \<and>
    read_teensy_response inp k d1 = Inr (0, d2, Some r, k + 17) \<and>
    td_resp d2 = r \<and> td_lin d2 = lin \<and> td_ang d2 = ang \<and> length (td_buffer d2) = BUFFER_SIZE"
  using assms read_teensy_response_frame [of inp k r "device\<lparr>td_lin := lin, td_ang := ang,
      td_buffer := drive_frame lin ang @ drop 11 (td_buffer device)\<rparr>"]
  by (simp add: send_drive_eq const_simps)

lemma teensy_dialogue_witness:
  "\<exists>d1 d2. send_drive 11 (snd (new_teensy_device open_port)) 5 6 = Inr (11, d1, drive_frame 5 6) \<and>
    read_teensy_response (\<lambda>j. Got (response_frame \<lparr>sr_v = 1, sr_w = 2, sr_w_err = 3, sr_dt = 4\<rparr> ! j)) 0 d1 =
      Inr (0, d2, Some \<lparr>sr_v = 1, sr_w = 2, sr_w_err = 3, sr_dt = 4\<rparr>, 17)"
  using teensy_dialogue [of "snd (new_teensy_device open_port)"
      "\<lambda>j. Got (response_frame \<lparr>sr_v = 1, sr_w = 2, sr_w_err = 3, sr_dt = 4\<rparr> ! j)" 0
      "\<lparr>sr_v = 1, sr_w = 2, sr_w_err = 3, sr_dt = 4\<rparr>" 11 5 6]
  by (auto simp: new_teensy_device_def const_simps)

text \<open>
  An idle tick costs a byte: when the line has nothing at the first read and then delivers
  its bytes, \<^verbatim>\<open>serialport_read\<close> with more than one tick of patience reports success with
  the first byte of the buffer stale, all others one place late and the last one unread.
\<close>

theorem serial_read_idle_shifts:
  assumes "inp k = No_Data" and "\<And>j. j < length bs \<Longrightarrow> inp (k + 1 + j) = Got (bs ! j)"
    and "1 < t" and "length bs < length buf"
  shows "serialport_read inp k buf (length bs + 1) t =
    Inr (0, hd buf # bs @ drop (length bs + 1) buf, k + 1 + length bs)"
proof -
  have "serial_read_loop inp (k + 1) 1 (length bs + 1) (t - 1) buf =
      Inr (0, take 1 buf @ bs @ drop (length bs + 1) buf, k + 1 + length bs)"
    using assms by (intro serial_read_loop_got) simp_all
  moreover have "take 1 buf = [hd buf]" using assms(4) by (cases buf) simp_all
  ultimately show ?thesis
    using assms(1,3) by (simp add: serialport_read_def serial_read_loop.simps [of inp k 0])
qed

lemma serial_read_idle_shifts_witness:
  "serialport_read (\<lambda>k. if k = 0 then No_Data else Got (of_nat k)) 0 [9, 9, 9] 3 5 = Inr (0, [9, 1, 2], 3)"
proof -
  have "(\<lambda>k. if k = 0 then No_Data else Got (of_nat k)) (0 + 1 + j) = Got ([1, 2 :: u8] ! j)"
    if "j < length [1, 2 :: u8]" for j
    using that by (auto simp: less_Suc_eq numeral_2_eq_2)
  from serial_read_idle_shifts [of "\<lambda>k. if k = 0 then No_Data else Got (of_nat k)" 0 "[1, 2]" 5 "[9, 9, 9]",
      OF _ this] show ?thesis by (simp add: eval_nat_numeral)
qed

text \<open>
  \<^verbatim>\<open>serialport_read_until\<close> writes its terminating null one past the limit: fed \<^verbatim>\<open>buf_max\<close>
  bytes without the terminator into a buffer of that size, it stores outside it.
\<close>

theorem read_until_overflows:
  assumes "\<And>j. \<exists>c. inp j = Got c \<and> c \<noteq> until" and "0 < length buf" and "0 < t"
  shows "serialport_read_until inp buf until (length buf) t = Inl Out_Of_Bounds"
proof -
  have "serial_until_loop inp k b i until (length buf) t d = Inl Out_Of_Bounds"
    if "i < length buf" and "length d = length buf" for k b i d
    using that
  proof (induction "length buf - i" arbitrary: k b i d)
    case 0
    then show ?case by simp
  next
    case (Suc n)
    obtain c where c: "inp k = Got c" "c \<noteq> until" using assms(1) by blast
    obtain d' where d': "store d i [c] = Inr d'" "length d' = length buf"
      using Suc.prems by (simp add: store_def)
    show ?case
    proof (cases "i + 1 < length buf")
      case True
      then have "serial_until_loop inp (k + 1) (Some c) (i + 1) until (length buf) t d' = Inl Out_Of_Bounds"
        using Suc.hyps(2) d'(2) by (intro Suc.hyps(1)) simp_all
      with c d'(1) True assms(3) show ?thesis by (subst serial_until_loop.simps) simp
    next
      case False
      with Suc.prems have "i + 1 = length buf" by simp
      with c d' show ?thesis
        by (subst serial_until_loop.simps) (simp add: finish_read_until_def store_def)
    qed
  qed
  then show ?thesis using assms(2) by (simp add: serialport_read_until_def)
qed

lemma read_until_overflows_witness:
  "serialport_read_until (\<lambda>_. Got 65) [0, 0] 10 (Suc (Suc 0)) 1 = Inl Out_Of_Bounds"
  using read_until_overflows [of "\<lambda>_. Got 65" 10 "[0, 0]" 1] by simp

lemma terminal_settings_raw: "raw_8N1 (terminal_settings b t)"
  unfolding raw_8N1_def
  by (intro conjI)
     (simp_all add: terminal_settings_def Let_def const_simps bit.conj_disj_distrib2 and.assoc)

lemma terminal_settings_same: "same_elsewhere (terminal_settings b t) t"
  unfolding same_elsewhere_def
  by (intro conjI)
     (simp_all add: terminal_settings_def Let_def const_simps bit.conj_disj_distrib2 and.assoc)

lemma terminal_settings_speed:
  "c_ispeed (terminal_settings b t) = b \<and> c_ospeed (terminal_settings b t) = b"
  by (simp add: terminal_settings_def Let_def)

text \<open>
  Opening the port.  \<^verbatim>\<open>serialport_init\<close> answers -1 exactly when one of \<^verbatim>\<open>open\<close>,
  \<^verbatim>\<open>tcgetattr\<close> and the last \<^verbatim>\<open>tcsetattr\<close> fails, and the handle otherwise; whatever it hands
  to \<^verbatim>\<open>tcsetattr\<close> is raw 8N1 at the speed of the rate asked for, without flow control or echo,
  and every flag it has no opinion about is the terminal's own.
\<close>

theorem serialport_init_result:
  assumes "serialport_init ans baud = (r, applied)"
  shows "(r = (if ans_open ans = -1 \<or> ans_getattr ans = None \<or> ans_setattr ans < 0 then -1
      else ans_open ans)) \<and>
    list_all (\<lambda>t. raw_8N1 t \<and> c_ispeed t = baud_rate baud \<and> c_ospeed t = baud_rate baud \<and>
      (case ans_getattr ans of None \<Rightarrow> False | Some own \<Rightarrow> same_elsewhere t own)) applied"
  using assms
  by (auto simp: serialport_init_def Let_def terminal_settings_raw terminal_settings_same
      terminal_settings_speed split: if_splits option.splits)

lemma serialport_init_result_witness:
  "fst (serialport_init open_port 9600) = 3 \<and>
    list_all (\<lambda>t. raw_8N1 t \<and> c_ospeed t = 13) (snd (serialport_init open_port 9600)) \<and>
    length (snd (serialport_init open_port 9600)) = 2"
proof -
  obtain r applied where run: "serialport_init open_port 9600 = (r, applied)" by fastforce
  have "length applied = 2" using run by (auto simp: serialport_init_def open_port_def Let_def)
  with serialport_init_result [OF run] run show ?thesis
    by (auto simp: open_port_def baud_rate_def const_simps list_all_iff)
qed

end
