(* ===== verification/Addresses.thy ===== *)
theory Addresses
  imports Zmq_Control_Client
begin

text \<open>
  The addresses and topics of \<^verbatim>\<open>include/scpp/common.h\<close> and the two functions of
  \<^verbatim>\<open>src/core/common.cpp\<close> that make socket addresses of ports.
\<close>

definition to_bind_addr :: "nat \<Rightarrow> address" where
  "to_bind_addr port = ''tcp://*:'' @ digits port"

definition to_conn_addr :: "nat \<Rightarrow> address" where
  "to_conn_addr port = ''tcp://localhost:'' @ digits port"

definition cmd_vel_topic :: string where "cmd_vel_topic = ''curmt://cmd_vel''"
definition localizer_topic :: string where "localizer_topic = ''curmt://state_localizer''"
definition KERNEL_ADDRESS :: nat where [const_simps]: "KERNEL_ADDRESS = 5450"
definition LOCALIZER_FRONT :: nat where [const_simps]: "LOCALIZER_FRONT = 5452"
definition LOCALIZER_BACK :: nat where [const_simps]: "LOCALIZER_BACK = 5454"
definition CMD_VEL_FRONT :: nat where [const_simps]: "CMD_VEL_FRONT = 5470"
definition CMD_VEL_BACK :: nat where [const_simps]: "CMD_VEL_BACK = 5472"
definition CAMERA_ADDRESS :: nat where [const_simps]: "CAMERA_ADDRESS = 5458"
definition CONTROLLER_ADDRESS :: nat where [const_simps]: "CONTROLLER_ADDRESS = 5456"

end
