(* ===== verification/Kermit_Kernel.thy ===== *)
theory Kermit_Kernel
  imports Rmt_Control_Client Rmt_Messages Serial Addresses
begin

text \<open>
  Model of the robot's kernel: \<^verbatim>\<open>src/kernel/KermitNetworkInterface.cpp\<close> and
  \<^verbatim>\<open>src/kernel/KermitKernel.cpp\<close> with their headers.  The object is split in the control
  client it inherits (an \<open>rmt_client\<close>) and the state its callbacks work on (\<open>kermit\<close>).
  Drive messages and pings run under \<^verbatim>\<open>mutex_lock\<close> of \<^verbatim>\<open>NetworkPatterns.cpp\<close>, the accesses to
  the motor values under \<^verbatim>\<open>guard\<close>: each callback is one step.  The sender thread reads the
  two motor values without the lock; its round is one step here, and \<open>Kernel_Threads\<close> shows the
  accesses one by one.  The measured values have no initialiser: they are
  \<open>None\<close> until the controller answers.
\<close>

section \<open>States and flags of a request\<close>

definition STOP_EVERYTHING :: u16 where [const_simps]: "STOP_EVERYTHING = 1"
definition DUMP :: u16 where [const_simps]: "DUMP = 2"
definition MINE :: u16 where [const_simps]: "MINE = 4"
definition MOVE_TO_DUMP :: u16 where [const_simps]: "MOVE_TO_DUMP = 8"
definition MOVE_TO_MINE :: u16 where [const_simps]: "MOVE_TO_MINE = 16"
definition INIT_STATE :: u16 where [const_simps]: "INIT_STATE = 32"
definition CLEAN_EXIT :: u16 where [const_simps]: "CLEAN_EXIT = 64"

text \<open>A flag \<^verbatim>\<open>(1 << n)\<close> tested with \<^verbatim>\<open>excess & flag\<close>.\<close>

definition has_flag :: "u64 \<Rightarrow> nat \<Rightarrow> bool" where
  "has_flag excess n \<longleftrightarrow> excess AND push_bit n 1 \<noteq> 0"

definition ENTERING_STATE :: nat where [const_simps]: "ENTERING_STATE = 0"
definition EXITING_STATE :: nat where [const_simps]: "EXITING_STATE = 4"
definition START_DUMPING :: nat where [const_simps]: "START_DUMPING = 1"
definition CLEAN_END_DUMPING :: nat where [const_simps]: "CLEAN_END_DUMPING = 2"
definition ABORT_DUMPING :: nat where [const_simps]: "ABORT_DUMPING = 3"
definition START_MINING :: nat where [const_simps]: "START_MINING = 1"
definition ABORT_MINING :: nat where [const_simps]: "ABORT_MINING = 2"
definition CLEAN_END_MINING :: nat where [const_simps]: "CLEAN_END_MINING = 3"
definition START_DRIVING :: nat where [const_simps]: "START_DRIVING = 1"
definition STOP_DRIVING :: nat where [const_simps]: "STOP_DRIVING = 2"
definition SYS_ON :: nat where [const_simps]: "SYS_ON = 1"
definition ZERO_ALL :: nat where [const_simps]: "ZERO_ALL = 2"
definition DEPLOY_CAMERA :: nat where [const_simps]: "DEPLOY_CAMERA = 3"
definition STOP_ALL :: nat where [const_simps]: "STOP_ALL = 1"
definition RETRACT_ALL :: nat where [const_simps]: "RETRACT_ALL = 2"
definition SYS_OFF :: nat where [const_simps]: "SYS_OFF = 3"

section \<open>The network interface\<close>

record teensy =
  tn_dev :: "teensy_device option"
  tn_lin :: float32
  tn_ang :: float32
  tn_measured :: "state_resp option"

record kermit =
  ke_verbose :: bool
  ke_debug :: bool
  ke_teensy :: teensy
  ke_running :: bool
  ke_async_sender :: "bool option"
  ke_cvel :: cmd_vel
  ke_teensy_buffer :: teensy_sensor_array
  ke_time_alive :: nat
  ke_port :: string
  ke_period :: nat
  ke_receiving_cvels :: bool

definition update_teensy_message :: "float32 \<Rightarrow> float32 \<Rightarrow> kermit \<Rightarrow> kermit" where
  "update_teensy_message lin ang k = k\<lparr>ke_teensy := (ke_teensy k)\<lparr>tn_lin := lin, tn_ang := ang\<rparr>\<rparr>"

definition get_teensy_measured_vals :: "kermit \<Rightarrow> state_resp res" where
  "get_teensy_measured_vals k =
     (case tn_measured (ke_teensy k) of None \<Rightarrow> Inl Uninitialised | Some r \<Rightarrow> Inr r)"

text \<open>
  \<^verbatim>\<open>init_teensy_peripheral\<close>: unless debugging, open the port (\<open>fd\<close> is what the system answers) and
  start the sender thread.
\<close>

definition init_teensy_peripheral :: "port_answers \<Rightarrow> kermit \<Rightarrow> (bool \<times> kermit) res" where
  "init_teensy_peripheral fd k =
     (if \<not> ke_debug k then
        (if ke_async_sender k = Some True then Inl Terminated
         else Inr (True, k\<lparr>ke_teensy := (ke_teensy k)\<lparr>tn_dev := Some (snd (new_teensy_device fd))\<rparr>,
           ke_async_sender := Some True\<rparr>))
      else Inr (True, k))"

text \<open>
  One round of the sender thread: the drive frame goes out, then the controller is asked.
  \<^verbatim>\<open>read_teensy_response(&dev, &w, &v, &w_err, &dt)\<close> stores only when a reply came.
\<close>

definition sender_round :: "int \<Rightarrow> (nat \<Rightarrow> read_result) \<Rightarrow> nat \<Rightarrow> kermit \<Rightarrow>
    (bytes \<times> nat \<times> kermit) res" where
  "sender_round written inp i k =
     (case tn_dev (ke_teensy k) of
        None \<Rightarrow> Inl Uninitialised
      | Some dev \<Rightarrow>
          bindR (send_drive written dev (tn_lin (ke_teensy k)) (tn_ang (ke_teensy k))) (\<lambda>(_, dev, out).
          bindR (read_teensy_response inp i dev) (\<lambda>(_, dev, r, i').
            let t = (ke_teensy k)\<lparr>tn_dev := Some dev\<rparr>;
                t' = (case r of None \<Rightarrow> t | Some m \<Rightarrow> t\<lparr>tn_measured := Some m\<rparr>)
            in Inr (out, i', k\<lparr>ke_teensy := t'\<rparr>))))"

text \<open>\<^verbatim>\<open>init_comms\<close>: the codes of \<^verbatim>\<open>spin\<close> are ignored, its exceptions are not.\<close>

definition init_comms :: "'s rmt_client \<Rightarrow> (bool \<times> 's rmt_client) res" where
  "init_comms c =
     bindR (subscribe (to_conn_addr CMD_VEL_BACK) cmd_vel_topic Drive_Message_Callback (rc_net c)) (\<lambda>(_, net).
     bindR (publish_periodic (to_conn_addr LOCALIZER_FRONT) localizer_topic Localizer_Cmd_Get_Data
         1000000 net) (\<lambda>(_, net).
       Inr (True, c\<lparr>rc_net := net\<rparr>)))"

text \<open>
  The waiting loop of \<^verbatim>\<open>kermit_start\<close>: \<open>run i\<close> is what the \<open>i\<close>-th test of \<^verbatim>\<open>running\<close> finds and
  \<open>elapsed i\<close> the time since the start; \<open>None\<close> is a loop that never ends.
\<close>

partial_function (option) wait_loop :: "(nat \<Rightarrow> bool) \<Rightarrow> (nat \<Rightarrow> nat) \<Rightarrow> bool \<Rightarrow> nat \<Rightarrow> nat \<Rightarrow> nat option" where
  "wait_loop run elapsed forever time_alive i =
     (if run i \<and> (forever \<or> elapsed i < time_alive)
      then wait_loop run elapsed forever time_alive (i + 1)
      else Some i)"

definition kermit_start :: "(nat \<Rightarrow> bool) \<Rightarrow> (nat \<Rightarrow> nat) \<Rightarrow> nat \<Rightarrow> 's rmt_client \<Rightarrow>
    (bool \<times> 's rmt_client \<times> nat option) res" where
  "kermit_start run elapsed time_alive c =
     (let forever = (time_alive = 0) in
      bindR (init_comms c) (\<lambda>(ok, c').
        if \<not> ok then Inr (False, c', Some 0)
        else Inr (True, c', wait_loop run elapsed forever time_alive 0)))"

text \<open>
  \<^verbatim>\<open>kermit_quit\<close> joins the sender and closes its device before it quits the client; the
  handles closed are the last component.
\<close>

definition close_device :: "kermit \<Rightarrow> int res" where
  "close_device k =
     (case tn_dev (ke_teensy k) of None \<Rightarrow> Inl Uninitialised | Some dev \<Rightarrow> Inr (teensy_cleanup dev))"

definition kermit_quit :: "'s rmt_client \<Rightarrow> kermit \<Rightarrow> (bool \<times> 's rmt_client \<times> kermit \<times> int list) res" where
  "kermit_quit c k =
     (let k1 = k\<lparr>ke_running := False\<rparr> in
      bindR (case ke_async_sender k1 of
          None \<Rightarrow> Inr (k1, [])
        | Some joinable \<Rightarrow>
            if joinable then
              bindR (close_device k1) (\<lambda>fd. Inr (k1\<lparr>ke_async_sender := Some False\<rparr>, [fd]))
            else Inl Thread_Not_Joinable) (\<lambda>(k2, closed).
      bindR (quit (rc_net c)) (\<lambda>(r, net). Inr (r, c\<lparr>rc_net := net\<rparr>, k2, closed))))"

text \<open>The destructors: \<^verbatim>\<open>~KermitKernel\<close> quits, then \<^verbatim>\<open>~KermitNetworkInterface\<close> cleans up.\<close>

definition destroy_kernel :: "'s rmt_client \<Rightarrow> kermit \<Rightarrow> (bool \<times> 's rmt_client \<times> kermit \<times> int list) res" where
  "destroy_kernel c k =
     bindR (kermit_quit c k) (\<lambda>(r, c1, k1, closed).
     bindR (close_device k1) (\<lambda>fd. Inr (r, c1, k1, closed @ [fd])))"

section \<open>The kernel\<close>

definition set_serial_attributes :: "string \<Rightarrow> nat \<Rightarrow> kermit \<Rightarrow> bool \<times> kermit" where
  "set_serial_attributes port period k = (True, k\<lparr>ke_port := port, ke_period := period\<rparr>)"

definition set_alive_time :: "nat \<Rightarrow> kermit \<Rightarrow> bool \<times> kermit" where
  "set_alive_time timer k = (True, k\<lparr>ke_time_alive := timer\<rparr>)"

subsection \<open>The handlers of a state request\<close>

definition set_receiving :: "bool \<Rightarrow> kermit \<Rightarrow> kermit" where
  "set_receiving b k = k\<lparr>ke_receiving_cvels := b\<rparr>"

definition stop_everything_handler :: "u64 \<Rightarrow> kermit \<Rightarrow> kermit" where
  "stop_everything_handler excess k = update_teensy_message 0 0 (set_receiving False k)"

definition dump_handler :: "u64 \<Rightarrow> kermit \<Rightarrow> kermit" where
  "dump_handler excess k =
     (let k = (if has_flag excess ENTERING_STATE then set_receiving False k else k);
          k = (if has_flag excess START_DUMPING then set_receiving False k else k);
          k = (if has_flag excess CLEAN_END_DUMPING then set_receiving False k else k);
          k = (if has_flag excess ABORT_DUMPING then set_receiving False k else k)
      in (if has_flag excess EXITING_STATE then set_receiving False k else k))"

definition mine_handler :: "u64 \<Rightarrow> kermit \<Rightarrow> kermit" where
  "mine_handler excess k =
     (let k = (if has_flag excess ENTERING_STATE then set_receiving False k else k);
          k = (if has_flag excess START_MINING then set_receiving False k else k);
          k = (if has_flag excess CLEAN_END_MINING then set_receiving False k else k);
          k = (if has_flag excess ABORT_MINING then set_receiving False k else k)
      in (if has_flag excess EXITING_STATE then set_receiving False k else k))"

definition move_to_mine_handler :: "u64 \<Rightarrow> kermit \<Rightarrow> kermit" where
  "move_to_mine_handler excess k =
     (let k = (if has_flag excess ENTERING_STATE then set_receiving False k else k);
          k = (if has_flag excess START_DRIVING then set_receiving True k else k);
          k = (if has_flag excess STOP_DRIVING then set_receiving False k else k)
      in (if has_flag excess EXITING_STATE then set_receiving False k else k))"

definition move_to_dump_handler :: "u64 \<Rightarrow> kermit \<Rightarrow> kermit" where
  "move_to_dump_handler excess k =
     (let k = (if has_flag excess ENTERING_STATE then set_receiving False k else k);
          k = (if has_flag excess START_DRIVING then set_receiving True k else k);
          k = (if has_flag excess STOP_DRIVING then set_receiving False k else k)
      in (if has_flag excess EXITING_STATE then set_receiving False k else k))"

definition init_handler :: "u64 \<Rightarrow> kermit \<Rightarrow> kermit" where
  "init_handler excess k =
     (let k = (if has_flag excess ENTERING_STATE then set_receiving False k else k);
          k = (if has_flag excess SYS_ON then set_receiving False k else k);
          k = (if has_flag excess ZERO_ALL then set_receiving False k else k)
      in (if has_flag excess DEPLOY_CAMERA then set_receiving False k else k))"

definition clean_exit_handler :: "u64 \<Rightarrow> kermit \<Rightarrow> kermit" where
  "clean_exit_handler excess k =
     (let k = (if has_flag excess ENTERING_STATE then set_receiving False k else k);
          k = (if has_flag excess RETRACT_ALL then set_receiving True k else k)
      in (if has_flag excess SYS_OFF then set_receiving False k else k))"

definition robot_ping_handler :: "ping \<Rightarrow> kermit \<Rightarrow> (ping \<times> kermit) res" where
  "robot_ping_handler p k =
     Inr (\<lparr>pg_type = ACK, pg_code = 0, pg_excess = 0\<rparr>,
       if pg_code p = STOP_EVERYTHING then stop_everything_handler (pg_excess p) k
       else if pg_code p = DUMP then dump_handler (pg_excess p) k
       else if pg_code p = MINE then mine_handler (pg_excess p) k
       else if pg_code p = MOVE_TO_DUMP then move_to_dump_handler (pg_excess p) k
       else if pg_code p = MOVE_TO_MINE then move_to_mine_handler (pg_excess p) k
       else if pg_code p = INIT_STATE then init_handler (pg_excess p) k
       else if pg_code p = CLEAN_EXIT then clean_exit_handler (pg_excess p) k
       else k)"

subsection \<open>The callbacks\<close>

definition drive_message_subscribe_callback :: "bytes \<Rightarrow> message \<Rightarrow> kermit \<Rightarrow> kermit res" where
  "drive_message_subscribe_callback slack msg k =
     bindR (cmd_vel_from_wire (ke_cvel k) (string_storage msg slack)) (\<lambda>(_, cvel).
       let k1 = k\<lparr>ke_cvel := cvel\<rparr> in
       if \<not> ke_receiving_cvels k1 then Inr (update_teensy_message 0 0 k1)
       else Inr (update_teensy_message (cv_lin cvel) (cv_ang cvel) k1))"

definition localizer_cmd_get_data :: "kermit \<Rightarrow> (message \<times> kermit) res" where
  "localizer_cmd_get_data k =
     bindR (get_teensy_measured_vals k) (\<lambda>m.
     bindR (teensy_sensor_array_to_wire ((ke_teensy_buffer k)\<lparr>ta_v := sr_v m, ta_w := sr_w m,
         ta_dt := sr_dt m\<rparr>)) (\<lambda>(_, t).
     bindR (load (db_data (se_buff (ta_msg t))) 0 (unat (db_byte_length (se_buff (ta_msg t))))) (\<lambda>s.
       Inr (s, k\<lparr>ke_teensy_buffer := t\<rparr>))))"

text \<open>
  The constructor.  \<^verbatim>\<open>teensy.lin\<close> and \<^verbatim>\<open>teensy.ang\<close> are set by \<^verbatim>\<open>update_teensy_message\<close>
  before anything reads them; the values written here first are never seen.
\<close>

definition new_kermit :: "bool \<Rightarrow> bool \<Rightarrow> (kermit rmt_client \<times> kermit) res" where
  "new_kermit verbose debug =
     bindR (new_rmt_client (to_bind_addr KERNEL_ADDRESS)) (\<lambda>c.
     bindR create_cmd_vel (\<lambda>cvel.
     bindR create_teensy_sensor_array (\<lambda>ta.
       let k = \<lparr>ke_verbose = verbose, ke_debug = debug,
             ke_teensy = \<lparr>tn_dev = None, tn_lin = 0, tn_ang = 0, tn_measured = None\<rparr>,
             ke_running = True, ke_async_sender = None, ke_cvel = cvel, ke_teensy_buffer = ta,
             ke_time_alive = 0, ke_port = [], ke_period = 0, ke_receiving_cvels = False\<rparr>;
           k = update_teensy_message 0 0 k;
           (_, k) = set_alive_time 0 k;
           (_, k) = set_serial_attributes ''/dev/ttyACM0'' 100000 k;
           (_, c) = register_ping_func (uint STATE_REQUEST) robot_ping_handler c
       in Inr (c, k))))"

definition kernel_start :: "port_answers \<Rightarrow> (nat \<Rightarrow> bool) \<Rightarrow> (nat \<Rightarrow> nat) \<Rightarrow> kermit rmt_client \<Rightarrow> kermit \<Rightarrow>
    (bool \<times> kermit rmt_client \<times> kermit \<times> nat option) res" where
  "kernel_start fd run elapsed c k =
     bindR (init_teensy_peripheral fd k) (\<lambda>(_, k').
     bindR (kermit_start run elapsed (ke_time_alive k') c) (\<lambda>(r, c', i). Inr (r, c', k', i)))"

section \<open>The decision a state request takes\<close>

text \<open>
  What a state request does to the flag that lets drive messages through: \<open>None\<close> leaves it.
  The tests of a handler run in order, so the last one that fires decides.
\<close>

definition drive_effect :: "u16 \<Rightarrow> u64 \<Rightarrow> bool option" where
  "drive_effect code excess =
     (if code = STOP_EVERYTHING then Some False
      else if code = DUMP \<or> code = MINE then
        (if \<exists>n \<in> {0, 1, 2, 3, 4}. has_flag excess n then Some False else None)
      else if code = MOVE_TO_DUMP \<or> code = MOVE_TO_MINE then
        (if has_flag excess 2 \<or> has_flag excess 4 then Some False
         else if has_flag excess 1 then Some True
         else if has_flag excess 0 then Some False else None)
      else if code = INIT_STATE then
        (if \<exists>n \<in> {0, 1, 2, 3}. has_flag excess n then Some False else None)
      else if code = CLEAN_EXIT then
        (if has_flag excess 3 then Some False
         else if has_flag excess 2 then Some True
         else if has_flag excess 0 then Some False else None)
      else None)"

lemmas handler_defs = stop_everything_handler_def dump_handler_def mine_handler_def
  move_to_mine_handler_def move_to_dump_handler_def init_handler_def clean_exit_handler_def
  set_receiving_def update_teensy_message_def

definition apply_effect :: "u16 \<Rightarrow> u64 \<Rightarrow> kermit \<Rightarrow> kermit" where
  "apply_effect code excess k =
     (let k1 = (case drive_effect code excess of None \<Rightarrow> k | Some b \<Rightarrow> set_receiving b k)
      in if code = STOP_EVERYTHING then update_teensy_message 0 0 k1 else k1)"

lemma set_receiving_same [simp]: "set_receiving (ke_receiving_cvels k) k = k"
  and set_receiving_twice [simp]: "set_receiving b (set_receiving c k) = set_receiving b k"
  by (simp_all add: set_receiving_def)

lemma flag_handlers_eq:
  "dump_handler excess k =
     (if \<exists>n \<in> {0, 1, 2, 3, 4}. has_flag excess n then set_receiving False k else k)"
  "mine_handler excess k =
     (if \<exists>n \<in> {0, 1, 2, 3, 4}. has_flag excess n then set_receiving False k else k)"
  "init_handler excess k =
     (if \<exists>n \<in> {0, 1, 2, 3}. has_flag excess n then set_receiving False k else k)"
  by (simp_all add: dump_handler_def mine_handler_def init_handler_def Let_def
      ENTERING_STATE_def EXITING_STATE_def START_DUMPING_def CLEAN_END_DUMPING_def
      ABORT_DUMPING_def START_MINING_def CLEAN_END_MINING_def ABORT_MINING_def SYS_ON_def
      ZERO_ALL_def DEPLOY_CAMERA_def)

lemma driving_handlers_eq:
  "move_to_mine_handler excess k =
     (if has_flag excess 2 \<or> has_flag excess 4 then set_receiving False k
      else if has_flag excess 1 then set_receiving True k
      else if has_flag excess 0 then set_receiving False k else k)"
  "move_to_dump_handler excess k =
     (if has_flag excess 2 \<or> has_flag excess 4 then set_receiving False k
      else if has_flag excess 1 then set_receiving True k
      else if has_flag excess 0 then set_receiving False k else k)"
  "clean_exit_handler excess k =
     (if has_flag excess 3 then set_receiving False k
      else if has_flag excess 2 then set_receiving True k
      else if has_flag excess 0 then set_receiving False k else k)"
  by (simp_all add: move_to_mine_handler_def move_to_dump_handler_def clean_exit_handler_def Let_def
      ENTERING_STATE_def EXITING_STATE_def START_DRIVING_def STOP_DRIVING_def RETRACT_ALL_def
      SYS_OFF_def)

lemma codes_distinct:
  "distinct [STOP_EVERYTHING, DUMP, MINE, MOVE_TO_DUMP, MOVE_TO_MINE, INIT_STATE, CLEAN_EXIT]"
  by (simp add: const_simps)

lemma robot_ping_handler_eq:
  "robot_ping_handler p k = Inr (\<lparr>pg_type = ACK, pg_code = 0, pg_excess = 0\<rparr>,
     apply_effect (pg_code p) (pg_excess p) k)"
proof -
  let ?c = "pg_code p"
  consider "?c = STOP_EVERYTHING" | "?c = DUMP" | "?c = MINE" | "?c = MOVE_TO_DUMP"
    | "?c = MOVE_TO_MINE" | "?c = INIT_STATE" | "?c = CLEAN_EXIT"
    | "?c \<notin> {STOP_EVERYTHING, DUMP, MINE, MOVE_TO_DUMP, MOVE_TO_MINE, INIT_STATE, CLEAN_EXIT}"
    by blast
  then show ?thesis
    by cases (simp_all add: robot_ping_handler_def apply_effect_def drive_effect_def Let_def
        flag_handlers_eq driving_handlers_eq stop_everything_handler_def const_simps)
qed

section \<open>Runs of the kernel\<close>

text \<open>
  The events: a ping answered, a drive message, odometry published, the controller opened (and the
  sender thread started), a frame sent.  They come in any order; before the controller is open
  no frame is sent, for \<open>sender_round\<close> has no device.
\<close>

datatype event =
    Ev_Ping bytes message
  | Ev_Drive bytes message
  | Ev_Publish message
  | Ev_Open
  | Ev_Send bytes

inductive kernel_step :: "kermit rmt_client \<times> kermit \<Rightarrow> event \<Rightarrow> kermit rmt_client \<times> kermit \<Rightarrow> bool" where
  ping: "ping_server_callback slack msg c k = Inr (reply, c', k') \<Longrightarrow>
    kernel_step (c, k) (Ev_Ping slack msg) (c', k')"
| drive: "drive_message_subscribe_callback slack msg k = Inr k' \<Longrightarrow>
    kernel_step (c, k) (Ev_Drive slack msg) (c, k')"
| publish: "localizer_cmd_get_data k = Inr (msg, k') \<Longrightarrow>
    kernel_step (c, k) (Ev_Publish msg) (c, k')"
| open_device: "init_teensy_peripheral fd k = Inr (ok, k') \<Longrightarrow>
    kernel_step (c, k) Ev_Open (c, k')"
| send: "sender_round written inp i k = Inr (out, i', k') \<Longrightarrow>
    kernel_step (c, k) (Ev_Send out) (c, k')"

inductive_cases kernel_pingE: "kernel_step s (Ev_Ping slack msg) s'"
inductive_cases kernel_driveE: "kernel_step s (Ev_Drive slack msg) s'"
inductive_cases kernel_publishE: "kernel_step s (Ev_Publish msg) s'"
inductive_cases kernel_sendE: "kernel_step s (Ev_Send out) s'"

inductive kernel_run :: "kermit rmt_client \<times> kermit \<Rightarrow> event list \<Rightarrow> kermit rmt_client \<times> kermit \<Rightarrow> bool" where
  finished: "kernel_run s [] s"
| more: "kernel_step s e s1 \<Longrightarrow> kernel_run s1 es s' \<Longrightarrow> kernel_run s (e # es) s'"

inductive_simps kernel_run_Nil [simp]: "kernel_run s [] s'"
inductive_simps kernel_run_Cons: "kernel_run s (e # es) s'"

text \<open>The ping a server sees in received bytes, whatever its buffer held before.\<close>

definition decode_ping :: "bytes \<Rightarrow> message \<Rightarrow> ping option" where
  "decode_ping slack msg =
     (case serialize_from_ping (Some create_buffer_ping) (Some (string_storage msg slack)) of
        Inr (ENONE, Some b) \<Rightarrow> Some (ping_of b)
      | _ \<Rightarrow> None)"

lemma serialize_decode:
  assumes "serialize_from_ping (Some dst) (Some (string_storage msg slack)) = Inr (e, r)"
  shows "e = ENONE \<and> (\<exists>b. r = Some b \<and> decode_ping slack msg = Some (ping_of b))"
proof -
  let ?m = "string_storage msg slack"
  from assms obtain prot op type code check excess where
    g: "get_protocol_version_ping ?m = Inr prot" "get_ping get_opcode_impl_ping ?m = Inr op"
      "get_ping get_type_impl_ping ?m = Inr type" "get_ping get_code_impl_ping ?m = Inr code"
      "get_ping get_checksum_impl_ping ?m = Inr check" "get_ping get_excess_impl_ping ?m = Inr excess"
    and er: "e = ENONE" "r = Some (dst\<lparr>pb_prot := prot, pb_op := op, pb_type := type,
      pb_code := code, pb_check := check, pb_excess := excess\<rparr>)"
    by (auto simp: serialize_from_ping_def bindR_eq_Inr)
  then show ?thesis
    by (simp add: decode_ping_def serialize_from_ping_def ping_of_def)
qed

text \<open>The object as its constructor leaves it: one callback, for state requests.\<close>

definition kernel_callbacks :: "int \<Rightarrow> kermit ping_func option" where
  "kernel_callbacks = (\<lambda>_. None)(uint STATE_REQUEST \<mapsto> robot_ping_handler)"

definition kernel_inv :: "kermit rmt_client \<times> kermit \<Rightarrow> bool" where
  "kernel_inv = (\<lambda>(c, k). rc_callbacks c = kernel_callbacks \<and>
     wf_cmd_vel (ke_cvel k) \<and> wf_teensy_sensor_array (ke_teensy_buffer k) \<and>
     db_byte_length (se_buff (ta_msg (ke_teensy_buffer k))) = 41 \<and>
     (\<forall>d. tn_dev (ke_teensy k) = Some d \<longrightarrow> length (td_buffer d) = BUFFER_SIZE))"

text \<open>A message that switches driving on.\<close>

definition enables :: "event \<Rightarrow> bool" where
  "enables e =
     (case e of
        Ev_Ping slack msg \<Rightarrow>
          (case decode_ping slack msg of
             Some p \<Rightarrow> pg_type p = STATE_REQUEST \<and> drive_effect (pg_code p) (pg_excess p) = Some True
           | None \<Rightarrow> False)
      | _ \<Rightarrow> False)"

definition inactive :: "kermit \<Rightarrow> bool" where
  "inactive k \<longleftrightarrow> \<not> ke_receiving_cvels k \<and> tn_lin (ke_teensy k) = 0 \<and> tn_ang (ke_teensy k) = 0"

text \<open>What a ping does to the kernel: nothing, unless it is a state request.\<close>

lemma kernel_ping_effect:
  assumes "ping_server_callback slack msg c k = Inr (reply, c', k')"
    and "rc_callbacks c = kernel_callbacks"
  shows "\<exists>p. decode_ping slack msg = Some p \<and> rc_callbacks c' = kernel_callbacks \<and>
    k' = (if pg_type p = STATE_REQUEST then apply_effect (pg_code p) (pg_excess p) k else k)"
proof -
  from assms(1) obtain e r b where s: "serialize_from_ping (Some (rc_incoming c))
      (Some (string_storage msg slack)) = Inr (e, r)" "r = Some b"
    by (auto simp: ping_server_callback_def bindR_eq_Inr split: option.splits)
  from serialize_decode [OF s(1)] s(2) have d: "e = ENONE" "decode_ping slack msg = Some (ping_of b)"
    by auto
  show ?thesis
  proof (cases "pg_type (ping_of b) = STATE_REQUEST")
    case True
    with assms s d show ?thesis
      by (auto simp: ping_server_callback_def bindR_eq_Inr Let_def kernel_callbacks_def
          robot_ping_handler_eq)
  next
    case False
    then have "uint (pg_type (ping_of b)) \<noteq> uint STATE_REQUEST"
      by (simp add: word_uint_eq_iff)
    with assms s d False show ?thesis
      by (auto simp: ping_server_callback_def bindR_eq_Inr Let_def kernel_callbacks_def)
  qed
qed

subsection \<open>The invariant\<close>

lemma apply_effect_frame [simp]:
  "ke_debug (apply_effect code excess k) = ke_debug k"
  "ke_cvel (apply_effect code excess k) = ke_cvel k"
  "ke_teensy_buffer (apply_effect code excess k) = ke_teensy_buffer k"
  "tn_dev (ke_teensy (apply_effect code excess k)) = tn_dev (ke_teensy k)"
  "tn_measured (ke_teensy (apply_effect code excess k)) = tn_measured (ke_teensy k)"
  by (simp_all add: apply_effect_def update_teensy_message_def set_receiving_def Let_def
      split: option.split)

lemma localizer_cmd_get_data_eq:
  assumes "wf_teensy_sensor_array (ke_teensy_buffer k)"
    and "db_byte_length (se_buff (ta_msg (ke_teensy_buffer k))) = 41"
  shows "localizer_cmd_get_data k =
    (case tn_measured (ke_teensy k) of None \<Rightarrow> Inl Uninitialised
     | Some m \<Rightarrow> (case teensy_sensor_array_to_wire ((ke_teensy_buffer k)\<lparr>ta_v := sr_v m,
           ta_w := sr_w m, ta_dt := sr_dt m\<rparr>) of
         Inl e \<Rightarrow> Inl e
       | Inr (_, t) \<Rightarrow> Inr (take 41 (db_data (se_buff (ta_msg t))), k\<lparr>ke_teensy_buffer := t\<rparr>)))"
proof (cases "tn_measured (ke_teensy k)")
  case None
  then show ?thesis by (simp add: localizer_cmd_get_data_def get_teensy_measured_vals_def)
next
  case (Some m)
  let ?t = "(ke_teensy_buffer k)\<lparr>ta_v := sr_v m, ta_w := sr_w m, ta_dt := sr_dt m\<rparr>"
  have wf: "wf_teensy_sensor_array ?t" using assms(1) by (simp add: wf_teensy_sensor_array_def)
  obtain d where "teensy_sensor_array_to_wire ?t =
      Inr (1, ?t\<lparr>ta_msg := (ta_msg ?t)\<lparr>se_buff := (se_buff (ta_msg ?t))\<lparr>db_data := d\<rparr>\<rparr>\<rparr>)"
    "length d = 256" by (rule teensy_sensor_array_to_wire_spec [OF wf])
  with Some assms(2) show ?thesis
    by (simp add: localizer_cmd_get_data_def get_teensy_measured_vals_def load_def)
qed

lemma teensy_to_wire_keeps:
  assumes "wf_teensy_sensor_array t" and "teensy_sensor_array_to_wire t = Inr (r, t')"
  shows "wf_teensy_sensor_array t' \<and>
    db_byte_length (se_buff (ta_msg t')) = db_byte_length (se_buff (ta_msg t))"
proof -
  obtain d where "teensy_sensor_array_to_wire t =
      Inr (1, t\<lparr>ta_msg := (ta_msg t)\<lparr>se_buff := (se_buff (ta_msg t))\<lparr>db_data := d\<rparr>\<rparr>\<rparr>)"
    and len: "length d = 256" by (rule teensy_sensor_array_to_wire_spec [OF assms(1)])
  with assms(2) have "t' = t\<lparr>ta_msg := (ta_msg t)\<lparr>se_buff := (se_buff (ta_msg t))\<lparr>db_data := d\<rparr>\<rparr>\<rparr>"
    by simp
  with assms(1) len show ?thesis by (simp add: wf_teensy_sensor_array_def MESSAGE_SIZE_def)
qed

text \<open>One round of the sender: the frame of the current motor values goes out.\<close>

lemma serial_read_loop_length:
  "serial_read_loop inp k i sz t buf = Inr (r, buf', k') \<Longrightarrow> length buf' = length buf"
proof (induction inp k i sz t buf arbitrary: r buf' k' rule: serial_read_loop.induct)
  case (1 inp k i sz t buf)
  note run = "1.prems" [unfolded serial_read_loop.simps [of inp k]]
  show ?case
  proof (cases "i < sz \<and> 0 < t")
    case False
    with run show ?thesis by auto
  next
    case go: True
    show ?thesis
    proof (cases "inp k")
      case Read_Error
      with run go show ?thesis by simp
    next
      case No_Data
      with run go "1.IH"(1) [OF go No_Data] show ?thesis by (auto split: if_splits)
    next
      case (Got b)
      with run go obtain buf1 where "store buf i [b] = Inr buf1"
        "serial_read_loop inp (k + 1) (i + 1) sz t buf1 = Inr (r, buf', k')"
        by (auto simp: bindR_eq_Inr)
      with "1.IH"(2) [OF go Got] store_length show ?thesis by metis
    qed
  qed
qed

lemma read_teensy_response_length:
  "read_teensy_response inp i dev = Inr (ret, dev', r, i') \<Longrightarrow>
    length (td_buffer dev') = length (td_buffer dev)"
  by (auto simp: read_teensy_response_def serialport_read_def bindR_eq_Inr Let_def
      split: if_splits dest: serial_read_loop_length)

lemma sender_round_frame:
  assumes "sender_round written inp i k = Inr (out, i', k')"
    and "\<forall>d. tn_dev (ke_teensy k) = Some d \<longrightarrow> length (td_buffer d) = BUFFER_SIZE"
  shows "out = drive_frame (tn_lin (ke_teensy k)) (tn_ang (ke_teensy k)) \<and>
    tn_lin (ke_teensy k') = tn_lin (ke_teensy k) \<and> tn_ang (ke_teensy k') = tn_ang (ke_teensy k) \<and>
    ke_receiving_cvels k' = ke_receiving_cvels k \<and> ke_cvel k' = ke_cvel k \<and>
    ke_teensy_buffer k' = ke_teensy_buffer k \<and>
    (\<forall>d. tn_dev (ke_teensy k') = Some d \<longrightarrow> length (td_buffer d) = BUFFER_SIZE)"
proof (cases "tn_dev (ke_teensy k)")
  case None
  with assms show ?thesis by (simp add: sender_round_def)
next
  case (Some dev)
  then have len: "length (td_buffer dev) = BUFFER_SIZE" using assms(2) by simp
  from assms(1) Some obtain dev1 ret ret' dev2 r where
    s: "send_drive written dev (tn_lin (ke_teensy k)) (tn_ang (ke_teensy k)) = Inr (ret, dev1, out)" and
    r: "read_teensy_response inp i dev1 = Inr (ret', dev2, r, i')" and
    k': "k' = k\<lparr>ke_teensy := (case r of None \<Rightarrow> (ke_teensy k)\<lparr>tn_dev := Some dev2\<rparr>
      | Some m \<Rightarrow> (ke_teensy k)\<lparr>tn_dev := Some dev2, tn_measured := Some m\<rparr>)\<rparr>"
    by (auto simp: sender_round_def bindR_eq_Inr Let_def)
  have "length (td_buffer dev1) = BUFFER_SIZE"
    using s len by (auto simp: send_drive_eq const_simps)
  then have "length (td_buffer dev2) = BUFFER_SIZE"
    using read_teensy_response_length [OF r] by simp
  with s len k' show ?thesis by (auto simp: send_drive_eq split: option.split)
qed

lemma drive_callback_eq:
  assumes "drive_message_subscribe_callback slack msg k = Inr k'"
  shows "\<exists>l a. load_word (string_storage msg slack) (cv_indexes (ke_cvel k) ! 0) = Inr l \<and>
    load_word (string_storage msg slack) (cv_indexes (ke_cvel k) ! 1) = Inr a \<and>
    k' = (if ke_receiving_cvels k then update_teensy_message l a else update_teensy_message 0 0)
      (k\<lparr>ke_cvel := (ke_cvel k)\<lparr>cv_lin := l, cv_ang := a\<rparr>\<rparr>)"
proof -
  from assms obtain l a :: float32 where
    "load_word (string_storage msg slack) (cv_indexes (ke_cvel k) ! 0) = Inr l"
    "load_word (string_storage msg slack) (cv_indexes (ke_cvel k) ! 1) = Inr a"
    by (auto simp: drive_message_subscribe_callback_def cmd_vel_from_wire_def bindR_eq_Inr)
  with assms show ?thesis
    by (auto simp: drive_message_subscribe_callback_def cmd_vel_from_wire_def Let_def)
qed

lemma kernel_inv_step:
  assumes "kernel_step s e s'" and "kernel_inv s"
  shows "kernel_inv s'"
  using assms
proof (cases rule: kernel_step.cases)
  case (ping slack msg c k reply c' k')
  with assms kernel_ping_effect [OF ping(4)] show ?thesis
    by (auto simp: kernel_inv_def split: if_splits)
next
  case (drive slack msg k k' c)
  obtain l a b where "k' = update_teensy_message l a (k\<lparr>ke_cvel := (ke_cvel k)\<lparr>cv_lin := fst b, cv_ang := snd b\<rparr>\<rparr>)"
    using drive_callback_eq [OF drive(4)] by (cases "ke_receiving_cvels k") force+
  with assms drive show ?thesis
    by (simp add: kernel_inv_def update_teensy_message_def wf_cmd_vel_def)
next
  case (publish k msg k' c)
  have k: "wf_teensy_sensor_array (ke_teensy_buffer k)"
    "db_byte_length (se_buff (ta_msg (ke_teensy_buffer k))) = 41"
    using assms(2) publish(1) by (simp_all add: kernel_inv_def)
  with publish(4) obtain m :: state_resp and r t where
    t: "teensy_sensor_array_to_wire ((ke_teensy_buffer k)\<lparr>ta_v := sr_v m, ta_w := sr_w m,
      ta_dt := sr_dt m\<rparr>) = Inr (r, t)" "k' = k\<lparr>ke_teensy_buffer := t\<rparr>"
    by (auto simp: localizer_cmd_get_data_eq split: option.splits sum.splits)
  from k(1) have "wf_teensy_sensor_array ((ke_teensy_buffer k)\<lparr>ta_v := sr_v m, ta_w := sr_w m,
      ta_dt := sr_dt m\<rparr>)" by (simp add: wf_teensy_sensor_array_def)
  from teensy_to_wire_keeps [OF this t(1)] k(2) t(2) assms(2) publish(1,3) show ?thesis
    by (simp add: kernel_inv_def)
next
  case (open_device fd k ok k' c)
  with assms(2) show ?thesis
    by (auto simp: kernel_inv_def init_teensy_peripheral_def new_teensy_device_def split: if_splits)
next
  case (send written inp i k out i' k' c)
  have dev: "\<forall>d. tn_dev (ke_teensy k) = Some d \<longrightarrow> length (td_buffer d) = BUFFER_SIZE"
    using assms(2) send(1) by (simp add: kernel_inv_def)
  from sender_round_frame [OF send(4) dev] assms(2) send(1,3) show ?thesis
    by (simp add: kernel_inv_def)
qed

lemma kernel_inv_run: "kernel_run s es s' \<Longrightarrow> kernel_inv s \<Longrightarrow> kernel_inv s'"
  by (induction rule: kernel_run.induct) (auto dest: kernel_inv_step)

lemma new_kermit_ok:
  "\<exists>c k. new_kermit verbose debug = Inr (c, k) \<and> kernel_inv (c, k) \<and> inactive k \<and> wf_rmt c \<and>
    tn_measured (ke_teensy k) = None \<and> tn_dev (ke_teensy k) = None \<and>
    ke_async_sender k = None \<and> ke_time_alive k = 0 \<and> ke_debug k = debug"
proof -
  obtain c :: "kermit rmt_client" where c: "new_rmt_client (to_bind_addr KERNEL_ADDRESS) = Inr c" "wf_rmt c"
    using wf_new_rmt_client by blast
  then have cb: "rc_callbacks c = (\<lambda>_. None)"
    by (auto simp: new_rmt_client_def initialize_client_def new_zmq_client_def starting_defs
        start_thread_fresh)
  have len: "db_byte_length (packet 41 4 d) = 41" for d by (simp add: packet_def)
  obtain v where v: "create_cmd_vel = Inr v" "wf_cmd_vel v" using wf_created(1) by blast
  obtain t where t: "create_teensy_sensor_array = Inr t" "wf_teensy_sensor_array t"
    "db_byte_length (se_buff (ta_msg t)) = 41"
    using wf_created(4) len by (auto simp: create_teensy_sensor_array_eq)
  let ?k = "\<lparr>ke_verbose = verbose, ke_debug = debug,
      ke_teensy = \<lparr>tn_dev = None, tn_lin = 0, tn_ang = 0, tn_measured = None\<rparr>,
      ke_running = True, ke_async_sender = None, ke_cvel = v, ke_teensy_buffer = t,
      ke_time_alive = 0, ke_port = ''/dev/ttyACM0'', ke_period = 100000, ke_receiving_cvels = False\<rparr>"
  let ?c = "c\<lparr>rc_callbacks := kernel_callbacks\<rparr>"
  have "new_kermit verbose debug = Inr (?c, ?k)"
    unfolding new_kermit_def c(1) v(1) t(1) bindR_Inr
    by (simp add: update_teensy_message_def set_alive_time_def set_serial_attributes_def
        register_ping_func_def kernel_callbacks_def cb Let_def)
  moreover have "kernel_inv (?c, ?k)" using v t by (simp add: kernel_inv_def)
  moreover have "inactive ?k" by (simp add: inactive_def)
  moreover have "wf_rmt ?c" using c(2) by (simp add: wf_rmt_def)
  ultimately show ?thesis by (intro exI [of _ ?c] exI [of _ ?k]) simp
qed

section \<open>Safety of the motors\<close>

lemma inactive_step:
  assumes "kernel_step (c, k) e (c', k')" and "kernel_inv (c, k)" and "inactive k" and "\<not> enables e"
  shows "inactive k' \<and> (\<forall>out. e = Ev_Send out \<longrightarrow> out = drive_frame 0 0)"
  using assms(1)
proof (cases rule: kernel_step.cases)
  case (ping slack msg reply)
  with assms(2) kernel_ping_effect [OF ping(2)] obtain p where
    p: "decode_ping slack msg = Some p"
      "k' = (if pg_type p = STATE_REQUEST then apply_effect (pg_code p) (pg_excess p) k else k)"
    by (auto simp: kernel_inv_def)
  with assms(4) ping(1) have "pg_type p = STATE_REQUEST \<Longrightarrow>
      drive_effect (pg_code p) (pg_excess p) \<noteq> Some True"
    by (simp add: enables_def)
  with p(2) assms(3) ping(1) show ?thesis
    by (auto simp: inactive_def apply_effect_def update_teensy_message_def set_receiving_def Let_def
        split: option.split)
next
  case (drive slack msg)
  with drive_callback_eq [OF drive(3)] assms(3) show ?thesis
    by (auto simp: inactive_def update_teensy_message_def)
next
  case (publish msg)
  with assms(3) show ?thesis
    by (auto simp: localizer_cmd_get_data_def bindR_eq_Inr inactive_def)
next
  case (open_device fd ok)
  with assms(3) show ?thesis by (auto simp: init_teensy_peripheral_def inactive_def split: if_splits)
next
  case (send written inp i out i')
  have dev: "\<forall>d. tn_dev (ke_teensy k) = Some d \<longrightarrow> length (td_buffer d) = BUFFER_SIZE"
    using assms(2) by (simp add: kernel_inv_def)
  from sender_round_frame [OF send(3) dev] assms(3) send(1) show ?thesis
    by (simp add: inactive_def)
qed

lemma inactive_run:
  assumes "kernel_run s es s'" and "kernel_inv s" and "inactive (snd s)"
    and "\<forall>e \<in> set es. \<not> enables e"
  shows "inactive (snd s') \<and> (\<forall>out. Ev_Send out \<in> set es \<longrightarrow> out = drive_frame 0 0)"
  using assms
proof (induction rule: kernel_run.induct)
  case (finished s)
  then show ?case by simp
next
  case (more s e s1 es s')
  have "inactive (snd s1) \<and> (\<forall>out. e = Ev_Send out \<longrightarrow> out = drive_frame 0 0)"
    using inactive_step [of "fst s" "snd s" e "fst s1" "snd s1"] more by simp
  with more kernel_inv_step [OF more(1)] show ?case by auto
qed

section \<open>Properties\<close>

text \<open>
  C1: the robot does not move before it is told to.  From the constructor, through any
  sequence of received pings and drive messages (of any bytes), published odometry, the opening
  of the motor controller and rounds of the sender thread, as long as no ping was a state request
  that switches driving on, every frame sent to the controller is the letter \<^verbatim>\<open>d\<close>, eight bytes of
  zero (two velocities of 0.0), a newline and a null.
\<close>

theorem no_motion_before_enabled:
  assumes "new_kermit verbose debug = Inr (c, k)" and "kernel_run (c, k) es (c', k')"
    and "\<forall>e \<in> set es. \<not> enables e"
  shows "\<not> ke_receiving_cvels k' \<and> tn_lin (ke_teensy k') = 0 \<and> tn_ang (ke_teensy k') = 0 \<and>
    (\<forall>out. Ev_Send out \<in> set es \<longrightarrow> out = [100, 0, 0, 0, 0, 0, 0, 0, 0, 10, 0])"
proof -
  have "drive_frame 0 0 = [100, 0, 0, 0, 0, 0, 0, 0, 0, 10, 0]" by code_simp
  moreover have "kernel_inv (c, k)" "inactive k"
    using new_kermit_ok [of verbose debug] assms(1) by auto
  ultimately show ?thesis using inactive_run [OF assms(2)] assms(3) by (simp add: inactive_def)
qed

text \<open>
  C2: stopping works.  After a \<^verbatim>\<open>STOP_EVERYTHING\<close> request has been answered, in whatever
  state of a running kernel, every later frame carries zero velocities until another state
  request switches driving on again; drive messages alone never do.
\<close>

theorem stop_everything_stops:
  assumes "kernel_inv (c, k)" and "kernel_step (c, k) (Ev_Ping slack msg) (c1, k1)"
    and "decode_ping slack msg = Some p" and "pg_type p = STATE_REQUEST" and "pg_code p = STOP_EVERYTHING"
    and "kernel_run (c1, k1) es (c', k')" and "\<forall>e \<in> set es. \<not> enables e"
  shows "tn_lin (ke_teensy k') = 0 \<and> tn_ang (ke_teensy k') = 0 \<and>
    (\<forall>out. Ev_Send out \<in> set es \<longrightarrow> out = drive_frame 0 0)"
proof -
  from assms(2) obtain reply where r: "ping_server_callback slack msg c k = Inr (reply, c1, k1)"
    by (auto elim: kernel_pingE)
  have "k1 = apply_effect (pg_code p) (pg_excess p) k"
    using kernel_ping_effect [OF r] assms(1,3,4) by (auto simp: kernel_inv_def)
  then have "inactive k1"
    using assms(5) by (simp add: apply_effect_def drive_effect_def inactive_def
        update_teensy_message_def set_receiving_def Let_def)
  moreover have "kernel_inv (c1, k1)" using kernel_inv_step [OF assms(2,1)] .
  ultimately show ?thesis using inactive_run [OF assms(6)] assms(7) by (simp add: inactive_def)
qed

text \<open>
  The seven handlers together compute one decision.  A request is always acknowledged;
  its code and flags decide whether drive messages are let through from now on as
  \<open>drive_effect\<close> says; only \<^verbatim>\<open>STOP_EVERYTHING\<close> also zeroes the motors, every other request
  leaves the velocities being sent as they are.
\<close>

theorem robot_ping_handler_refines:
  "\<exists>k'. robot_ping_handler p k = Inr (\<lparr>pg_type = ACK, pg_code = 0, pg_excess = 0\<rparr>, k') \<and>
    ke_receiving_cvels k' =
      (case drive_effect (pg_code p) (pg_excess p) of None \<Rightarrow> ke_receiving_cvels k | Some b \<Rightarrow> b) \<and>
    (tn_lin (ke_teensy k'), tn_ang (ke_teensy k')) =
      (if pg_code p = STOP_EVERYTHING then (0, 0) else (tn_lin (ke_teensy k), tn_ang (ke_teensy k)))"
  by (simp add: robot_ping_handler_eq apply_effect_def update_teensy_message_def set_receiving_def
      Let_def split: option.split)

text \<open>
  Two requests in one code, which the message format asks for (\<^verbatim>\<open>ored bits\<close>), are not
  understood: a code with more than one state bit set is acknowledged and changes nothing, even
  when one of them is \<^verbatim>\<open>STOP_EVERYTHING\<close>.
\<close>

theorem combined_codes_ignored:
  assumes "pg_code p = a OR b" and "a \<noteq> b"
    and "a \<in> {STOP_EVERYTHING, DUMP, MINE, MOVE_TO_DUMP, MOVE_TO_MINE, INIT_STATE, CLEAN_EXIT}"
    and "b \<in> {STOP_EVERYTHING, DUMP, MINE, MOVE_TO_DUMP, MOVE_TO_MINE, INIT_STATE, CLEAN_EXIT}"
  shows "robot_ping_handler p k = Inr (\<lparr>pg_type = ACK, pg_code = 0, pg_excess = 0\<rparr>, k)"
proof -
  have "a OR b \<notin> {STOP_EVERYTHING, DUMP, MINE, MOVE_TO_DUMP, MOVE_TO_MINE, INIT_STATE, CLEAN_EXIT}"
    using assms(2-4) by (auto simp: const_simps)
  then show ?thesis using assms(1) by (simp add: robot_ping_handler_def)
qed

lemma combined_codes_ignored_witness:
  "\<forall>k. robot_ping_handler \<lparr>pg_type = STATE_REQUEST, pg_code = 3, pg_excess = 1\<rparr> k =
    Inr (\<lparr>pg_type = ACK, pg_code = 0, pg_excess = 0\<rparr>, k)"
proof
  fix k
  show "robot_ping_handler \<lparr>pg_type = STATE_REQUEST, pg_code = 3, pg_excess = 1\<rparr> k =
      Inr (\<lparr>pg_type = ACK, pg_code = 0, pg_excess = 0\<rparr>, k)"
    using combined_codes_ignored [of "\<lparr>pg_type = STATE_REQUEST, pg_code = 3, pg_excess = 1\<rparr>"
        STOP_EVERYTHING DUMP k] by (simp add: const_simps)
qed

text \<open>The sender's next round on a line that answers.\<close>

lemma sender_round_sends:
  assumes "tn_dev (ke_teensy k) = Some dev" and "length (td_buffer dev) = BUFFER_SIZE"
    and "\<And>j. j < 17 \<Longrightarrow> inp (i + j) = Got (response_frame r ! j)"
  shows "\<exists>k2. sender_round w inp i k = Inr (drive_frame (tn_lin (ke_teensy k)) (tn_ang (ke_teensy k)), i + 17, k2) \<and>
    tn_measured (ke_teensy k2) = Some r"
proof -
  let ?l = "tn_lin (ke_teensy k)" and ?a = "tn_ang (ke_teensy k)"
  define dev2 where "dev2 = dev\<lparr>td_lin := ?l, td_ang := ?a,
      td_buffer := drive_frame ?l ?a @ drop 11 (td_buffer dev)\<rparr>"
  have "length (td_buffer dev2) = BUFFER_SIZE" using assms(2) by (simp add: dev2_def const_simps)
  from read_teensy_response_frame [OF assms(3) this]
  have "\<exists>dev3. read_teensy_response inp i dev2 = Inr (0, dev3, Some r, i + 17)" by blast
  then obtain dev3 where r: "read_teensy_response inp i dev2 = Inr (0, dev3, Some r, i + 17)" by blast
  have s: "send_drive w dev ?l ?a = Inr (11, dev2, drive_frame ?l ?a)"
    unfolding dev2_def by (rule send_drive_eq [OF assms(2)])
  have "sender_round w inp i k = Inr (drive_frame ?l ?a, i + 17,
      k\<lparr>ke_teensy := (ke_teensy k)\<lparr>tn_dev := Some dev3, tn_measured := Some r\<rparr>\<rparr>)"
    unfolding sender_round_def assms(1) by (simp only: option.case s bindR_Inr prod.case r Let_def)
  then show ?thesis by simp
qed

text \<open>A drive message and the sender's next round, from the two floats in the message's bytes.\<close>

lemma drive_then_send:
  assumes "kernel_inv (c, k)" and "tn_dev (ke_teensy k) = Some dev"
    and "\<And>j. j < 17 \<Longrightarrow> inp (i + j) = Got (response_frame r ! j)"
    and ld: "load_word (string_storage msg slack) 15 = Inr l" "load_word (string_storage msg slack) 22 = Inr a"
  shows "\<exists>k1 k2. drive_message_subscribe_callback slack msg k = Inr k1 \<and>
    sender_round w inp i k1 = Inr (if ke_receiving_cvels k then drive_frame l a else drive_frame 0 0, i + 17, k2) \<and>
    tn_measured (ke_teensy k2) = Some r"
proof -
  have ix: "cv_indexes (ke_cvel k) = [15, 22]" and
    len: "length (td_buffer dev) = BUFFER_SIZE"
    using assms(1,2) by (simp_all add: kernel_inv_def wf_cmd_vel_def)
  let ?k1 = "(if ke_receiving_cvels k then update_teensy_message l a
      else update_teensy_message 0 0) (k\<lparr>ke_cvel := (ke_cvel k)\<lparr>cv_lin := l, cv_ang := a\<rparr>\<rparr>)"
  have k1: "drive_message_subscribe_callback slack msg k = Inr ?k1"
    using ix ld by (simp add: drive_message_subscribe_callback_def cmd_vel_from_wire_def Let_def)
  have dev1: "tn_dev (ke_teensy ?k1) = Some dev" using assms(2) by (simp add: update_teensy_message_def)
  let ?l = "tn_lin (ke_teensy ?k1)" and ?a = "tn_ang (ke_teensy ?k1)"
  obtain k2 where k2: "sender_round w inp i ?k1 = Inr (drive_frame ?l ?a, i + 17, k2)"
    "tn_measured (ke_teensy k2) = Some r"
    using sender_round_sends [OF dev1 len assms(3)] by blast
  have v: "?l = (if ke_receiving_cvels k then l else 0)" "?a = (if ke_receiving_cvels k then a else 0)"
    by (simp_all add: update_teensy_message_def)
  have "drive_frame ?l ?a = (if ke_receiving_cvels k then drive_frame l a else drive_frame 0 0)"
    unfolding v by simp
  with k1 k2 show ?thesis by (intro exI conjI) (auto simp only:)
qed

text \<open>
  A velocity command reaches the motors.  While driving is on, the bytes a sender's
  \<^verbatim>\<open>cmd_vel_to_wire\<close> made, delivered as a message of the packet's \<^verbatim>\<open>byte_length\<close>, set the
  two velocities, and the next round of the sender thread writes exactly them to the line;
  while it is off, they set the motors to zero.
\<close>

theorem cmd_vel_reaches_motors:
  assumes "kernel_inv (c, k)" and "wf_cmd_vel m" and "db_byte_length (cv_buff m) = 27"
    and "tn_dev (ke_teensy k) = Some dev"
    and "\<And>j. j < 17 \<Longrightarrow> inp (i + j) = Got (response_frame r ! j)"
  shows "\<exists>m' k1 k2. cmd_vel_to_wire m = Inr (1, m') \<and>
    drive_message_subscribe_callback slack (take (unat (db_byte_length (cv_buff m'))) (db_data (cv_buff m'))) k =
      Inr k1 \<and>
    sender_round w inp i k1 = Inr (if ke_receiving_cvels k then drive_frame (cv_lin m) (cv_ang m)
      else drive_frame 0 0, i + 17, k2) \<and> tn_measured (ke_teensy k2) = Some r"
proof -
  obtain d where d: "cmd_vel_to_wire m = Inr (1, m\<lparr>cv_buff := (cv_buff m)\<lparr>db_data := d\<rparr>\<rparr>)"
    "length d = 256" "\<And>rest. load_word (d @ rest) 15 = Inr (cv_lin m)"
    "\<And>rest. load_word (d @ rest) 22 = Inr (cv_ang m)"
    by (rule cmd_vel_to_wire_spec [OF assms(2)]) blast
  have "load_word (string_storage (take 27 d) slack) 15 = Inr (cv_lin m)"
    "load_word (string_storage (take 27 d) slack) 22 = Inr (cv_ang m)"
    using d(2) d(3) [of "[]"] d(4) [of "[]"]
    by (simp_all add: load_word_def load_def string_storage_def drop_take)
  from drive_then_send [OF assms(1,4,5) this, of w]
  show ?thesis using d(1) assms(3) by auto
qed

text \<open>A kernel whose port was opened, for the witnesses.\<close>

lemma started_kermit:
  "\<exists>c k k' dev. new_kermit False False = Inr (c, k) \<and> init_teensy_peripheral open_port k = Inr (True, k') \<and>
    kernel_inv (c, k') \<and> inactive k' \<and> tn_dev (ke_teensy k') = Some dev \<and> wf_rmt c"
proof -
  obtain c k where k: "new_kermit False False = Inr (c, k)" "kernel_inv (c, k)" "inactive k"
    "ke_async_sender k = None" "ke_debug k = False" "wf_rmt c" using new_kermit_ok by blast
  let ?k' = "k\<lparr>ke_teensy := (ke_teensy k)\<lparr>tn_dev := Some (snd (new_teensy_device open_port))\<rparr>,
      ke_async_sender := Some True\<rparr>"
  have "init_teensy_peripheral open_port k = Inr (True, ?k')"
    using k(4,5) by (simp add: init_teensy_peripheral_def)
  moreover have "kernel_inv (c, ?k')" using k(2)
    by (simp add: kernel_inv_def new_teensy_device_def)
  moreover have "inactive ?k'" using k(3) by (simp add: inactive_def)
  ultimately show ?thesis using k(1,6) by (intro exI [of _ c] exI [of _ k] exI [of _ ?k']) simp
qed

lemma cmd_vel_reaches_motors_witness:
  "\<exists>c k k' m m' k1 k2 r. new_kermit False False = Inr (c, k) \<and> init_teensy_peripheral open_port k = Inr (True, k') \<and>
    create_cmd_vel = Inr m \<and> cmd_vel_to_wire (m\<lparr>cv_lin := 9\<rparr>) = Inr (1, m') \<and>
    drive_message_subscribe_callback [] (take 27 (db_data (cv_buff m'))) k' = Inr k1 \<and>
    sender_round 11 (\<lambda>j. Got (response_frame r ! j)) 0 k1 = Inr (drive_frame 0 0, 17, k2)"
proof -
  obtain c k k' dev where k: "new_kermit False False = Inr (c, k)"
    "init_teensy_peripheral open_port k = Inr (True, k')" "kernel_inv (c, k')" "inactive k'"
    "tn_dev (ke_teensy k') = Some dev" using started_kermit by blast
  obtain m where m: "create_cmd_vel = Inr m" "wf_cmd_vel m" using wf_created(1) by blast
  then have m': "wf_cmd_vel (m\<lparr>cv_lin := 9\<rparr>)" "db_byte_length (cv_buff (m\<lparr>cv_lin := 9\<rparr>)) = 27"
    by (auto simp: wf_cmd_vel_def create_cmd_vel_eq packet_def)
  let ?r = "\<lparr>sr_v = 1, sr_w = 2, sr_w_err = 3, sr_dt = 4\<rparr>"
  obtain m1 k1 k2 where r: "cmd_vel_to_wire (m\<lparr>cv_lin := 9\<rparr>) = Inr (1, m1)"
    "drive_message_subscribe_callback [] (take (unat (db_byte_length (cv_buff m1))) (db_data (cv_buff m1))) k' = Inr k1"
    "sender_round 11 (\<lambda>j. Got (response_frame ?r ! j)) 0 k1 = Inr (drive_frame 0 0, 17, k2)"
    using cmd_vel_reaches_motors [OF k(3) m' k(5), of "\<lambda>j. Got (response_frame ?r ! j)" 0 ?r "[]" 11] k(4)
    by (auto simp: inactive_def)
  obtain d where "cmd_vel_to_wire (m\<lparr>cv_lin := 9\<rparr>) =
      Inr (1, m\<lparr>cv_lin := 9, cv_buff := (cv_buff m)\<lparr>db_data := d\<rparr>\<rparr>)"
    by (rule cmd_vel_to_wire_spec [OF m'(1)]) simp
  with r(1) m'(2) have "unat (db_byte_length (cv_buff m1)) = 27" by auto
  with r(2) have "drive_message_subscribe_callback [] (take 27 (db_data (cv_buff m1))) k' = Inr k1" by simp
  with k(1,2) m(1) r(1,3) show ?thesis by blast
qed

lemma decode_header:
  assumes "pg_type p \<le> MAX_PING_TYPE" and "3 \<le> length slack"
  shows "decode_ping slack (ping_header p) = Some (seen slack p)"
  using serialize_header [OF assms, of create_buffer_ping] by (auto simp: decode_ping_def)

lemma first_frame_witness:
  "\<exists>c k k' k1 k2. new_kermit False False = Inr (c, k) \<and> init_teensy_peripheral open_port k = Inr (True, k') \<and>
    drive_message_subscribe_callback [] (replicate 27 1) k' = Inr k1 \<and>
    sender_round 11 (\<lambda>j. Got (response_frame \<lparr>sr_v = 1, sr_w = 2, sr_w_err = 3, sr_dt = 4\<rparr> ! j)) 0 k1 =
      Inr (drive_frame 0 0, 17, k2)"
proof -
  obtain c k k' dev where k: "new_kermit False False = Inr (c, k)" "init_teensy_peripheral open_port k = Inr (True, k')"
    "kernel_inv (c, k')" "inactive k'" "tn_dev (ke_teensy k') = Some dev" using started_kermit by blast
  let ?r = "\<lparr>sr_v = 1, sr_w = 2, sr_w_err = 3, sr_dt = 4\<rparr>"
  obtain l a :: u32 where "load_word (string_storage (replicate 27 1) []) 15 = Inr l"
    "load_word (string_storage (replicate 27 1) []) 22 = Inr a"
    by (simp add: load_word_def load_def string_storage_def)
  from drive_then_send [OF k(3,5) _ this, of "\<lambda>j. Got (response_frame ?r ! j)" 0 ?r 11] k(1,2,4)
  show ?thesis by (auto simp: inactive_def)
qed

lemma no_motion_before_enabled_witness:
  "\<exists>c k k' out. new_kermit False False = Inr (c, k) \<and>
    kernel_run (c, k) [Ev_Open, Ev_Drive [] (replicate 27 1), Ev_Send out] (c, k') \<and>
    out = [100, 0, 0, 0, 0, 0, 0, 0, 0, 10, 0]"
proof -
  obtain c k k0 k1 k2 where k: "new_kermit False False = Inr (c, k)"
    "init_teensy_peripheral open_port k = Inr (True, k0)"
    "drive_message_subscribe_callback [] (replicate 27 1) k0 = Inr k1"
    "sender_round 11 (\<lambda>j. Got (response_frame \<lparr>sr_v = 1, sr_w = 2, sr_w_err = 3, sr_dt = 4\<rparr> ! j)) 0 k1 =
      Inr (drive_frame 0 0, 17, k2)"
    using first_frame_witness by blast
  have run: "kernel_run (c, k) [Ev_Open, Ev_Drive [] (replicate 27 1), Ev_Send (drive_frame 0 0)] (c, k2)"
    by (rule kernel_run.more [OF kernel_step.open_device [OF k(2)]],
        rule kernel_run.more [OF kernel_step.drive [OF k(3)]],
        rule kernel_run.more [OF kernel_step.send [OF k(4)]]) (rule kernel_run.finished)
  have "\<forall>e \<in> set [Ev_Open, Ev_Drive [] (replicate 27 1), Ev_Send (drive_frame 0 0)]. \<not> enables e"
    by (simp add: enables_def)
  from no_motion_before_enabled [OF k(1) run this] k(1) run show ?thesis by auto
qed

lemma stop_everything_stops_witness:
  "\<exists>c k k0 c1 k1 k2 out. new_kermit False False = Inr (c, k) \<and>
    init_teensy_peripheral open_port k = Inr (True, k0) \<and>
    kernel_step (c, k0\<lparr>ke_teensy := (ke_teensy k0)\<lparr>tn_lin := 7, tn_ang := 9\<rparr>\<rparr>) (Ev_Ping [0, 0, 0]
      (ping_header \<lparr>pg_type = STATE_REQUEST, pg_code = STOP_EVERYTHING, pg_excess = 0\<rparr>)) (c1, k1) \<and>
    kernel_run (c1, k1) [Ev_Send out] (c1, k2) \<and> out = drive_frame 0 0"
proof -
  let ?p = "\<lparr>pg_type = STATE_REQUEST, pg_code = STOP_EVERYTHING, pg_excess = 0\<rparr>"
  let ?r = "\<lparr>sr_v = 1, sr_w = 2, sr_w_err = 3, sr_dt = 4\<rparr>"
  obtain c k k0 dev where k: "new_kermit False False = Inr (c, k)" "init_teensy_peripheral open_port k = Inr (True, k0)"
    "kernel_inv (c, k0)" "tn_dev (ke_teensy k0) = Some dev" "wf_rmt c"
    using started_kermit by blast
  let ?k = "k0\<lparr>ke_teensy := (ke_teensy k0)\<lparr>tn_lin := 7, tn_ang := 9\<rparr>\<rparr>"
  have inv: "kernel_inv (c, ?k)" and dev: "tn_dev (ke_teensy ?k) = Some dev"
    using k(3,4) by (simp_all add: kernel_inv_def)
  have p: "pg_type ?p \<le> MAX_PING_TYPE" "3 \<le> length [0, 0, 0 :: u8]" by (simp_all add: const_simps)
  have cb: "rc_callbacks c (uint (pg_type ?p)) = Some robot_ping_handler"
    using inv by (simp add: kernel_inv_def kernel_callbacks_def)
  obtain ret where "robot_ping_handler (seen [0, 0, 0] ?p) ?k =
      Inr (ret, apply_effect (pg_code (seen [0, 0, 0] ?p)) (pg_excess (seen [0, 0, 0] ?p)) ?k)" (is "_ = Inr (_, ?k1)")
    by (simp add: robot_ping_handler_eq)
  then obtain c1 where "ping_server_callback [0, 0, 0] (ping_header ?p) c ?k = Inr (ping_header ret, c1, ?k1)"
    using ping_server_callback_header [OF k(5) p, of ?k ret ?k1] cb by auto
  then have st: "kernel_step (c, ?k) (Ev_Ping [0, 0, 0] (ping_header ?p)) (c1, ?k1)"
    by (rule kernel_step.ping)
  have dev1: "tn_dev (ke_teensy ?k1) = Some dev" "length (td_buffer dev) = BUFFER_SIZE"
    using dev inv by (simp_all add: kernel_inv_def)
  obtain out i' k2 where "sender_round 11 (\<lambda>j. Got (response_frame ?r ! j)) 0 ?k1 = Inr (out, i', k2)"
    using sender_round_sends [OF dev1, of "\<lambda>j. Got (response_frame ?r ! j)" 0 ?r 11] by auto
  then have run: "kernel_run (c1, ?k1) [Ev_Send out] (c1, k2)"
    using kernel_run.more [OF kernel_step.send kernel_run.finished] by blast
  have quiet: "\<forall>e \<in> set [Ev_Send out]. \<not> enables e" by (simp add: enables_def)
  have req: "pg_type (seen [0, 0, 0] ?p) = STATE_REQUEST" "pg_code (seen [0, 0, 0] ?p) = STOP_EVERYTHING"
    by (simp_all add: seen_def)
  from stop_everything_stops [OF inv st decode_header [OF p] req run quiet]
  have "out = drive_frame 0 0" by simp
  with k(1,2) st run show ?thesis by blast
qed

section \<open>Odometry\<close>

definition never_measured :: "kermit \<Rightarrow> bool" where
  "never_measured k \<longleftrightarrow> ke_debug k \<and> tn_dev (ke_teensy k) = None \<and> tn_measured (ke_teensy k) = None"

lemma never_measured_step:
  assumes "kernel_step s e s'" and "never_measured (snd s)" and "kernel_inv s"
  shows "never_measured (snd s')"
  using assms(1)
proof (cases rule: kernel_step.cases)
  case (ping slack msg c k reply c' k')
  then show ?thesis
    using assms(2,3) kernel_ping_effect [OF ping(4)]
    by (auto simp: never_measured_def kernel_inv_def split: if_splits)
next
  case (drive slack msg k k' c)
  then show ?thesis using assms(2) drive_callback_eq [OF drive(4)]
    by (auto simp: never_measured_def update_teensy_message_def split: if_splits)
qed (use assms(2) in \<open>auto simp: never_measured_def localizer_cmd_get_data_def
    get_teensy_measured_vals_def sender_round_def init_teensy_peripheral_def\<close>)

lemma never_measured_run:
  "kernel_run s es s' \<Longrightarrow> never_measured (snd s) \<Longrightarrow> kernel_inv s \<Longrightarrow> never_measured (snd s')"
  by (induction rule: kernel_run.induct) (auto dest: never_measured_step kernel_inv_step)

text \<open>
  In debug mode, the default, no controller is opened, and the odometry the kernel
  publishes every second is read from members nobody initialised: in every state such a kernel
  reaches, \<^verbatim>\<open>localizer_cmd_get_data\<close> reads uninitialised memory.
\<close>

theorem debug_odometry_uninitialised:
  assumes "new_kermit verbose True = Inr (c, k)" and "kernel_run (c, k) es (c', k')"
  shows "localizer_cmd_get_data k' = Inl Uninitialised"
proof -
  have "never_measured k" "kernel_inv (c, k)"
    using new_kermit_ok [of verbose True] assms(1) by (auto simp: never_measured_def)
  with never_measured_run [OF assms(2)] have "never_measured k'" by simp
  then show ?thesis
    by (simp add: localizer_cmd_get_data_def get_teensy_measured_vals_def never_measured_def)
qed

lemma debug_odometry_uninitialised_witness:
  "\<exists>c k. new_kermit False True = Inr (c, k) \<and> localizer_cmd_get_data k = Inl Uninitialised"
  using new_kermit_ok [of False True] debug_odometry_uninitialised [OF _ kernel_run.finished] by blast

text \<open>
  Once the controller has answered, the message published is a teensy message that any
  receiver's \<^verbatim>\<open>teensy_sensor_array_from_wire\<close> reads back: velocity, rotation and time step are
  those of the last answer, and 41 bytes are enough for it.
\<close>

theorem odometry_published:
  assumes "kernel_inv (c, k)" and "tn_measured (ke_teensy k) = Some m" and "wf_teensy_sensor_array n"
  shows "\<exists>s k' n'. localizer_cmd_get_data k = Inr (s, k') \<and> length s = 41 \<and> kernel_inv (c, k') \<and>
    teensy_sensor_array_from_wire n (s @ rest) = Inr (1, n') \<and>
    ta_v n' = sr_v m \<and> ta_w n' = sr_w m \<and> ta_dt n' = sr_dt m"
proof -
  let ?t = "(ke_teensy_buffer k)\<lparr>ta_v := sr_v m, ta_w := sr_w m, ta_dt := sr_dt m\<rparr>"
  have k: "wf_teensy_sensor_array (ke_teensy_buffer k)"
    "db_byte_length (se_buff (ta_msg (ke_teensy_buffer k))) = 41"
    using assms(1) by (simp_all add: kernel_inv_def)
  then have wf: "wf_teensy_sensor_array ?t" by (simp add: wf_teensy_sensor_array_def)
  obtain d where d: "teensy_sensor_array_to_wire ?t =
      Inr (1, ?t\<lparr>ta_msg := (ta_msg ?t)\<lparr>se_buff := (se_buff (ta_msg ?t))\<lparr>db_data := d\<rparr>\<rparr>\<rparr>)"
    "length d = 256" "load_word (d @ []) 15 = Inr TEENSY_MSG" "load_word (d @ []) 22 = Inr (ta_v ?t)"
    "load_word (d @ []) 29 = Inr (ta_w ?t)" "load_word (d @ []) 36 = Inr (ta_dt ?t)"
    by (rule teensy_sensor_array_to_wire_spec [OF wf]) blast
  let ?k' = "k\<lparr>ke_teensy_buffer := ?t\<lparr>ta_msg := (ta_msg ?t)\<lparr>se_buff := (se_buff (ta_msg ?t))\<lparr>db_data := d\<rparr>\<rparr>\<rparr>\<rparr>"
  have g: "localizer_cmd_get_data k = Inr (take 41 d, ?k')"
    using localizer_cmd_get_data_eq [OF k] assms(2) d(1) by simp
  then have "kernel_inv (c, ?k')"
    using kernel_inv_step [OF kernel_step.publish assms(1)] by blast
  moreover have "(load_word (take 41 d @ rest) p :: u32 res) = load_word (d @ []) p" if "p + 4 \<le> 41" for p
    using that d(2) by (simp add: load_word_def load_def drop_take)
  then have "teensy_sensor_array_from_wire n (take 41 d @ rest) =
      Inr (1, n\<lparr>ta_v := sr_v m, ta_w := sr_w m, ta_dt := sr_dt m\<rparr>)"
    using assms(3) d by (simp add: teensy_sensor_array_from_wire_def wf_teensy_sensor_array_def)
  ultimately show ?thesis using g d(2)
    by (intro exI [of _ "take 41 d"] exI [of _ ?k']
        exI [of _ "n\<lparr>ta_v := sr_v m, ta_w := sr_w m, ta_dt := sr_dt m\<rparr>"]) simp
qed

lemma odometry_published_witness:
  "\<exists>k s k' n n'. localizer_cmd_get_data k = Inr (s, k') \<and>
    teensy_sensor_array_from_wire n (s @ [0]) = Inr (1, n') \<and> ta_v n' = 5"
proof -
  obtain c k where k: "new_kermit False False = Inr (c, k)" "kernel_inv (c, k)"
    using new_kermit_ok by blast
  obtain n where n: "wf_teensy_sensor_array n" using wf_created(4) by blast
  let ?m = "\<lparr>sr_v = 5, sr_w = 0, sr_w_err = 0, sr_dt = 1\<rparr>"
  let ?k = "k\<lparr>ke_teensy := (ke_teensy k)\<lparr>tn_measured := Some ?m\<rparr>\<rparr>"
  have "kernel_inv (c, ?k)" using k(2) by (simp add: kernel_inv_def)
  from odometry_published [OF this _ n, of ?m "[0]"] show ?thesis by auto
qed

section \<open>Starting and quitting\<close>

text \<open>The test that ends the waiting loop.\<close>

definition stops_at :: "(nat \<Rightarrow> bool) \<Rightarrow> (nat \<Rightarrow> nat) \<Rightarrow> nat \<Rightarrow> nat \<Rightarrow> bool" where
  "stops_at run elapsed time_alive i \<longleftrightarrow> \<not> run i \<or> (time_alive \<noteq> 0 \<and> time_alive \<le> elapsed i)"

lemma wait_loop_step:
  "wait_loop run elapsed (t = 0) t i =
    (if stops_at run elapsed t i then Some i else wait_loop run elapsed (t = 0) t (i + 1))"
  by (subst wait_loop.simps) (auto simp: stops_at_def)

lemma wait_loop_first:
  assumes "stops_at run elapsed t (i + d)" and "\<forall>j < d. \<not> stops_at run elapsed t (i + j)"
  shows "wait_loop run elapsed (t = 0) t i = Some (i + d)"
  using assms
proof (induction d arbitrary: i)
  case 0
  then show ?case by (simp add: wait_loop_step)
next
  case (Suc d)
  have "\<not> stops_at run elapsed t i" using Suc.prems(2) by force
  moreover have "\<forall>j < d. \<not> stops_at run elapsed t (Suc i + j)" using Suc.prems(2) by force
  ultimately show ?case using Suc.IH [of "Suc i"] Suc.prems(1) by (subst wait_loop_step) simp
qed

lemma wait_loop_stops:
  assumes "wait_loop run elapsed forever t i = Some r"
  shows "forever = (t = 0) \<longrightarrow> stops_at run elapsed t r"
proof (rule wait_loop.raw_induct [OF _ assms,
      where P = "\<lambda>run elapsed forever t i r. forever = (t = 0) \<longrightarrow> stops_at run elapsed t r"])
  fix f run elapsed forever t i r
  assume "\<And>run elapsed forever t i r. f run elapsed forever t i = Some r \<Longrightarrow>
      forever = (t = 0) \<longrightarrow> stops_at run elapsed t r"
    and "(if run i \<and> (forever \<or> elapsed i < t) then f run elapsed forever t (i + 1) else Some i) = Some r"
  then show "forever = (t = 0) \<longrightarrow> stops_at run elapsed t r"
    by (auto simp: stops_at_def split: if_splits)
qed

lemma start_ok:
  assumes "zc_subscribers (rc_net c) = []" and "zc_periodic_publishers (rc_net c) = []"
  shows "\<exists>c'. init_comms c = Inr (True, c') \<and>
    zc_subscribers (rc_net c') = [(to_conn_addr CMD_VEL_BACK, running (subscriber_task
      (to_conn_addr CMD_VEL_BACK) cmd_vel_topic Drive_Message_Callback True (Some ZMQ_SUB)))] \<and>
    zc_periodic_publishers (rc_net c') = [(to_conn_addr LOCALIZER_FRONT, running (publisher_task
      (to_conn_addr LOCALIZER_FRONT) localizer_topic Localizer_Cmd_Get_Data 1000000 True (Some ZMQ_PUB)))]"
  using assms by (simp add: init_comms_def starting_defs start_thread_fresh)

text \<open>
  \<^verbatim>\<open>kermit_start\<close> subscribes to the velocity commands and publishes odometry, then waits;
  it returns at the first test that finds \<^verbatim>\<open>running\<close> false or the time used up, and with
  an alive time of zero it returns only when \<^verbatim>\<open>running\<close> is cleared.
\<close>

theorem kermit_start_returns:
  assumes "zc_subscribers (rc_net c) = []" and "zc_periodic_publishers (rc_net c) = []"
  shows "\<exists>c' r. kermit_start run elapsed t c = Inr (True, c', r) \<and>
    map fst (zc_subscribers (rc_net c')) = [to_conn_addr CMD_VEL_BACK] \<and>
    map fst (zc_periodic_publishers (rc_net c')) = [to_conn_addr LOCALIZER_FRONT] \<and>
    r = (if \<exists>i. stops_at run elapsed t i then Some (LEAST i. stops_at run elapsed t i) else None)"
proof -
  obtain c' where c': "init_comms c = Inr (True, c')"
    "map fst (zc_subscribers (rc_net c')) = [to_conn_addr CMD_VEL_BACK]"
    "map fst (zc_periodic_publishers (rc_net c')) = [to_conn_addr LOCALIZER_FRONT]"
    using start_ok [OF assms] by auto
  have "wait_loop run elapsed (t = 0) t 0 =
    (if \<exists>i. stops_at run elapsed t i then Some (LEAST i. stops_at run elapsed t i) else None)"
  proof (cases "\<exists>i. stops_at run elapsed t i")
    case True
    then have "stops_at run elapsed t (LEAST i. stops_at run elapsed t i)" by (rule LeastI_ex)
    moreover have "\<forall>j < (LEAST i. stops_at run elapsed t i). \<not> stops_at run elapsed t j"
      using not_less_Least by blast
    ultimately have "wait_loop run elapsed (t = 0) t 0 = Some (LEAST i. stops_at run elapsed t i)"
      using wait_loop_first [of run elapsed t 0 "LEAST i. stops_at run elapsed t i"]
      unfolding add_0 by blast
    with True show ?thesis by (simp only: if_True)
  next
    case False
    have "wait_loop run elapsed (t = 0) t 0 = None"
    proof (cases "wait_loop run elapsed (t = 0) t 0")
      case (Some r)
      then show ?thesis using wait_loop_stops [OF Some] False by blast
    qed
    with False show ?thesis by (simp only: if_False)
  qed
  with c' show ?thesis by (simp add: kermit_start_def Let_def)
qed

lemma kermit_start_returns_witness:
  "\<exists>c :: kermit rmt_client. new_rmt_client ''tcp://*:5450'' = Inr c \<and>
    (\<exists>c' r. kermit_start (\<lambda>i. i < 2) (\<lambda>_. 0) 0 c = Inr (True, c', r))"
proof -
  obtain c :: "kermit rmt_client" where c: "new_rmt_client ''tcp://*:5450'' = Inr c"
    using wf_new_rmt_client by blast
  then have "zc_subscribers (rc_net c) = []" "zc_periodic_publishers (rc_net c) = []"
    by (auto simp: new_rmt_client_def initialize_client_def new_zmq_client_def starting_defs
        start_thread_fresh)
  from kermit_start_returns [OF this] c show ?thesis by blast
qed

section \<open>Taking the kernel down\<close>

lemma new_kermit_net:
  assumes "new_kermit verbose debug = Inr (c, k)"
  shows "zc_subscribers (rc_net c) = []" and "zc_periodic_publishers (rc_net c) = []"
    and "zc_periodic_clients (rc_net c) = []" and "wf_client (rc_net c)" and "all_live (rc_net c)"
    and "ke_debug k = debug" and "ke_async_sender k = None" and "tn_dev (ke_teensy k) = None"
    and "ke_time_alive k = 0"
  using assms
  by (auto simp: new_kermit_def new_rmt_client_def initialize_client_def new_zmq_client_def
      starting_defs start_thread_fresh bindR_eq_Inr Let_def register_ping_func_def
      set_serial_attributes_def set_alive_time_def update_teensy_message_def wf_client_def wf_spaces_def
      all_live_def split: option.splits)

lemma init_comms_live:
  assumes "zc_subscribers (rc_net c) = []" and "zc_periodic_publishers (rc_net c) = []"
    and "wf_client (rc_net c)" and "all_live (rc_net c)"
  shows "\<exists>c'. init_comms c = Inr (True, c') \<and> wf_client (rc_net c') \<and> all_live (rc_net c')"
  using assms
  by (simp add: init_comms_def starting_defs start_thread_fresh wf_client_def wf_spaces_def all_live_def)

lemma quit_all_live:
  assumes "wf_client c" and "all_live c"
  shows "\<exists>c'. quit c = Inr (True, c') \<and> (\<forall>(a, sp) \<in> set (zc_subscribers c') \<union> set (zc_servers c') \<union>
    set (zc_periodic_publishers c'). \<not> live sp)"
  using assms quit_eq [OF assms(1)] by (auto dest: not_live_stop_all)

text \<open>
  How a kernel ends.  A kernel that was built, started and destroyed stops and joins every
  thread it owns, but the two destructors both clean up the device: with a controller its
  handle is closed twice, and without one (debug mode) \<^verbatim>\<open>close\<close> is called on a handle that was
  never set.
\<close>

theorem kernel_teardown:
  assumes "new_kermit verbose debug = Inr (c, k)"
    and "kernel_start ans run elapsed c k = Inr (ok, c1, k1, i)"
  shows "if debug then destroy_kernel c1 k1 = Inl Uninitialised
    else \<exists>c2 k2. destroy_kernel c1 k1 =
        Inr (True, c2, k2, [fst (serialport_init ans 9600), fst (serialport_init ans 9600)]) \<and>
      ke_async_sender k2 = Some False \<and>
      (\<forall>(a, sp) \<in> set (zc_subscribers (rc_net c2)) \<union> set (zc_servers (rc_net c2)) \<union>
        set (zc_periodic_publishers (rc_net c2)). \<not> live sp)"
proof -
  note net = new_kermit_net [OF assms(1)]
  obtain c' where c': "init_comms c = Inr (True, c')" "wf_client (rc_net c')" "all_live (rc_net c')"
    using init_comms_live [OF net(1,2,4,5)] by blast
  obtain net' where q: "quit (rc_net c') = Inr (True, net')"
    "\<forall>(a, sp) \<in> set (zc_subscribers net') \<union> set (zc_servers net') \<union>
      set (zc_periodic_publishers net'). \<not> live sp"
    using quit_all_live [OF c'(2,3)] by blast
  have run: "c1 = c'" "init_teensy_peripheral ans k = Inr (True, k1)"
    using assms(2) c'(1)
    by (auto simp: kernel_start_def kermit_start_def Let_def bindR_eq_Inr init_teensy_peripheral_def
        split: if_splits)
  show ?thesis
    using net(6,7,8) run q
    by (auto simp: init_teensy_peripheral_def destroy_kernel_def kermit_quit_def close_device_def
        teensy_cleanup_def new_teensy_device_def Let_def split: if_splits)
qed

lemma kernel_teardown_witness:
  "\<exists>c k c1 k1 c2 k2. new_kermit False False = Inr (c, k) \<and>
    kernel_start open_port (\<lambda>i. i < 3) (\<lambda>_. 0) c k = Inr (True, c1, k1, Some 3) \<and>
    destroy_kernel c1 k1 = Inr (True, c2, k2, [3, 3])"
proof -
  obtain c k where k: "new_kermit False False = Inr (c, k)" using new_kermit_ok by blast
  note net = new_kermit_net [OF k]
  obtain c' where c': "init_comms c = Inr (True, c')" using init_comms_live [OF net(1,2,4,5)] by blast
  have w: "wait_loop (\<lambda>i. i < 3) (\<lambda>_. 0) True 0 0 = Some 3"
    using wait_loop_first [of "\<lambda>i. i < 3" "\<lambda>_. 0" 0 0 3] by (simp add: stops_at_def)
  obtain k1 where st: "kernel_start open_port (\<lambda>i. i < 3) (\<lambda>_. 0) c k = Inr (True, c', k1, Some 3)"
    using c' w net(6,7,9)
    by (simp add: kernel_start_def kermit_start_def init_teensy_peripheral_def)
  have "fst (serialport_init open_port 9600) = 3"
    by (simp add: serialport_init_def open_port_def Let_def)
  with kernel_teardown [OF k st] k st show ?thesis by auto
qed

end
