(* ===== verification/Network_Patterns.thy ===== *)
theory Network_Patterns
  imports Zmq_Control_Client
begin

text \<open>
  Model of \<^verbatim>\<open>src/control/NetworkPatterns.cpp\<close>: the loops the socket threads run, and the thread
  functions that run them on a context of \<open>Thread_Contexts\<close>.  A loop tests its exit signal at the start of each round; what the
  \<open>i\<close>-th round finds is the \<open>i\<close>-th element of a list, and the list ends where the signal is
  found given, so a run of \<open>n\<close> rounds is a list of length \<open>n\<close>.  A callback works on the state
  \<open>'s\<close> of its object.  Clocks and sleeping are not modelled: they change only when a
  round happens.  A loop is left when its signal is found given, or its thread is held for ever
  by \<^verbatim>\<open>s_recv\<close>, which waits for a frame that never comes and does not look at the signal
  (\<open>thread_end\<close>).  \<^verbatim>\<open>bind\<close> and \<^verbatim>\<open>connect\<close> are taken to accept the address they are given.
\<close>

section \<open>The loops\<close>

datatype thread_end = Left_Loop | Held

type_synonym 's data_source = "'s \<Rightarrow> (message \<times> 's) res"
type_synonym 's sink = "message \<Rightarrow> 's \<Rightarrow> 's res"
type_synonym 's service = "message \<Rightarrow> 's \<Rightarrow> (message \<times> 's) res"

text \<open>The publisher: a topic frame and a data frame in each of \<open>n\<close> rounds.\<close>

fun publish_loop :: "string \<Rightarrow> 's data_source \<Rightarrow> nat \<Rightarrow> 's \<Rightarrow> (message list \<times> 's) res" where
  "publish_loop topic get_data 0 s = Inr ([], s)"
| "publish_loop topic get_data (Suc n) s =
     bindR (get_data s) (\<lambda>(msg, s1).
     bindR (publish_loop topic get_data n s1) (\<lambda>(out, s2).
       Inr (bytes_of_string topic # msg # out, s2)))"

text \<open>
  The subscriber: a round polls; when something is there, two frames are read, the first (the
  topic) is dropped and the second handed to the callback.  \<open>frames\<close> are all the frames that
  ever arrive on the socket; a read with none left holds the thread.
\<close>

fun subscription_loop :: "'s sink \<Rightarrow> bool list \<Rightarrow> message list \<Rightarrow> 's \<Rightarrow> (thread_end \<times> 's) res" where
  "subscription_loop callback [] frames s = Inr (Left_Loop, s)"
| "subscription_loop callback (False # polls) frames s = subscription_loop callback polls frames s"
| "subscription_loop callback (True # polls) (topic # data # frames) s =
     bindR (callback data s) (subscription_loop callback polls frames)"
| "subscription_loop callback (True # polls) [topic] s = Inr (Held, s)"
| "subscription_loop callback (True # polls) [] s = Inr (Held, s)"

text \<open>
  The requester: in each round one request out, one reply in; \<open>None\<close> is a request nobody answers,
  which holds the thread in the round that sent it.
\<close>

fun requester_loop :: "'s data_source \<Rightarrow> 's sink \<Rightarrow> message option list \<Rightarrow> 's \<Rightarrow>
    (thread_end \<times> message list \<times> 's) res" where
  "requester_loop get_data callback [] s = Inr (Left_Loop, [], s)"
| "requester_loop get_data callback (None # replies) s =
     bindR (get_data s) (\<lambda>(msg, s1). Inr (Held, [msg], s1))"
| "requester_loop get_data callback (Some reply # replies) s =
     bindR (get_data s) (\<lambda>(msg, s1).
     bindR (callback reply s1) (\<lambda>s2.
     bindR (requester_loop get_data callback replies s2) (\<lambda>(fin, out, s3).
       Inr (fin, msg # out, s3))))"

text \<open>
  The server: a round polls; a request found is answered with the callback's result.  A poll
  that finds a request finds the one frame that is read, so this loop is always left.  The two
  variants differ in \<^verbatim>\<open>bind\<close> and \<^verbatim>\<open>connect\<close> only.
\<close>

fun server_loop :: "'s service \<Rightarrow> message option list \<Rightarrow> 's \<Rightarrow> (message list \<times> 's) res" where
  "server_loop callback [] s = Inr ([], s)"
| "server_loop callback (None # polls) s = server_loop callback polls s"
| "server_loop callback (Some req # polls) s =
     bindR (callback req s) (\<lambda>(reply, s1).
     bindR (server_loop callback polls s1) (\<lambda>(out, s2). Inr (reply # out, s2)))"

section \<open>The thread functions\<close>

text \<open>
  A thread function takes what it needs out of its context, connects or binds the socket and
  runs the loop.  A socket or period that was never set, an exit signal without a promise and an
  empty callback show as faults, the last one only when the callback is called.  The program's
  callbacks are named in the contexts; \<open>data_of\<close>, \<open>sink_of\<close> and \<open>service_of\<close> say what the names
  stand for.  The result says where the socket is connected or bound, how the loop ended, and, for
  a publisher, requester and server, what the thread sent.
\<close>

datatype endpoint = Connected address | Bound address

definition grab :: "fault \<Rightarrow> 'a option \<Rightarrow> 'a res" where
  "grab e v = (case v of None \<Rightarrow> Inl e | Some x \<Rightarrow> Inr x)"

definition wait_for :: "bool \<Rightarrow> unit res" where
  "wait_for exit_signal = (if exit_signal then Inr () else Inl No_State)"

definition call_source :: "('cb \<Rightarrow> 's data_source) \<Rightarrow> 'cb option \<Rightarrow> 's data_source" where
  "call_source data_of f s = bindR (grab Bad_Function_Call f) (\<lambda>f. data_of f s)"

definition call_sink :: "('cb \<Rightarrow> 's sink) \<Rightarrow> 'cb option \<Rightarrow> 's sink" where
  "call_sink sink_of f m s = bindR (grab Bad_Function_Call f) (\<lambda>f. sink_of f m s)"

definition call_service :: "('cb \<Rightarrow> 's service) \<Rightarrow> 'cb option \<Rightarrow> 's service" where
  "call_service service_of f m s = bindR (grab Bad_Function_Call f) (\<lambda>f. service_of f m s)"

definition periodic_publish_thread ::
    "('cb \<Rightarrow> 's data_source) \<Rightarrow> 'cb publisher_context \<Rightarrow> nat \<Rightarrow> 's \<Rightarrow>
      (endpoint \<times> thread_end \<times> message list \<times> 's) res" where
  "periodic_publish_thread data_of properties n s =
     bindR (grab Null_Deref (pc_socket properties)) (\<lambda>_.
     bindR (grab Uninitialised (pc_period properties)) (\<lambda>_.
     bindR (wait_for (pc_exit_signal properties)) (\<lambda>_.
     bindR (publish_loop (pc_topic properties) (call_source data_of (pc_data properties)) n s) (\<lambda>(out, s').
       Inr (Connected (pc_sock_addr properties), Left_Loop, out, s')))))"

text \<open>The third component is the prefix the socket subscribes to.\<close>

definition subscription_thread ::
    "('cb \<Rightarrow> 's sink) \<Rightarrow> 'cb subscriber_context \<Rightarrow> bool list \<Rightarrow> message list \<Rightarrow> 's \<Rightarrow>
      (endpoint \<times> thread_end \<times> string \<times> 's) res" where
  "subscription_thread sink_of properties polls frames s =
     bindR (grab Null_Deref (sbc_socket properties)) (\<lambda>_.
     bindR (wait_for (sbc_exit_signal properties)) (\<lambda>_.
     bindR (subscription_loop (call_sink sink_of (sbc_callback properties)) polls frames s) (\<lambda>(fin, s').
       Inr (Connected (sbc_address properties), fin, sbc_topic properties, s'))))"

definition requester_thread ::
    "('cb \<Rightarrow> 's data_source) \<Rightarrow> ('cb \<Rightarrow> 's sink) \<Rightarrow> 'cb requester_context \<Rightarrow> message option list \<Rightarrow> 's \<Rightarrow>
      (endpoint \<times> thread_end \<times> message list \<times> 's) res" where
  "requester_thread data_of sink_of properties replies s =
     bindR (grab Uninitialised (rqc_period properties)) (\<lambda>_.
     bindR (wait_for (rqc_exit_signal properties)) (\<lambda>_.
     bindR (if replies = [] then Inr () else bindR (grab Null_Deref (rqc_socket properties)) (\<lambda>_. Inr ())) (\<lambda>_.
     bindR (requester_loop (call_source data_of (rqc_get_data properties))
         (call_sink sink_of (rqc_callback properties)) replies s) (\<lambda>(fin, out, s').
       Inr (Connected (rqc_server properties), fin, out, s')))))"

definition server_thread_bound ::
    "('cb \<Rightarrow> 's service) \<Rightarrow> 'cb server_context \<Rightarrow> message option list \<Rightarrow> 's \<Rightarrow>
      (endpoint \<times> thread_end \<times> message list \<times> 's) res" where
  "server_thread_bound service_of properties polls s =
     bindR (grab Null_Deref (svc_socket properties)) (\<lambda>_.
     bindR (wait_for (svc_exit_signal properties)) (\<lambda>_.
     bindR (server_loop (call_service service_of (svc_callback properties)) polls s) (\<lambda>(out, s').
       Inr (Bound (svc_sock_addr properties), Left_Loop, out, s'))))"

definition server_thread ::
    "('cb \<Rightarrow> 's service) \<Rightarrow> 'cb server_context \<Rightarrow> message option list \<Rightarrow> 's \<Rightarrow>
      (endpoint \<times> thread_end \<times> message list \<times> 's) res" where
  "server_thread service_of properties polls s =
     bindR (grab Null_Deref (svc_socket properties)) (\<lambda>_.
     bindR (wait_for (svc_exit_signal properties)) (\<lambda>_.
     bindR (server_loop (call_service service_of (svc_callback properties)) polls s) (\<lambda>(out, s').
       Inr (Connected (svc_sock_addr properties), Left_Loop, out, s'))))"

text \<open>\<^verbatim>\<open>Server_Context::enter_thread\<close> chooses by the flag of its constructor.\<close>

definition server_enter_thread ::
    "('cb \<Rightarrow> 's service) \<Rightarrow> 'cb server_context \<Rightarrow> message option list \<Rightarrow> 's \<Rightarrow>
      (endpoint \<times> thread_end \<times> message list \<times> 's) res" where
  "server_enter_thread service_of p polls s =
     (if svc_bound p then server_thread_bound service_of p polls s
      else server_thread service_of p polls s)"

text \<open>
  The thread a client starts on a context: the thread functions of \<^verbatim>\<open>ZMQControlClient.hpp\<close> and
  the \<^verbatim>\<open>enter_thread\<close> of the context's class.  What the sockets deliver in the run is one
  record; a kind of thread uses its part.
\<close>

record traffic =
  tr_rounds :: nat
  tr_polls :: "bool list"
  tr_frames :: "message list"
  tr_replies :: "message option list"
  tr_requests :: "message option list"

fun enter_thread ::
    "('cb \<Rightarrow> 's data_source) \<Rightarrow> ('cb \<Rightarrow> 's sink) \<Rightarrow> ('cb \<Rightarrow> 's service) \<Rightarrow> 'cb task \<Rightarrow> traffic \<Rightarrow> 's \<Rightarrow>
      (endpoint \<times> thread_end \<times> message list \<times> 's) res" where
  "enter_thread data_of sink_of service_of (Publisher_Thread p) tr s =
     periodic_publish_thread data_of p (tr_rounds tr) s"
| "enter_thread data_of sink_of service_of (Requester_Thread p) tr s =
     requester_thread data_of sink_of p (tr_replies tr) s"
| "enter_thread data_of sink_of service_of (Subscriber_Thread p) tr s =
     bindR (subscription_thread sink_of p (tr_polls tr) (tr_frames tr) s) (\<lambda>(e, fin, _, s'). Inr (e, fin, [], s'))"
| "enter_thread data_of sink_of service_of (Server_Thread p) tr s =
     server_enter_thread service_of p (tr_requests tr) s"

lemma grab_Some [simp]: "grab e (Some x) = Inr x" and grab_None [simp]: "grab e None = Inl e"
  by (simp_all add: grab_def)

lemma wait_for_simps [simp]: "wait_for True = Inr ()" "wait_for False = Inl No_State"
  by (simp_all add: wait_for_def)

lemma call_Some [simp]:
  "call_source data_of (Some f) = data_of f"
  "call_sink sink_of (Some g) = sink_of g"
  "call_service service_of (Some h) = service_of h"
  by (simp_all add: call_source_def call_sink_def call_service_def fun_eq_iff)

section \<open>Folding a callback over messages\<close>

fun deliver :: "'s sink \<Rightarrow> message list \<Rightarrow> 's \<Rightarrow> 's res" where
  "deliver callback [] s = Inr s"
| "deliver callback (m # ms) s = bindR (callback m s) (deliver callback ms)"

fun end_of :: "thread_end \<Rightarrow> 'a res \<Rightarrow> (thread_end \<times> 'a) res" where
  "end_of fin (Inl e) = Inl e"
| "end_of fin (Inr s) = Inr (fin, s)"

text \<open>The data frames of a list of published messages.\<close>

definition frames_of :: "(string \<times> message) list \<Rightarrow> message list" where
  "frames_of ms = concat (map (\<lambda>(t, m). [bytes_of_string t, m]) ms)"

lemma frames_of_simps [simp]:
  "frames_of [] = []" "frames_of ((t, m) # ms) = bytes_of_string t # m # frames_of ms"
  by (simp_all add: frames_of_def)

lemma subscription_delivers:
  "length (filter id polls) = length ms \<Longrightarrow>
    subscription_loop callback polls (frames_of ms) s = end_of Left_Loop (deliver callback (map snd ms) s)"
proof (induction polls arbitrary: ms s)
  case Nil
  then show ?case by simp
next
  case (Cons p polls)
  show ?case
  proof (cases p)
    case False
    with Cons show ?thesis by simp
  next
    case True
    with Cons.prems obtain t m ms' where ms: "ms = (t, m) # ms'" by (cases ms) auto
    with True Cons show ?thesis by (cases "callback m s") simp_all
  qed
qed

lemma publish_frames:
  "publish_loop topic get_data n s = Inr (out, s') \<Longrightarrow>
    \<exists>ms. length ms = n \<and> out = frames_of (map (\<lambda>m. (topic, m)) ms)"
proof (induction n arbitrary: s out s')
  case 0
  then show ?case by simp
next
  case (Suc n)
  then obtain msg s1 out1 where s: "get_data s = Inr (msg, s1)"
    "publish_loop topic get_data n s1 = Inr (out1, s')"
    "out = bytes_of_string topic # msg # out1"
    by (auto simp: bindR_eq_Inr)
  from Suc.IH [OF s(2)] obtain ms where "length ms = n" "out1 = frames_of (map (\<lambda>m. (topic, m)) ms)"
    by blast
  with s(3) show ?case by (intro exI [of _ "msg # ms"]) simp
qed

lemma server_loop_answers:
  "server_loop callback polls s = Inr (out, s') \<Longrightarrow> length out = length (filter (\<lambda>p. p \<noteq> None) polls)"
  by (induction callback polls s arbitrary: out s' rule: server_loop.induct)
    (auto simp: bindR_eq_Inr)

section \<open>Threads that run\<close>

definition returns :: "'a res \<Rightarrow> bool" where
  "returns r \<longleftrightarrow> (\<exists>x. r = Inr x)"

lemma returns_simps [simp]: "returns (Inr x)" "\<not> returns (Inl e)"
  by (simp_all add: returns_def)

lemma returns_bindR: "returns m \<Longrightarrow> (\<And>x. m = Inr x \<Longrightarrow> returns (f x)) \<Longrightarrow> returns (bindR m f)"
  by (auto simp: returns_def)

lemma publish_loop_returns:
  "(\<And>s. returns (get_data s)) \<Longrightarrow> returns (publish_loop topic get_data n s)"
  by (induction n arbitrary: s) (auto intro!: returns_bindR)

lemma subscription_loop_returns:
  "(\<And>m s. returns (callback m s)) \<Longrightarrow> returns (subscription_loop callback polls frames s)"
  by (induction callback polls frames s rule: subscription_loop.induct) (auto intro!: returns_bindR)

lemma requester_loop_returns:
  "(\<And>s. returns (get_data s)) \<Longrightarrow> (\<And>m s. returns (callback m s)) \<Longrightarrow>
    returns (requester_loop get_data callback replies s)"
  by (induction get_data callback replies s rule: requester_loop.induct) (auto intro!: returns_bindR)

text \<open>
  What a run needs in order not to be held: two frames for every poll of a subscriber that finds
  something, an answer to every request of a requester.
\<close>

fun fed :: "'cb task \<Rightarrow> traffic \<Rightarrow> bool" where
  "fed (Subscriber_Thread p) tr \<longleftrightarrow> 2 * length (filter id (tr_polls tr)) \<le> length (tr_frames tr)"
| "fed (Requester_Thread p) tr \<longleftrightarrow> None \<notin> set (tr_replies tr)"
| "fed (Publisher_Thread p) tr \<longleftrightarrow> True"
| "fed (Server_Thread p) tr \<longleftrightarrow> True"

lemma subscription_loop_end:
  "subscription_loop callback polls frames s = Inr (fin, s') \<Longrightarrow>
    fin = Left_Loop \<longleftrightarrow> 2 * length (filter id polls) \<le> length frames"
  by (induction callback polls frames s arbitrary: fin s' rule: subscription_loop.induct)
    (auto simp: bindR_eq_Inr)

lemma requester_loop_end:
  "requester_loop get_data callback replies s = Inr (fin, out, s') \<Longrightarrow>
    fin = Left_Loop \<longleftrightarrow> None \<notin> set replies"
  by (induction get_data callback replies s arbitrary: fin out s' rule: requester_loop.induct)
    (auto simp: bindR_eq_Inr)

lemma server_loop_returns:
  "(\<And>m s. returns (callback m s)) \<Longrightarrow> returns (server_loop callback polls s)"
  by (induction callback polls s rule: server_loop.induct) (auto intro!: returns_bindR)

lemmas thread_defs = periodic_publish_thread_def subscription_thread_def requester_thread_def
  server_thread_bound_def server_thread_def server_enter_thread_def

lemmas loops_return = publish_loop_returns subscription_loop_returns requester_loop_returns
  server_loop_returns

lemma complete_task_returns:
  assumes "complete t" and "\<And>f s. returns (data_of f s)" and "\<And>f m s. returns (sink_of f m s)"
    and "\<And>f m s. returns (service_of f m s)"
  shows "returns (enter_thread data_of sink_of service_of t tr s)"
  using assms by (cases t) (auto simp: thread_defs intro!: returns_bindR loops_return)

lemma enter_thread_end:
  "enter_thread data_of sink_of service_of t tr s = Inr (e, fin, out, s') \<Longrightarrow> fin = Left_Loop \<longleftrightarrow> fed t tr"
  by (cases t) (auto simp: thread_defs bindR_eq_Inr split: if_splits
    dest: subscription_loop_end requester_loop_end)

section \<open>Requests and answers\<close>

text \<open>
  A requester and a server in lockstep: the reference the two loops are compared with.  The
  requester works on \<open>s\<close>, the server on \<open>t\<close>.
\<close>

fun dialogue :: "'s data_source \<Rightarrow> 's sink \<Rightarrow> 't service \<Rightarrow> nat \<Rightarrow> 's \<Rightarrow> 't \<Rightarrow> ('s \<times> 't) res" where
  "dialogue get_data callback serve_it 0 s t = Inr (s, t)"
| "dialogue get_data callback serve_it (Suc n) s t =
     bindR (get_data s) (\<lambda>(msg, s1).
     bindR (serve_it msg t) (\<lambda>(reply, t1).
     bindR (callback reply s1) (\<lambda>s2. dialogue get_data callback serve_it n s2 t1)))"

definition requests_in :: "message option list \<Rightarrow> message list" where
  "requests_in polls = map the (filter (\<lambda>p. p \<noteq> None) polls)"

lemma requests_in_simps [simp]:
  "requests_in [] = []" "requests_in (None # ps) = requests_in ps"
  "requests_in (Some r # ps) = r # requests_in ps"
  by (simp_all add: requests_in_def)

lemma requests_in_map_Some [simp]: "requests_in (map Some ms) = ms"
  by (induction ms) simp_all

lemma server_loop_idle: "server_loop f polls t = server_loop f (map Some (requests_in polls)) t"
proof (induction polls arbitrary: t)
  case (Cons p polls)
  then show ?case by (cases p) simp_all
qed simp

lemma dialogue_runs:
  "(\<exists>ms rs. length rs = n \<and> requester_loop g h (map Some rs) s = Inr (Left_Loop, ms, s') \<and>
      server_loop f (map Some ms) t = Inr (rs, t')) \<longleftrightarrow>
    dialogue g h f n s t = Inr (s', t')"
proof (induction n arbitrary: s t)
  case 0
  then show ?case by auto
next
  case (Suc n)
  show ?case
  proof
    assume "\<exists>ms rs. length rs = Suc n \<and> requester_loop g h (map Some rs) s = Inr (Left_Loop, ms, s') \<and>
      server_loop f (map Some ms) t = Inr (rs, t')"
    then obtain ms r rs where len: "length rs = n"
      and run: "requester_loop g h (map Some (r # rs)) s = Inr (Left_Loop, ms, s')" "server_loop f (map Some ms) t = Inr (r # rs, t')"
      by (auto simp: length_Suc_conv)
    from run obtain m s1 s2 ms' t1 where "g s = Inr (m, s1)" "h r s1 = Inr s2" "f m t = Inr (r, t1)"
      and rest: "requester_loop g h (map Some rs) s2 = Inr (Left_Loop, ms', s')" "server_loop f (map Some ms') t1 = Inr (rs, t')"
      by (auto simp: bindR_eq_Inr)
    moreover have "dialogue g h f n s2 t1 = Inr (s', t')"
      using Suc.IH [THEN iffD1] len rest by blast
    ultimately show "dialogue g h f (Suc n) s t = Inr (s', t')" by simp
  next
    assume "dialogue g h f (Suc n) s t = Inr (s', t')"
    then obtain m s1 r t1 s2 where step: "g s = Inr (m, s1)" "f m t = Inr (r, t1)" "h r s1 = Inr s2"
      and rest: "dialogue g h f n s2 t1 = Inr (s', t')"
      by (auto simp: bindR_eq_Inr)
    from Suc.IH [THEN iffD2, OF rest] obtain ms rs where "length rs = n"
      "requester_loop g h (map Some rs) s2 = Inr (Left_Loop, ms, s')" "server_loop f (map Some ms) t1 = Inr (rs, t')"
      by blast
    with step show "\<exists>ms rs. length rs = Suc n \<and> requester_loop g h (map Some rs) s = Inr (Left_Loop, ms, s') \<and>
      server_loop f (map Some ms) t = Inr (rs, t')"
      by (intro exI [of _ "m # ms"] exI [of _ "r # rs"]) simp
  qed
qed

lemma dialogue_loops:
  assumes "requests_in polls = ms"
  shows "requester_loop g h (map Some rs) s = Inr (Left_Loop, ms, s') \<Longrightarrow> server_loop f polls t = Inr (rs, t') \<Longrightarrow>
    dialogue g h f (length rs) s t = Inr (s', t')"
  using assms server_loop_idle [of f polls t] by (auto simp: dialogue_runs [symmetric])

section \<open>Properties\<close>

text \<open>
  What a periodic publisher sends is what a subscriber's callback gets: the frames of any
  number of rounds, polled in any pattern with idle polls between, reach the callback message
  by message, in order, without the topic.
\<close>

theorem publisher_to_subscriber:
  assumes "publish_loop topic get_data n s = Inr (out, s')"
    and "length (filter id polls) = n"
  shows "\<exists>ms. length ms = n \<and> out = frames_of (map (\<lambda>m. (topic, m)) ms) \<and>
    subscription_loop callback polls out r = end_of Left_Loop (deliver callback ms r)"
proof -
  obtain ms where "length ms = n" "out = frames_of (map (\<lambda>m. (topic, m)) ms)"
    using publish_frames [OF assms(1)] by blast
  with assms(2) subscription_delivers [of polls "map (\<lambda>m. (topic, m)) ms" callback r]
  show ?thesis by (auto simp: comp_def)
qed

lemma publisher_to_subscriber_witness:
  "\<exists>ms. length ms = 2 \<and> subscription_loop (\<lambda>m s. Inr (s @ [m])) [True, False, True]
    [bytes_of_string ''t'', [5], bytes_of_string ''t'', [6]] [] = end_of Left_Loop (deliver (\<lambda>m s. Inr (s @ [m])) ms [])"
proof -
  have "publish_loop ''t'' (\<lambda>s :: u8. Inr ([s], s + 1)) 2 5 =
      Inr ([bytes_of_string ''t'', [5], bytes_of_string ''t'', [6]], 7)"
    by (simp add: numeral_2_eq_2)
  from publisher_to_subscriber [OF this, of "[True, False, True]" "\<lambda>m s. Inr (s @ [m])" "[]"]
  show ?thesis by auto
qed



text \<open>
  C10: A periodic request meets a server: when \<^verbatim>\<open>bind_server\<close> and, on a client of any program,
  \<^verbatim>\<open>request\<close> have answered true, both threads are in the tables, and their runs against each
  other, with the replies of the one fed to the other and idle polls anywhere, are exactly the
  dialogue: the requester's data, the server's answer to it, the requester's callback on
  the answer, round by round.
\<close>

theorem periodic_requests_answered:
  assumes "bind_server bind_addr f v = Inr (True, v')"
    and "request_periodic conn_addr ident g h period c = Inr (True, c')"
  shows "\<exists>serving requesting.
    map_of (zc_servers v') bind_addr = Some (running serving) \<and>
    map_of (zc_periodic_clients c') ident = Some (running requesting) \<and>
    (\<forall>n s t s' t' tr.
      dialogue (data_of g) (sink_of h) (service_of f) n s t = Inr (s', t') \<longleftrightarrow>
      (\<exists>ms rs. length rs = n \<and>
        enter_thread data_of sink_of any_service requesting (tr\<lparr>tr_replies := map Some rs\<rparr>) s =
          Inr (Connected conn_addr, Left_Loop, ms, s') \<and>
        (\<forall>polls. requests_in polls = ms \<longrightarrow>
          enter_thread any_data any_sink service_of serving (tr\<lparr>tr_requests := polls\<rparr>) t =
            Inr (Bound bind_addr, Left_Loop, rs, t'))))"
proof -
  let ?sv = "server_task bind_addr f True True (Some ZMQ_REP)"
  let ?rq = "requester_task conn_addr g h period True (Some ZMQ_REQ)"
  have v: "map_of (zc_servers v') bind_addr = Some (running ?sv)"
    and c: "map_of (zc_periodic_clients c') ident = Some (running ?rq)"
    using assms map_of_fresh [of "zc_servers v" bind_addr] map_of_fresh [of "zc_periodic_clients c" ident]
    by (auto simp: starting_defs start_thread_fresh simp del: map_of_append split: option.splits)
  have rq: "enter_thread data_of sink_of any_service ?rq (tr\<lparr>tr_replies := map Some rs\<rparr>) s =
      Inr (Connected conn_addr, Left_Loop, ms, s') \<longleftrightarrow>
      requester_loop (data_of g) (sink_of h) (map Some rs) s = Inr (Left_Loop, ms, s')" for tr rs s ms s'
    by (auto simp: task_defs setter_defs thread_defs bindR_eq_Inr)
  have sv: "enter_thread any_data any_sink service_of ?sv (tr\<lparr>tr_requests := polls\<rparr>) t =
      Inr (Bound bind_addr, Left_Loop, rs, t') \<longleftrightarrow>
      server_loop (service_of f) (map Some (requests_in polls)) t = Inr (rs, t')" for tr polls t rs t'
    unfolding server_loop_idle [symmetric]
    by (auto simp: task_defs setter_defs thread_defs bindR_eq_Inr)
  have idle: "(\<forall>polls. requests_in polls = ms \<longrightarrow>
      server_loop (service_of f) (map Some (requests_in polls)) t = Inr (rs, t')) \<longleftrightarrow>
      server_loop (service_of f) (map Some ms) t = Inr (rs, t')" for ms t rs t'
    using requests_in_map_Some [of ms] by metis
  show ?thesis
    by (intro exI [of _ ?sv] exI [of _ ?rq] conjI v c allI) (simp only: rq sv idle dialogue_runs)
qed

lemma periodic_requests_answered_witness:
  "\<exists>v' c' sv rq ms rs. bind_server ''tcp://*:1'' (0 :: nat) new_zmq_client = Inr (True, v') \<and>
    request_periodic ''tcp://h:1'' ''r'' (1 :: nat) 2 5 new_zmq_client = Inr (True, c') \<and>
    map_of (zc_servers v') ''tcp://*:1'' = Some (running sv) \<and>
    map_of (zc_periodic_clients c') ''r'' = Some (running rq) \<and>
    enter_thread (\<lambda>_ s. Inr ([of_nat (length s)], s)) (\<lambda>_ m s. Inr (s @ [m])) (\<lambda>_ m s. Inr (m, s)) rq
      \<lparr>tr_rounds = 0, tr_polls = [], tr_frames = [], tr_replies = map Some rs, tr_requests = []\<rparr> [] =
      Inr (Connected ''tcp://h:1'', Left_Loop, ms, [[0, 0], [1, 1]])"
proof -
  obtain v' where v: "bind_server ''tcp://*:1'' (0 :: nat) new_zmq_client = Inr (True, v')"
    by (simp add: starting_defs new_zmq_client_def start_thread_fresh)
  obtain c' where c: "request_periodic ''tcp://h:1'' ''r'' (1 :: nat) 2 5 new_zmq_client = Inr (True, c')"
    by (simp add: starting_defs new_zmq_client_def start_thread_fresh)
  have d: "dialogue (\<lambda>s. Inr ([of_nat (length s)], s)) (\<lambda>m s. Inr (s @ [m])) (\<lambda>m t. Inr (m @ m, Suc t)) 2 [] 0 =
      Inr ([[0, 0], [1, 1]], 2)"
    by (simp add: numeral_2_eq_2)
  let ?tr = "\<lparr>tr_rounds = 0, tr_polls = [], tr_frames = [], tr_replies = [], tr_requests = []\<rparr>"
  from periodic_requests_answered [OF v c, of "\<lambda>_ s. Inr ([of_nat (length s)], s)"
      "\<lambda>_ m s. Inr (s @ [m])" "\<lambda>_ m t. Inr (m @ m, Suc t)" "\<lambda>_ m s. Inr (m, s)"]
  obtain sv rq where look: "map_of (zc_servers v') ''tcp://*:1'' = Some (running sv)"
      "map_of (zc_periodic_clients c') ''r'' = Some (running rq)"
    and run: "\<exists>ms rs. length rs = 2 \<and>
      enter_thread (\<lambda>_ s. Inr ([of_nat (length s)], s)) (\<lambda>_ m s. Inr (s @ [m])) (\<lambda>_ m s. Inr (m, s)) rq
        (?tr\<lparr>tr_replies := map Some rs\<rparr>) [] = Inr (Connected ''tcp://h:1'', Left_Loop, ms, [[0, 0], [1, 1]])"
    using d by blast
  from run obtain ms rs where
    "enter_thread (\<lambda>_ s. Inr ([of_nat (length s)], s)) (\<lambda>_ m s. Inr (s @ [m])) (\<lambda>_ m s. Inr (m, s)) rq
      (?tr\<lparr>tr_replies := map Some rs\<rparr>) [] = Inr (Connected ''tcp://h:1'', Left_Loop, ms, [[0, 0], [1, 1]])" by blast
  with v c look show ?thesis
    by (intro exI [of _ v'] exI [of _ c'] exI [of _ sv] exI [of _ rq] exI [of _ ms] exI [of _ rs]) simp
qed

end
