(* ===== verification/Filter_Interface.thy ===== *)
theory Filter_Interface
  imports Prelude
begin

text \<open>
  The interface \<^verbatim>\<open>core/messages/pipe/FilterInterface.hpp\<close>: a filter replaces a message by
  another and keeps a state.  What a proxy needs of one to go on for ever is that a fit filter
  converts every readable message, stays fit, and hands the next filter a readable message.
\<close>

locale stream_filter =
  fixes conv :: "'f \<Rightarrow> bytes \<Rightarrow> (int \<times> bytes \<times> 'f) res"
    and fit :: "'f \<Rightarrow> bool"
    and readable :: "bytes \<Rightarrow> bool"
  assumes conv_fit: "fit f \<Longrightarrow> readable m \<Longrightarrow>
    \<exists>r out f'. conv f m = Inr (r, out, f') \<and> fit f' \<and> readable out"

end
