(* ===== verification/Proxy_Pipe.thy ===== *)
theory Proxy_Pipe
  imports Zmq_Control_Client Registry Filter_Interface
begin

text \<open>
  Model of the message pipes: \<^verbatim>\<open>src/messages/pipe/ProxyInterface.cpp\<close>,
  \<^verbatim>\<open>ZMQPubSubProxy.cpp\<close>, \<^verbatim>\<open>ZMQServerProxy.cpp\<close> and \<^verbatim>\<open>PipeInterface.cpp\<close> with their
  headers.  A proxy forwards messages between two sockets, through its filters; a pipe owns
  proxies by id, each with a thread.  A filter is its state \<open>'f\<close> with a conversion that is a
  parameter.  What a poll finds is a parameter of a round; flags other threads may change are
  observed at the start of each round.  Which threads are held in a receive, so that joining
  them does not return, is a parameter of stopping a pipe.  Sleeping and logging are not modelled.
\<close>

section \<open>Proxies\<close>

text \<open>The entries of a signal table: the four built-in lambdas, or a registered function.\<close>

datatype signal_action = Do_Stop | Do_Kill | Do_Start | Do_Pause | Do_User int

definition CLEAN_STOP :: int where [const_simps]: "CLEAN_STOP = 0"
definition KILL :: int where [const_simps]: "KILL = 1"
definition START :: int where [const_simps]: "START = 2"
definition PAUSE :: int where [const_simps]: "PAUSE = 3"

datatype proxy_kind = Pub_Sub | Req_Rep

record 'f proxy =
  px_kind :: proxy_kind
  px_id :: string
  px_frontend :: address
  px_backend :: address
  px_signals :: "int \<Rightarrow> signal_action option"
  px_running :: bool
  px_paused :: bool
  px_adding_filter :: bool
  px_filters :: "'f list"
  px_sockets :: bool

definition register_signal :: "int \<Rightarrow> signal_action \<Rightarrow> 'f proxy \<Rightarrow> bool \<times> 'f proxy" where
  "register_signal signal_val func px =
     (case px_signals px signal_val of
        Some _ \<Rightarrow> (False, px)
      | None \<Rightarrow> (True, px\<lparr>px_signals := (px_signals px)(signal_val \<mapsto> func)\<rparr>))"

text \<open>
  The constructor registers the built-in signals.  \<^verbatim>\<open>paused\<close> is first written by \<^verbatim>\<open>start\<close>,
  which is the first to read it.
\<close>

definition new_proxy :: "proxy_kind \<Rightarrow> string \<Rightarrow> address \<Rightarrow> address \<Rightarrow> 'f proxy" where
  "new_proxy kind ident front back =
     (let px = \<lparr>px_kind = kind, px_id = ident, px_frontend = front, px_backend = back,
            px_signals = (\<lambda>_. None), px_running = True, px_paused = False,
            px_adding_filter = False, px_filters = [], px_sockets = False\<rparr>;
          (_, px) = register_signal CLEAN_STOP Do_Stop px;
          (_, px) = register_signal KILL Do_Kill px;
          (_, px) = register_signal START Do_Start px;
          (_, px) = register_signal PAUSE Do_Pause px
      in px\<lparr>px_adding_filter := False\<rparr>)"

interpretation signals: registry px_signals register_signal
  by unfold_locales (auto simp: register_signal_def)

text \<open>\<^verbatim>\<open>add_filter\<close>: the flag is back down when it returns.\<close>

definition add_filter :: "'f \<Rightarrow> 'f proxy \<Rightarrow> bool \<times> 'f proxy" where
  "add_filter flt px =
     (let px1 = px\<lparr>px_adding_filter := True\<rparr>;
          px2 = px1\<lparr>px_filters := px_filters px1 @ [flt]\<rparr>
      in (True, px2\<lparr>px_adding_filter := False\<rparr>))"

definition proxy_stop_hook :: "'f proxy \<Rightarrow> bool" where
  "proxy_stop_hook px = True"

definition proxy_stop :: "'f proxy \<Rightarrow> bool \<times> 'f proxy" where
  "proxy_stop px =
     (let px1 = px\<lparr>px_running := False\<rparr>
      in if proxy_stop_hook px1 then (True, px1) else (False, px1))"

text \<open>\<^verbatim>\<open>kill\<close> stops, waits and terminates the process.\<close>

definition proxy_kill :: "'f proxy \<Rightarrow> (bool \<times> 'f proxy) res" where
  "proxy_kill px = (let (_, px1) = proxy_stop px in Inl Terminated)"

text \<open>
  \<^verbatim>\<open>pause\<close> holds its caller until the proxy stops, the exit signal is given or someone clears
  the flag; \<open>other\<close> is what other threads did meanwhile, and \<open>None\<close> a caller still held.
\<close>

definition proxy_pause :: "bool \<Rightarrow> ('f proxy \<Rightarrow> 'f proxy) \<Rightarrow> 'f proxy \<Rightarrow> (bool \<times> 'f proxy) option" where
  "proxy_pause exit_given other px =
     (let px1 = other (px\<lparr>px_paused := True\<rparr>)
      in if px_running px1 \<and> \<not> exit_given \<and> px_paused px1 then None
         else Some (True, px1\<lparr>px_paused := False\<rparr>))"

subsection \<open>One round of a proxy\<close>

fun apply_filters :: "('f \<Rightarrow> message \<Rightarrow> (int \<times> message \<times> 'f) res) \<Rightarrow> 'f list \<Rightarrow> message \<Rightarrow>
    (message \<times> 'f list) res" where
  "apply_filters conv [] req = Inr (req, [])"
| "apply_filters conv (f # fs) req =
     bindR (conv f req) (\<lambda>(_, req1, f1).
     bindR (apply_filters conv fs req1) (\<lambda>(req2, fs2). Inr (req2, f1 # fs2)))"

text \<open>
  \<^verbatim>\<open>ZMQPubSubProxy::__spin__\<close>: \<open>found\<close> is what the poll finds, a topic and a message.  The
  frames sent on are the last component.
\<close>

definition pub_sub_spin :: "('f \<Rightarrow> message \<Rightarrow> (int \<times> message \<times> 'f) res) \<Rightarrow>
    (message \<times> message) option \<Rightarrow> 'f proxy \<Rightarrow> (bool \<times> 'f proxy \<times> message list) res" where
  "pub_sub_spin conv found px =
     (if \<not> px_sockets px then Inr (True, px, [])
      else case found of
          None \<Rightarrow> Inr (True, px, [])
        | Some (topic, req) \<Rightarrow>
            if \<not> px_adding_filter px then
              bindR (apply_filters conv (px_filters px) req) (\<lambda>(req', fs).
                Inr (True, px\<lparr>px_filters := fs\<rparr>, [topic, req']))
            else Inr (True, px, [topic, req]))"

text \<open>
  \<^verbatim>\<open>ZMQServerProxy::__spin__\<close>: the inner loop takes the parts of one message off a socket,
  each with its \<^verbatim>\<open>ZMQ_RCVMORE\<close> flag, and sends each on with the same flag.  What is left in
  the queue is the second component.
\<close>

fun forward_parts :: "(message \<times> bool) list \<Rightarrow> (message \<times> bool) list \<times> (message \<times> bool) list" where
  "forward_parts [] = ([], [])"
| "forward_parts ((msg, rcvmore) # ps) =
     (if rcvmore then let (out, rest) = forward_parts ps in ((msg, rcvmore) # out, rest)
      else ([(msg, rcvmore)], ps))"

definition server_spin :: "(message \<times> bool) list \<Rightarrow> (message \<times> bool) list \<Rightarrow> 'f proxy \<Rightarrow>
    bool \<times> (message \<times> bool) list \<times> (message \<times> bool) list \<times>
      (message \<times> bool) list \<times> (message \<times> bool) list" where
  "server_spin front back px =
     (if \<not> px_sockets px then (True, [], [], front, back)
      else
        let (to_back, front') = (if front \<noteq> [] then forward_parts front else ([], front));
            (to_front, back') = (if back \<noteq> [] then forward_parts back else ([], back))
        in (True, to_back, to_front, front', back'))"

subsection \<open>The thread of a proxy\<close>

text \<open>
  \<^verbatim>\<open>start\<close>: sockets are opened, then rounds run until a round's test finds the proxy paused,
  not running or told to exit.  A round is what its test observes of \<^verbatim>\<open>paused\<close>, \<^verbatim>\<open>running\<close>
  and the exit signal, and what its poll finds; a thread still running when the list ends has
  an unfinished result \<open>False\<close>.
\<close>

record round =
  ro_paused :: bool
  ro_running :: bool
  ro_exit :: bool
  ro_found :: "(message \<times> message) option"

definition goes_on :: "round \<Rightarrow> bool" where
  "goes_on r \<longleftrightarrow> \<not> ro_paused r \<and> ro_running r \<and> \<not> ro_exit r"

fun spin_loop :: "('f \<Rightarrow> message \<Rightarrow> (int \<times> message \<times> 'f) res) \<Rightarrow> round list \<Rightarrow> 'f proxy \<Rightarrow>
    (bool \<times> 'f proxy \<times> message list) res" where
  "spin_loop conv [] px = Inr (False, px, [])"
| "spin_loop conv (r # rs) px =
     (if goes_on r then
        bindR (pub_sub_spin conv (ro_found r) px) (\<lambda>(_, px1, out1).
        bindR (spin_loop conv rs px1) (\<lambda>(ended, px2, out2). Inr (ended, px2, out1 @ out2)))
      else Inr (True, px, []))"

definition proxy_start :: "('f \<Rightarrow> message \<Rightarrow> (int \<times> message \<times> 'f) res) \<Rightarrow> round list \<Rightarrow> 'f proxy \<Rightarrow>
    (bool \<times> 'f proxy \<times> message list) res" where
  "proxy_start conv rounds px = spin_loop conv rounds (px\<lparr>px_paused := False, px_sockets := True\<rparr>)"

subsection \<open>Signals\<close>

text \<open>
  \<^verbatim>\<open>signal\<close> stores the function's result in a \<^verbatim>\<open>bool\<close> and returns that.  \<open>blocked\<close> is what the
  proxy is when a call that runs the thread's loop or holds its caller comes back.
\<close>

definition proxy_signal :: "(signal_action \<Rightarrow> 'f proxy \<Rightarrow> 'f proxy) \<Rightarrow> int \<Rightarrow> 'f proxy \<Rightarrow>
    (int \<times> 'f proxy) res" where
  "proxy_signal blocked signal_val px =
     (case px_signals px signal_val of
        None \<Rightarrow> Inr (-1, px)
      | Some act \<Rightarrow>
          bindR (case act of
              Do_Stop \<Rightarrow> Inr (CLEAN_STOP, snd (proxy_stop px))
            | Do_Kill \<Rightarrow> bindR (proxy_kill px) (\<lambda>(_, px1). Inr (KILL, px1))
            | Do_Start \<Rightarrow> Inr (START, blocked Do_Start px)
            | Do_Pause \<Rightarrow> Inr (PAUSE, blocked Do_Pause px)
            | Do_User n \<Rightarrow> Inr (n, px)) (\<lambda>(v, px1).
          Inr (if v \<noteq> 0 then 1 else 0, px1)))"

section \<open>Pipes\<close>

text \<open>
  \<^verbatim>\<open>proxy_t\<close>: the owned proxy (\<open>None\<close> is the null pointer) and whether its thread is
  joinable.  \<^verbatim>\<open>operator[]\<close> on a key that is absent inserts a null entry.
\<close>

record 'f proxy_entry =
  pe_proxy :: "'f proxy option"
  pe_joinable :: bool

type_synonym 'f pipe = "string \<Rightarrow> 'f proxy_entry option"

definition proxy_at :: "'f pipe \<Rightarrow> string \<Rightarrow> 'f proxy res" where
  "proxy_at pipe ident =
     (case pipe ident of
        Some e \<Rightarrow> (case pe_proxy e of Some px \<Rightarrow> Inr px | None \<Rightarrow> Inl Null_Deref)
      | None \<Rightarrow> Inl Null_Deref)"

definition put_proxy :: "string \<Rightarrow> 'f proxy \<Rightarrow> 'f pipe \<Rightarrow> 'f pipe" where
  "put_proxy ident px pipe =
     (case pipe ident of
        Some e \<Rightarrow> pipe(ident \<mapsto> e\<lparr>pe_proxy := Some px\<rparr>)
      | None \<Rightarrow> pipe(ident \<mapsto> \<lparr>pe_proxy = Some px, pe_joinable = False\<rparr>))"

text \<open>
  The body \<^verbatim>\<open>create_pub_sub_endpoint\<close> and \<^verbatim>\<open>create_req_rep_endpoint\<close> share: the entry is stored
  only when the id is new, and its thread started.
\<close>

definition create_endpoint :: "string \<Rightarrow> 'f proxy_entry \<Rightarrow> 'f pipe \<Rightarrow> bool \<times> 'f pipe" where
  "create_endpoint ident entry pipe =
     (case pipe ident of
        Some _ \<Rightarrow> (False, pipe)
      | None \<Rightarrow> (True, pipe(ident \<mapsto> entry)))"

definition create_pub_sub_endpoint :: "string \<Rightarrow> address \<Rightarrow> address \<Rightarrow> 'f pipe \<Rightarrow> bool \<times> 'f pipe" where
  "create_pub_sub_endpoint ident front back pipe =
     create_endpoint ident \<lparr>pe_proxy = Some (new_proxy Pub_Sub ident front back), pe_joinable = True\<rparr> pipe"

definition create_req_rep_endpoint :: "string \<Rightarrow> address \<Rightarrow> address \<Rightarrow> 'f pipe \<Rightarrow> bool \<times> 'f pipe" where
  "create_req_rep_endpoint ident front back pipe =
     create_endpoint ident \<lparr>pe_proxy = Some (new_proxy Req_Rep ident front back), pe_joinable = True\<rparr> pipe"

interpretation endpoints: registry "\<lambda>pipe. pipe" create_endpoint
  by unfold_locales (auto simp: create_endpoint_def)

text \<open>
  \<^verbatim>\<open>stop()\<close>: entry by entry, the proxy is told to stop and its thread joined.  The order is the
  one in which the hash table is run through, \<open>idents\<close>.  A thread that is held in a receive
  (\<open>held\<close>, as \<open>Proxy_Sockets\<close> shows it can be) never ends, and then neither does its join: the
  answer is \<open>None\<close>, and the entries after it are not reached.
\<close>

fun pipe_stop_all :: "(string \<Rightarrow> bool) \<Rightarrow> string list \<Rightarrow> 'f pipe \<Rightarrow> (bool option \<times> 'f pipe) res" where
  "pipe_stop_all held [] pipe = Inr (Some True, pipe)"
| "pipe_stop_all held (ident # idents) pipe =
     (case pipe ident of
        None \<Rightarrow> pipe_stop_all held idents pipe
      | Some e \<Rightarrow>
          bindR (proxy_at pipe ident) (\<lambda>px.
            let e1 = e\<lparr>pe_proxy := Some (snd (proxy_stop px))\<rparr> in
            if pe_joinable e1 \<and> held ident then Inr (None, pipe(ident \<mapsto> e1))
            else pipe_stop_all held idents (pipe(ident \<mapsto> e1\<lparr>pe_joinable := False\<rparr>))))"

definition pipe_stop :: "string \<Rightarrow> 'f pipe \<Rightarrow> (bool \<times> 'f pipe) res" where
  "pipe_stop ident pipe =
     (case pipe ident of
        Some _ \<Rightarrow> Inr (False, pipe)
      | None \<Rightarrow>
          bindR (proxy_at pipe ident) (\<lambda>px. Inr (True, put_proxy ident (snd (proxy_stop px)) pipe)))"

definition pipe_kill :: "string \<Rightarrow> 'f pipe \<Rightarrow> (bool \<times> 'f pipe) res" where
  "pipe_kill ident pipe =
     (case pipe ident of
        Some _ \<Rightarrow> Inr (False, pipe)
      | None \<Rightarrow>
          bindR (proxy_at pipe ident) (\<lambda>px. bindR (proxy_kill px) (\<lambda>(_, px1).
            Inr (True, put_proxy ident px1 pipe))))"

definition pipe_signal :: "(signal_action \<Rightarrow> 'f proxy \<Rightarrow> 'f proxy) \<Rightarrow> string \<Rightarrow> int \<Rightarrow> 'f pipe \<Rightarrow>
    (int \<times> 'f pipe) res" where
  "pipe_signal blocked ident signal_val pipe =
     (case pipe ident of
        Some _ \<Rightarrow> Inr (0, pipe)
      | None \<Rightarrow>
          bindR (proxy_at pipe ident) (\<lambda>px. bindR (proxy_signal blocked signal_val px) (\<lambda>(_, px1).
            Inr (1, put_proxy ident px1 pipe))))"

definition pipe_register_signal :: "string \<Rightarrow> int \<Rightarrow> signal_action \<Rightarrow> 'f pipe \<Rightarrow> (bool \<times> 'f pipe) res" where
  "pipe_register_signal ident signal_val func pipe =
     (case pipe ident of
        Some _ \<Rightarrow> Inr (False, pipe)
      | None \<Rightarrow>
          bindR (proxy_at pipe ident) (\<lambda>px.
            Inr (True, put_proxy ident (snd (register_signal signal_val func px)) pipe)))"

definition pipe_set_filter :: "string \<Rightarrow> 'f \<Rightarrow> 'f pipe \<Rightarrow> (bool \<times> 'f pipe) res" where
  "pipe_set_filter ident flt pipe =
     (case pipe ident of
        None \<Rightarrow> Inr (False, pipe)
      | Some _ \<Rightarrow>
          bindR (proxy_at pipe ident) (\<lambda>px. Inr (True, put_proxy ident (snd (add_filter flt px)) pipe)))"

section \<open>What a pub-sub proxy forwards\<close>

text \<open>
  The reference for the filters: a fold from the first that was added to the last, each working
  on what the one before it made, and the states they are left in, in the same order.
\<close>

definition pass :: "('f \<Rightarrow> message \<Rightarrow> (int \<times> message \<times> 'f) res) \<Rightarrow> message \<times> 'f list \<Rightarrow> 'f \<Rightarrow>
    (message \<times> 'f list) res" where
  "pass conv = (\<lambda>(req, gs) f. map_sum id (\<lambda>(_, req', f'). (req', gs @ [f'])) (conv f req))"

definition through :: "('f \<Rightarrow> message \<Rightarrow> (int \<times> message \<times> 'f) res) \<Rightarrow> 'f list \<Rightarrow> message \<Rightarrow>
    (message \<times> 'f list) res" where
  "through conv fs req = foldl (\<lambda>r f. bindR r (\<lambda>st. pass conv st f)) (Inr (req, [])) fs"

lemma foldl_fault: "foldl (\<lambda>r f. bindR r (\<lambda>st. pass conv st f)) (Inl e) fs = Inl e"
  by (induction fs) simp_all

lemma foldl_pass:
  "foldl (\<lambda>r f. bindR r (\<lambda>st. pass conv st f)) (Inr (req, gs)) fs =
    bindR (apply_filters conv fs req) (\<lambda>(req', fs'). Inr (req', gs @ fs'))"
proof (induction fs arbitrary: req gs)
  case (Cons f fs)
  show ?case
  proof (cases "conv f req")
    case (Inl e)
    then have "pass conv (req, gs) f = Inl e" by (simp add: pass_def)
    with Inl show ?thesis by (simp add: foldl_fault)
  next
    case (Inr x)
    then obtain v req' f' where "conv f req = Inr (v, req', f')" by (cases x) auto
    then show ?thesis
      using Cons.IH [of req' "gs @ [f']"] by (cases "apply_filters conv fs req'") (auto simp: pass_def)
  qed
qed simp

lemma through_eq: "through conv fs req = apply_filters conv fs req"
  unfolding through_def foldl_pass by (cases "apply_filters conv fs req") auto

text \<open>The reference for a stream: each message under its own topic, its body through the filters.\<close>

fun filter_stream :: "('f \<Rightarrow> message \<Rightarrow> (int \<times> message \<times> 'f) res) \<Rightarrow> 'f list \<Rightarrow> (message \<times> message) list \<Rightarrow>
    (message list \<times> 'f list) res" where
  "filter_stream conv fs [] = Inr ([], fs)"
| "filter_stream conv fs ((topic, req) # ms) =
     bindR (through conv fs req) (\<lambda>(req', fs').
     bindR (filter_stream conv fs' ms) (\<lambda>(out, fs''). Inr (topic # req' # out, fs'')))"

declare filter_stream.simps(2) [simp del]

lemma filter_stream_Cons [simp]:
  "filter_stream conv fs ((topic, req) # ms) =
     bindR (apply_filters conv fs req) (\<lambda>(req', fs').
     bindR (filter_stream conv fs' ms) (\<lambda>(out, fs''). Inr (topic # req' # out, fs'')))"
  by (simp add: filter_stream.simps(2) through_eq)

definition found_of :: "round list \<Rightarrow> (message \<times> message) list" where
  "found_of rs = concat (map (\<lambda>r. case ro_found r of None \<Rightarrow> [] | Some m \<Rightarrow> [m]) rs)"

lemma spin_loop_stream:
  assumes "px_sockets px" and "\<not> px_adding_filter px"
  shows "spin_loop conv rs px =
    bindR (filter_stream conv (px_filters px) (found_of (takeWhile goes_on rs))) (\<lambda>(out, fs).
      Inr (\<exists>r \<in> set rs. \<not> goes_on r, px\<lparr>px_filters := fs\<rparr>, out))"
  using assms
proof (induction rs arbitrary: px)
  case Nil
  then show ?case by (simp add: found_of_def)
next
  case (Cons r rs)
  show ?case
  proof (cases "goes_on r")
    case False
    then show ?thesis by (simp add: found_of_def)
  next
    case True
    note go = True
    show ?thesis
    proof (cases "ro_found r")
      case None
      with Cons go show ?thesis
        by (cases "filter_stream conv (px_filters px) (found_of (takeWhile goes_on rs))")
          (auto simp: pub_sub_spin_def found_of_def)
    next
      case (Some m)
      obtain topic req where m: "m = (topic, req)" by fastforce
      show ?thesis
      proof (cases "apply_filters conv (px_filters px) req")
        case (Inl e)
        with Cons.prems go Some m show ?thesis by (simp add: pub_sub_spin_def found_of_def)
      next
        case (Inr x)
        obtain req' fs where x: "x = (req', fs)" by fastforce
        have "spin_loop conv rs (px\<lparr>px_filters := fs\<rparr>) =
            bindR (filter_stream conv fs (found_of (takeWhile goes_on rs))) (\<lambda>(out, fs').
              Inr (\<exists>r \<in> set rs. \<not> goes_on r, px\<lparr>px_filters := fs'\<rparr>, out))"
          using Cons.IH [of "px\<lparr>px_filters := fs\<rparr>"] Cons.prems by simp
        with Cons.prems go Some m Inr x show ?thesis
          by (cases "filter_stream conv fs (found_of (takeWhile goes_on rs))")
            (auto simp: pub_sub_spin_def found_of_def)
      qed
    qed
  qed
qed

lemma filter_stream_no_filters:
  "filter_stream conv [] ms = Inr (concat (map (\<lambda>(t, m). [t, m]) ms), [])"
  by (induction ms) auto

lemma forward_parts_message:
  assumes "ps \<noteq> []" and "\<forall>p \<in> set (butlast ps). snd p" and "\<not> snd (last ps)"
  shows "forward_parts (ps @ rest) = (ps, rest)"
  using assms
proof (induction ps)
  case Nil
  then show ?case by simp
next
  case (Cons p ps)
  obtain m rcvmore where p: "p = (m, rcvmore)" by fastforce
  show ?case
  proof (cases "ps = []")
    case True
    with Cons.prems p show ?thesis by simp
  next
    case False
    with Cons p show ?thesis by (cases ps) auto
  qed
qed

lemma new_proxy_signals:
  "px_signals (new_proxy kind ident front back) =
    [CLEAN_STOP \<mapsto> Do_Stop, KILL \<mapsto> Do_Kill, START \<mapsto> Do_Start, PAUSE \<mapsto> Do_Pause]"
  by (auto simp: new_proxy_def register_signal_def const_simps)

section \<open>Proxies with fit filters\<close>

context stream_filter
begin

lemma apply_filters_fit:
  "list_all fit fs \<Longrightarrow> readable m \<Longrightarrow>
    \<exists>out fs'. apply_filters conv fs m = Inr (out, fs') \<and> list_all fit fs' \<and> length fs' = length fs \<and> readable out"
proof (induction fs arbitrary: m)
  case Nil
  then show ?case by simp
next
  case (Cons f fs)
  then obtain r m1 f1 where c: "conv f m = Inr (r, m1, f1)" "fit f1" "readable m1"
    using conv_fit [of f m] by auto
  with Cons.IH [OF _ c(3)] Cons.prems(1) show ?case by fastforce
qed

lemma filter_stream_fit:
  "list_all fit fs \<Longrightarrow> list_all (\<lambda>(t, m). readable m) ms \<Longrightarrow>
    \<exists>outs fs'. filter_stream conv fs ms = Inr (concat (map2 (\<lambda>(t, _) m. [t, m]) ms outs), fs') \<and>
      length outs = length ms \<and> list_all readable outs \<and> list_all fit fs' \<and> length fs' = length fs"
proof (induction ms arbitrary: fs)
  case Nil
  then show ?case by simp
next
  case (Cons tm ms)
  obtain t m where tm: "tm = (t, m)" by fastforce
  with Cons.prems obtain m1 fs1 where a: "apply_filters conv fs m = Inr (m1, fs1)" "list_all fit fs1"
    "length fs1 = length fs" "readable m1"
    using apply_filters_fit [of fs m] by auto
  have "list_all (\<lambda>(t, m). readable m) ms" using Cons.prems(2) by simp
  with Cons.IH [OF a(2)] obtain outs fs2 where b:
    "filter_stream conv fs1 ms = Inr (concat (map2 (\<lambda>(t, _) m. [t, m]) ms outs), fs2)"
    "length outs = length ms" "list_all readable outs" "list_all fit fs2" "length fs2 = length fs1" by blast
  show ?case
    by (rule exI [of _ "m1 # outs"], rule exI [of _ fs2]) (use tm a b in simp)
qed

text \<open>A proxy whose filters are fit never fails on readable messages, and its filters stay fit.\<close>

lemma proxy_goes_on:
  assumes "list_all fit (px_filters px)" and "\<not> px_adding_filter px"
    and "list_all (\<lambda>(t, m). readable m) (found_of (takeWhile goes_on rounds))"
  shows "\<exists>px' outs. proxy_start conv rounds px = Inr (list_ex (\<lambda>r. \<not> goes_on r) rounds, px',
      concat (map2 (\<lambda>(t, _) m. [t, m]) (found_of (takeWhile goes_on rounds)) outs)) \<and>
    length outs = length (found_of (takeWhile goes_on rounds)) \<and> list_all readable outs \<and>
    list_all fit (px_filters px') \<and> length (px_filters px') = length (px_filters px)"
proof -
  obtain outs fs where f: "filter_stream conv (px_filters px) (found_of (takeWhile goes_on rounds)) =
      Inr (concat (map2 (\<lambda>(t, _) m. [t, m]) (found_of (takeWhile goes_on rounds)) outs), fs)"
    "length outs = length (found_of (takeWhile goes_on rounds))" "list_all readable outs" "list_all fit fs"
    "length fs = length (px_filters px)"
    using filter_stream_fit [OF assms(1,3)] by blast
  let ?px = "px\<lparr>px_paused := False, px_sockets := True, px_filters := fs\<rparr>"
  have run: "proxy_start conv rounds px = Inr (list_ex (\<lambda>r. \<not> goes_on r) rounds, ?px,
      concat (map2 (\<lambda>(t, _) m. [t, m]) (found_of (takeWhile goes_on rounds)) outs))"
    using f(1) assms(2) by (simp add: proxy_start_def spin_loop_stream list_ex_iff)
  have kept: "list_all fit (px_filters ?px)" "length (px_filters ?px) = length (px_filters px)"
    using f(4,5) by simp_all
  show ?thesis by (intro exI conjI) (rule run f(2,3) kept)+
qed

end

section \<open>Properties of a proxy\<close>

lemma add_filters:
  "fold (\<lambda>f px. snd (add_filter f px)) fs px =
    (if fs = [] then px else px\<lparr>px_filters := px_filters px @ fs, px_adding_filter := False\<rparr>)"
  by (induction fs arbitrary: px) (auto simp: add_filter_def)

lemma new_proxy_fields [simp]:
  "px_filters (new_proxy kind ident front back) = []"
  "\<not> px_adding_filter (new_proxy kind ident front back)"
  "\<not> px_sockets (new_proxy kind ident front back)"
  "px_running (new_proxy kind ident front back)"
  by (auto simp: new_proxy_def register_signal_def split: option.split prod.split)

text \<open>
  C30: what a pub-sub proxy forwards.  A new proxy that was given the filters \<open>fs\<close>, one by one, and
  is started sends, in order, every message its polls find before the first round that finds it
  paused, not running or told to exit, and none after: each under its own topic, its body folded
  through the filters from the first added to the last (\<open>through\<close>), with the state each filter had
  after the message before.  The thread ends exactly when there is such a round.  This is the
  case where no filter faults on what it gets and every poll finds whole messages.
\<close>

theorem pub_sub_forwards_stream:
  assumes "filter_stream conv fs (found_of (takeWhile goes_on rounds)) = Inr (out, fs')"
  shows "\<exists>px'. proxy_start conv rounds
      (fold (\<lambda>f px. snd (add_filter f px)) fs (new_proxy Pub_Sub ident front back)) =
        Inr (list_ex (\<lambda>r. \<not> goes_on r) rounds, px', out) \<and>
      px_filters px' = fs'"
proof -
  let ?px = "fold (\<lambda>f px. snd (add_filter f px)) fs (new_proxy Pub_Sub ident front back)"
  have "px_filters ?px = fs" and "\<not> px_adding_filter ?px"
    by (simp_all add: add_filters)
  with assms show ?thesis
    by (simp add: proxy_start_def spin_loop_stream list_ex_iff)
qed

lemma pub_sub_forwards_stream_witness:
  "\<exists>px'. proxy_start (\<lambda>f req. if f < 50 then Inr (0, f # req, f + 1) else Inr (0, map ((+) f) req, f))
      [\<lparr>ro_paused = False, ro_running = True, ro_exit = False, ro_found = Some ([7], [1, 2])\<rparr>,
       \<lparr>ro_paused = False, ro_running = True, ro_exit = False, ro_found = None\<rparr>,
       \<lparr>ro_paused = False, ro_running = True, ro_exit = False, ro_found = Some ([7], [3])\<rparr>,
       \<lparr>ro_paused = True, ro_running = True, ro_exit = False, ro_found = Some ([7], [4])\<rparr>]
      (fold (\<lambda>f px. snd (add_filter f px)) [20, 100] (new_proxy Pub_Sub ''relay'' ''front'' ''back'')) =
        Inr (True, px', [[7], [120, 101, 102], [7], [121, 103]]) \<and>
      px_filters px' = [22, 100]"
  using pub_sub_forwards_stream [of "\<lambda>f req. if f < 50 then Inr (0, f # req, f + 1) else Inr (0, map ((+) f) req, f)" "[20, 100]"
      "[\<lparr>ro_paused = False, ro_running = True, ro_exit = False, ro_found = Some ([7], [1, 2])\<rparr>,
       \<lparr>ro_paused = False, ro_running = True, ro_exit = False, ro_found = None\<rparr>,
       \<lparr>ro_paused = False, ro_running = True, ro_exit = False, ro_found = Some ([7], [3])\<rparr>,
       \<lparr>ro_paused = True, ro_running = True, ro_exit = False, ro_found = Some ([7], [4])\<rparr>]"
      "[[7], [120, 101, 102], [7], [121, 103]]" "[22, 100]" "''relay''" "''front''" "''back''"]
  by (simp add: goes_on_def found_of_def)

text \<open>
  A multipart message as the socket hands it over: every part but the last says that more
  follow.
\<close>

definition whole_message :: "(message \<times> bool) list \<Rightarrow> bool" where
  "whole_message ps \<longleftrightarrow> ps \<noteq> [] \<and> list_all snd (butlast ps) \<and> \<not> snd (last ps)"

text \<open>Rounds in which nothing new arrives; what is sent in each direction is collected.\<close>

fun server_rounds :: "nat \<Rightarrow> (message \<times> bool) list \<Rightarrow> (message \<times> bool) list \<Rightarrow> 'f proxy \<Rightarrow>
    (message \<times> bool) list \<times> (message \<times> bool) list \<times>
      (message \<times> bool) list \<times> (message \<times> bool) list" where
  "server_rounds 0 front back px = ([], [], front, back)"
| "server_rounds (Suc n) front back px =
     (let (_, tb, tf, front1, back1) = server_spin front back px;
          (tb', tf', front2, back2) = server_rounds n front1 back1 px
      in (tb @ tb', tf @ tf', front2, back2))"

lemma forward_queue:
  "list_all whole_message ms \<Longrightarrow>
    (if concat ms \<noteq> [] then forward_parts (concat ms) else ([], concat ms)) =
      (concat (take 1 ms), concat (drop 1 ms))"
  by (cases ms) (auto simp: whole_message_def list_all_iff intro!: forward_parts_message)

lemma server_spin_messages:
  assumes "px_sockets px" and "list_all whole_message ms" and "list_all whole_message ns"
  shows "server_spin (concat ms) (concat ns) px =
    (True, concat (take 1 ms), concat (take 1 ns), concat (drop 1 ms), concat (drop 1 ns))"
  unfolding server_spin_def forward_queue [OF assms(2)] forward_queue [OF assms(3)]
  using assms(1) by (simp only: Let_def prod.case not_True_eq_False if_False)

lemma list_all_drop: "list_all P xs \<Longrightarrow> list_all P (drop n xs)"
  by (auto simp: list_all_iff dest: in_set_dropD)

lemma server_rounds_messages:
  assumes "px_sockets px" and "list_all whole_message ms" and "list_all whole_message ns"
  shows "server_rounds n (concat ms) (concat ns) px =
    (concat (take n ms), concat (take n ns), concat (drop n ms), concat (drop n ns))"
  using assms(2, 3)
proof (induction n arbitrary: ms ns)
  case 0
  then show ?case by simp
next
  case (Suc n)
  have split: "concat (take 1 xs) @ concat (take n (drop 1 xs)) = concat (take (Suc n) xs)"
    for xs :: "(message \<times> bool) list list"
    by (cases xs) auto
  have drops: "drop n (drop 1 xs) = drop (Suc n) xs" for xs :: "(message \<times> bool) list list"
    by (cases xs) auto
  have "server_rounds n (concat (drop 1 ms)) (concat (drop 1 ns)) px =
      (concat (take n (drop 1 ms)), concat (take n (drop 1 ns)),
       concat (drop n (drop 1 ms)), concat (drop n (drop 1 ns)))"
    by (rule Suc.IH) (rule list_all_drop, rule Suc.prems)+
  then show ?case
    using server_spin_messages [OF assms(1) Suc.prems]
    by (simp only: server_rounds.simps Let_def prod.case split drops)
qed

text \<open>
  The router-dealer proxy moves whole messages.  With any queues of complete multipart
  messages on its two sockets, \<open>n\<close> rounds of a started proxy send on exactly the first \<open>n\<close>
  messages of each direction, part by part with their flags, and leave the others queued.
\<close>

theorem server_proxy_moves_messages:
  assumes "list_all whole_message ms" and "list_all whole_message ns"
  shows "server_rounds n (concat ms) (concat ns)
      ((new_proxy Req_Rep ident front back)\<lparr>px_sockets := True\<rparr>) =
    (concat (take n ms), concat (take n ns), concat (drop n ms), concat (drop n ns))"
  by (rule server_rounds_messages) (simp_all add: assms)

lemma server_proxy_moves_messages_witness:
  "server_rounds 1 (concat [[([1], True), ([2], True), ([3], False)], [([4], False)]])
      (concat [[([5], True), ([6], False)]])
      ((new_proxy Req_Rep ''req'' ''front'' ''back'' :: nat proxy)\<lparr>px_sockets := True\<rparr>) =
    ([([1], True), ([2], True), ([3], False)], [([5], True), ([6], False)], [([4], False)], [])"
  using server_proxy_moves_messages [of "[[([1], True), ([2], True), ([3], False)], [([4], False)]]"
      "[[([5], True), ([6], False)]]" 1 "''req''" "''front''" "''back''", where 'a = nat]
  by (simp add: whole_message_def)

lemma new_proxy_sig:
  "px_signals (snd (register_all register_signal kvs (new_proxy kind ident front back))) v =
    (case [CLEAN_STOP \<mapsto> Do_Stop, KILL \<mapsto> Do_Kill, START \<mapsto> Do_Start, PAUSE \<mapsto> Do_Pause] v of
       Some act \<Rightarrow> Some act
     | None \<Rightarrow> map_of kvs v)"
  by (simp only: signals.register_all_look new_proxy_signals)

text \<open>
  What a signal does.  After any registrations, a proxy answers the four built-in signals
  as it did when it was made (a registration under their numbers is refused): 0 stops it, 1
  stops it and ends the process, 2 and 3 run its loop or hold the caller.  Another number
  calls the first function registered for it, and the answer is only whether that function
  returned something other than zero, as is the answer to a built-in one; a number nobody
  registered answers -1 and changes nothing.
\<close>

theorem signal_result:
  "proxy_signal blocked v (snd (register_all register_signal kvs (new_proxy kind ident front back))) =
    (let px = snd (register_all register_signal kvs (new_proxy kind ident front back))
     in if v = CLEAN_STOP then Inr (0, px\<lparr>px_running := False\<rparr>)
        else if v = KILL then Inl Terminated
        else if v = START then Inr (1, blocked Do_Start px)
        else if v = PAUSE then Inr (1, blocked Do_Pause px)
        else case map_of kvs v of
            None \<Rightarrow> Inr (-1, px)
          | Some Do_Stop \<Rightarrow> Inr (0, px\<lparr>px_running := False\<rparr>)
          | Some Do_Kill \<Rightarrow> Inl Terminated
          | Some Do_Start \<Rightarrow> Inr (1, blocked Do_Start px)
          | Some Do_Pause \<Rightarrow> Inr (1, blocked Do_Pause px)
          | Some (Do_User n) \<Rightarrow> Inr (if n = 0 then 0 else 1, px))"
  by (simp add: proxy_signal_def new_proxy_sig proxy_stop_def proxy_stop_hook_def proxy_kill_def
      const_simps Let_def split: option.split signal_action.split)

section \<open>Properties of a pipe\<close>

subsection \<open>Stopping all\<close>

definition no_nulls :: "'f pipe \<Rightarrow> bool" where
  "no_nulls pipe \<longleftrightarrow> (\<forall>e \<in> ran pipe. pe_proxy e \<noteq> None)"

text \<open>An entry whose proxy was told to stop and whose thread was joined.\<close>

definition stopped_entry :: "'f proxy_entry \<Rightarrow> 'f proxy_entry" where
  "stopped_entry e = e\<lparr>pe_proxy := map_option (px_running_update (\<lambda>_. False)) (pe_proxy e), pe_joinable := False\<rparr>"

definition all_stopped :: "'f pipe \<Rightarrow> 'f pipe" where
  "all_stopped pipe = (\<lambda>ident. map_option stopped_entry (pipe ident))"

lemma stopped_entry_twice [simp]: "stopped_entry (stopped_entry e) = stopped_entry e"
  by (cases "pe_proxy e") (simp_all add: stopped_entry_def)

lemma proxy_stop_eq: "proxy_stop px = (True, px\<lparr>px_running := False\<rparr>)"
  by (simp add: proxy_stop_def proxy_stop_hook_def Let_def)

text \<open>
  One entry of the run: it is stopped and the run goes on, unless its thread is held, and then it
  is told to stop and stays joinable.
\<close>

lemma pipe_stop_all_Cons:
  assumes "pipe ident = Some e" and "pe_proxy e \<noteq> None"
  shows "pipe_stop_all held (ident # idents) pipe =
    (if pe_joinable e \<and> held ident
     then Inr (None, pipe(ident \<mapsto> (stopped_entry e)\<lparr>pe_joinable := True\<rparr>))
     else pipe_stop_all held idents (pipe(ident \<mapsto> stopped_entry e)))"
  using assms by (cases e) (auto simp: proxy_at_def stopped_entry_def proxy_stop_eq Let_def)

lemma no_nulls_stopped: "no_nulls pipe \<Longrightarrow> pipe ident = Some e \<Longrightarrow> no_nulls (pipe(ident \<mapsto> stopped_entry e))"
  by (auto simp: no_nulls_def ran_def stopped_entry_def)

text \<open>Where no thread is held, the run stops what it names; where one is, it does not return.\<close>

lemma pipe_stop_all_free:
  "no_nulls pipe \<Longrightarrow> \<forall>i \<in> set idents. \<forall>e. pipe i = Some e \<longrightarrow> \<not> (pe_joinable e \<and> held i) \<Longrightarrow>
    pipe_stop_all held idents pipe = Inr (Some True,
      \<lambda>i. if i \<in> set idents then map_option stopped_entry (pipe i) else pipe i)"
proof (induction idents arbitrary: pipe)
  case (Cons ident idents)
  show ?case
  proof (cases "pipe ident")
    case None
    with Cons show ?thesis by (auto simp: fun_eq_iff)
  next
    case (Some e)
    let ?pipe = "pipe(ident \<mapsto> stopped_entry e)"
    have e: "pe_proxy e \<noteq> None" using Cons.prems(1) Some by (auto simp: no_nulls_def intro: ranI)
    have "\<forall>i \<in> set idents. \<forall>d. ?pipe i = Some d \<longrightarrow> \<not> (pe_joinable d \<and> held i)"
      using Cons.prems(2) by (auto simp: stopped_entry_def)
    note run = Cons.IH [of ?pipe, OF no_nulls_stopped [of pipe, OF Cons.prems(1) Some] this]
    have free: "\<not> (pe_joinable e \<and> held ident)" using Cons.prems(2) Some by simp
    have "(\<lambda>i. if i \<in> set idents then map_option stopped_entry (?pipe i) else ?pipe i) =
        (\<lambda>i. if i \<in> set (ident # idents) then map_option stopped_entry (pipe i) else pipe i)"
      using Some by (auto simp: fun_eq_iff)
    then show ?thesis unfolding pipe_stop_all_Cons [of pipe, OF Some e] if_not_P [OF free] run by (simp only:)
  qed
qed simp

lemma pipe_stop_all_held:
  "no_nulls pipe \<Longrightarrow> ident \<in> set idents \<Longrightarrow> pipe ident = Some e \<Longrightarrow> pe_joinable e \<Longrightarrow> held ident \<Longrightarrow>
    \<exists>pipe'. pipe_stop_all held idents pipe = Inr (None, pipe') \<and>
      (\<exists>i d. pipe' i = Some d \<and> pe_joinable d \<and> held i)"
proof (induction idents arbitrary: pipe e)
  case (Cons i idents)
  show ?case
  proof (cases "pipe i")
    case None
    with Cons show ?thesis by auto
  next
    case (Some d)
    have d: "pe_proxy d \<noteq> None" using Cons.prems(1) Some by (auto simp: no_nulls_def intro: ranI)
    show ?thesis
    proof (cases "pe_joinable d \<and> held i")
      case True
      then show ?thesis unfolding pipe_stop_all_Cons [of pipe, OF Some d]
        by (auto intro!: exI [of _ i])
    next
      case False
      then have "i \<noteq> ident" using Cons.prems(3-5) Some by auto
      with Cons.prems have "ident \<in> set idents" "(pipe(i \<mapsto> stopped_entry d)) ident = Some e" by auto
      from Cons.IH [OF no_nulls_stopped [OF Cons.prems(1) Some] this Cons.prems(4,5)] show ?thesis
        unfolding pipe_stop_all_Cons [of pipe, OF Some d] if_not_P [OF False] .
    qed
  qed
qed simp

lemma pipe_stop_all_stops:
  assumes "pipe ident = Some e" and "pe_proxy e = Some px" and "set idents = dom pipe \<and> no_nulls pipe"
  shows "\<exists>answer pipe3. pipe_stop_all held idents pipe = Inr (answer, pipe3) \<and>
    (answer = Some True \<longrightarrow> map_option px_running (Option.bind (pipe3 ident) pe_proxy) = Some False) \<and>
    (answer \<noteq> Some True \<longrightarrow> (\<exists>i. held i))"
proof (cases "\<exists>i d. pipe i = Some d \<and> pe_joinable d \<and> held i")
  case True
  then obtain i d where i: "pipe i = Some d" "pe_joinable d" "held i" by blast
  then have "i \<in> set idents" using assms(3) by auto
  moreover have "no_nulls pipe" using assms(3) by simp
  ultimately obtain pipe3 where "pipe_stop_all held idents pipe = Inr (None, pipe3)"
    using pipe_stop_all_held [where pipe = pipe and ident = i and e = d and held = held and idents = idents] i by blast
  with i(3) show ?thesis by (intro exI conjI) auto
next
  case False
  then have "pipe_stop_all held idents pipe = Inr (Some True,
      \<lambda>i. if i \<in> set idents then map_option stopped_entry (pipe i) else pipe i)"
    using assms(3) by (intro pipe_stop_all_free) auto
  moreover have "ident \<in> set idents" using assms(1,3) by auto
  ultimately show ?thesis using assms(1,2) by (simp add: stopped_entry_def)
qed

subsection \<open>Controlling one\<close>

text \<open>
  C40: a pipe cannot control its endpoints.  Once \<^verbatim>\<open>create_pub_sub_endpoint\<close> has filed a proxy,
  whatever endpoints are created later, \<^verbatim>\<open>stop\<close>, \<^verbatim>\<open>kill\<close>, \<^verbatim>\<open>signal\<close> and \<^verbatim>\<open>register_signal\<close> under its id refuse and change nothing,
  because their test for a known id is the wrong way round; for the ids they do go on with,
  those the pipe does not hold, they dereference the null proxy that \<^verbatim>\<open>operator[]\<close> inserts.
  \<^verbatim>\<open>set_filter\<close> tests the right way and \<^verbatim>\<open>stop()\<close> for all still stops the proxy: in whatever order
  it runs through a table without null entries, it stops this one by the time it returns, and it
  returns unless a thread is held.
\<close>

theorem pipe_control_inverted:
  assumes "create_pub_sub_endpoint ident front back pipe = (True, pipe1)"
    and "pipe' = snd (register_all create_endpoint es pipe1)"
  shows "pipe_stop ident pipe' = Inr (False, pipe') \<and> pipe_kill ident pipe' = Inr (False, pipe') \<and>
    pipe_signal blocked ident v pipe' = Inr (0, pipe') \<and>
    pipe_register_signal ident v func pipe' = Inr (False, pipe') \<and>
    pipe_stop ident pipe = Inl Null_Deref \<and> pipe_kill ident pipe = Inl Null_Deref \<and>
    pipe_signal blocked ident v pipe = Inl Null_Deref \<and>
    pipe_register_signal ident v func pipe = Inl Null_Deref \<and>
    pipe_set_filter ident flt pipe = Inr (False, pipe) \<and>
    (\<exists>pipe2. pipe_set_filter ident flt pipe' = Inr (True, pipe2) \<and>
       map_option px_filters (Option.bind (pipe2 ident) pe_proxy) = Some [flt]) \<and>
    (\<forall>held idents. set idents = dom pipe' \<and> no_nulls pipe' \<longrightarrow>
      (\<exists>answer pipe3. pipe_stop_all held idents pipe' = Inr (answer, pipe3) \<and>
        (answer = Some True \<longrightarrow> map_option px_running (Option.bind (pipe3 ident) pe_proxy) = Some False) \<and>
        (answer \<noteq> Some True \<longrightarrow> (\<exists>i. held i))))"
proof -
  let ?e = "\<lparr>pe_proxy = Some (new_proxy Pub_Sub ident front back), pe_joinable = True\<rparr>"
  have "pipe ident = None" and "pipe1 ident = Some ?e"
    using assms(1) by (auto simp: create_pub_sub_endpoint_def create_endpoint_def split: option.splits)
  moreover from endpoints.register_all_keeps [where s = pipe1, OF this(2)]
  have e: "pipe' ident = Some ?e" using assms(2) by simp
  have "\<forall>held idents. set idents = dom pipe' \<and> no_nulls pipe' \<longrightarrow>
      (\<exists>answer pipe3. pipe_stop_all held idents pipe' = Inr (answer, pipe3) \<and>
        (answer = Some True \<longrightarrow> map_option px_running (Option.bind (pipe3 ident) pe_proxy) = Some False) \<and>
        (answer \<noteq> Some True \<longrightarrow> (\<exists>i. held i)))"
    by (intro allI impI, rule pipe_stop_all_stops [of pipe', OF e]) simp_all
  moreover note e
  ultimately show ?thesis
    by (simp add: pipe_stop_def pipe_kill_def pipe_signal_def pipe_register_signal_def
        pipe_set_filter_def proxy_at_def put_proxy_def add_filter_def)
qed

lemma pipe_control_inverted_witness:
  "\<exists>pipe1. create_pub_sub_endpoint ''a'' ''front'' ''back'' (Map.empty :: nat pipe) = (True, pipe1) \<and>
    pipe_stop ''a'' pipe1 = Inr (False, pipe1) \<and> pipe_stop ''a'' (Map.empty :: nat pipe) = Inl Null_Deref"
proof -
  obtain pipe1 where p: "create_pub_sub_endpoint ''a'' ''front'' ''back'' (Map.empty :: nat pipe) = (True, pipe1)"
    by (simp add: create_pub_sub_endpoint_def create_endpoint_def)
  have "pipe1 = snd (register_all create_endpoint [] pipe1)" by simp
  with p pipe_control_inverted [OF p this] show ?thesis by blast
qed

end
