(* ===== verification/Localizer.thy ===== *)
theory Localizer
  imports Rmt_Control_Client Rmt_Messages Addresses Proxy_Pipe
begin

text \<open>
  Model of the robot's position: \<^verbatim>\<open>src/messages/pipe/Simple_Localizer.cpp\<close>, the filter of the
  localizer proxy, which turns sensor messages into the path state, and
  \<^verbatim>\<open>src/localizer/PosLocalizer.cpp\<close>, which publishes the camera's position.  The calls of
  the filter run under the proxy's lock and those of the publisher under \<^verbatim>\<open>guard\<close>.
\<close>

section \<open>The filter\<close>

record localizer_state =
  lo_x :: float32
  lo_y :: float32
  lo_theta :: float32
  lo_v :: float32
  lo_w :: float32

record simple_localizer =
  sl_msg :: path_state
  sl_sensor :: teensy_sensor_array
  sl_camera :: camera_msg
  sl_state :: localizer_state

definition new_simple_localizer :: "simple_localizer res" where
  "new_simple_localizer =
     bindR create_path_state (\<lambda>msg.
     bindR create_teensy_sensor_array (\<lambda>sensor.
     bindR create_camera_msg (\<lambda>camera.
       Inr \<lparr>sl_msg = msg, sl_sensor = sensor, sl_camera = camera,
         sl_state = \<lparr>lo_x = 0, lo_y = 0, lo_theta = 0, lo_v = 0, lo_w = 0\<rparr>\<rparr>)))"

definition teensy_update :: "float32 \<Rightarrow> float32 \<Rightarrow> float32 \<Rightarrow> localizer_state \<Rightarrow> localizer_state" where
  "teensy_update v w dt s = s\<lparr>lo_v := v, lo_w := w\<rparr>"

definition camera_update :: "float32 \<Rightarrow> float32 \<Rightarrow> float32 \<Rightarrow> float32 \<Rightarrow> localizer_state \<Rightarrow>
    localizer_state" where
  "camera_update x y theta dt s = s\<lparr>lo_x := x, lo_y := y, lo_theta := theta\<rparr>"

text \<open>
  \<^verbatim>\<open>convert\<close>: the code, the message that replaces the incoming one, and the filter.
\<close>

definition convert :: "bytes \<Rightarrow> message \<Rightarrow> simple_localizer \<Rightarrow> (int \<times> message \<times> simple_localizer) res" where
  "convert slack incoming f =
     bindR create_sensor_msg (\<lambda>msg.
     let data = string_storage incoming slack in
     bindR (sensor_msg_from_wire msg data) (\<lambda>(ret, _).
     bindR
       (if ret = sint TEENSY_MSG then
          bindR (teensy_sensor_array_from_wire (sl_sensor f) data) (\<lambda>(_, sensor).
            Inr (ret, f\<lparr>sl_sensor := sensor,
              sl_state := teensy_update (ta_v sensor) (ta_w sensor) (ta_dt sensor) (sl_state f)\<rparr>))
        else if ret = sint CAMERA_MESSAGE then
          bindR (camera_msg_from_wire (sl_camera f) data) (\<lambda>(_, camera).
            Inr (ret, f\<lparr>sl_camera := camera,
              sl_state := camera_update (ca_x camera) (ca_y camera) (ca_theta camera) (ca_dt camera)
                (sl_state f)\<rparr>))
        else Inr (-1, f)) (\<lambda>(ret, f).
     let s = sl_state f;
         out = (sl_msg f)\<lparr>pa_x := lo_x s, pa_y := lo_y s, pa_theta := lo_theta s, pa_v := lo_v s,
           pa_w := lo_w s\<rparr> in
     bindR (path_state_to_wire out) (\<lambda>(_, out).
     bindR (load (db_data (pa_buff out)) 0 (unat (db_byte_length (pa_buff out)))) (\<lambda>str.
       Inr (ret, str, f\<lparr>sl_msg := out\<rparr>))))))"

section \<open>The camera's publisher\<close>

text \<open>The position has no initialiser: \<open>None\<close> until \<^verbatim>\<open>set_pos\<close> is called.\<close>

record pos_localizer =
  po_pos :: "(float32 \<times> float32 \<times> float32) option"
  po_msg :: camera_msg

text \<open>The constructor starts the thread that publishes \<^verbatim>\<open>get_pos\<close> every second.\<close>

definition new_pos_localizer :: "('s rmt_client \<times> pos_localizer) res" where
  "new_pos_localizer =
     bindR (new_rmt_client (to_bind_addr CAMERA_ADDRESS)) (\<lambda>c.
     bindR create_camera_msg (\<lambda>m.
     bindR (publish_periodic (to_conn_addr LOCALIZER_FRONT) localizer_topic Get_Pos 1000000
         (rc_net c)) (\<lambda>(_, net).
       Inr (c\<lparr>rc_net := net\<rparr>, \<lparr>po_pos = None, po_msg = m\<rparr>))))"

definition set_pos :: "float32 \<Rightarrow> float32 \<Rightarrow> float32 \<Rightarrow> pos_localizer \<Rightarrow> pos_localizer" where
  "set_pos x y theta p = p\<lparr>po_pos := Some (x, y, theta)\<rparr>"

definition get_pos :: "pos_localizer \<Rightarrow> (message \<times> pos_localizer) res" where
  "get_pos p =
     (case po_pos p of
        None \<Rightarrow> Inl Uninitialised
      | Some (x, y, theta) \<Rightarrow>
          bindR (camera_msg_to_wire ((po_msg p)\<lparr>ca_x := x, ca_y := y, ca_theta := theta\<rparr>)) (\<lambda>(_, m).
          bindR (load (db_data (se_buff (ca_msg m))) 0 (unat (db_byte_length (se_buff (ca_msg m))))) (\<lambda>str.
            Inr (str, p\<lparr>po_msg := m\<rparr>))))"

section \<open>What the filter computes\<close>

text \<open>The three kinds of message the filter tells apart, by what they carry.\<close>

datatype observation =
    Odometry float32 float32
  | Position float32 float32 float32
  | Other

text \<open>The abstract filter: the last position seen and the last velocities seen.\<close>

fun observe :: "observation \<Rightarrow> localizer_state \<Rightarrow> localizer_state" where
  "observe (Odometry v w) s = s\<lparr>lo_v := v, lo_w := w\<rparr>"
| "observe (Position x y theta) s = s\<lparr>lo_x := x, lo_y := y, lo_theta := theta\<rparr>"
| "observe Other s = s"

text \<open>Which observation a message is, read at the offsets of the message types.\<close>

definition observed :: "message \<Rightarrow> observation option" where
  "observed m =
     (case load_word m 15 of
        Inl e \<Rightarrow> None
      | Inr t \<Rightarrow>
          if t = TEENSY_MSG then
            (case (load_word m 22, load_word m 29, load_word m 36 :: u32 res) of
               (Inr v, Inr w, Inr dt) \<Rightarrow> Some (Odometry v w)
             | _ \<Rightarrow> None)
          else if t = CAMERA_MESSAGE then
            (case (load_word m 22, load_word m 29, load_word m 36, load_word m 0 :: u32 res) of
               (Inr x, Inr y, Inr theta, Inr dt) \<Rightarrow> Some (Position x y theta)
             | _ \<Rightarrow> None)
          else Some Other)"

definition wf_localizer :: "simple_localizer \<Rightarrow> bool" where
  "wf_localizer f \<longleftrightarrow> wf_path_state (sl_msg f) \<and> db_byte_length (pa_buff (sl_msg f)) = 48 \<and>
     wf_teensy_sensor_array (sl_sensor f) \<and> wf_camera_msg (sl_camera f)"

lemma wf_new_localizer:
  "\<exists>f. new_simple_localizer = Inr f \<and> wf_localizer f \<and>
    sl_state f = \<lparr>lo_x = 0, lo_y = 0, lo_theta = 0, lo_v = 0, lo_w = 0\<rparr>"
proof -
  obtain p where p: "create_path_state = Inr p" "wf_path_state p" using wf_created(3) by blast
  obtain t where t: "create_teensy_sensor_array = Inr t" "wf_teensy_sensor_array t"
    using wf_created(4) by blast
  obtain c where c: "create_camera_msg = Inr c" "wf_camera_msg c" using wf_created(5) by blast
  have "db_byte_length (pa_buff p) = 48" using p(1) by (auto simp: create_path_state_eq packet_def)
  with p t c show ?thesis
    unfolding new_simple_localizer_def p(1) t(1) c(1) bindR_Inr by (simp add: wf_localizer_def)
qed

lemma load_word_storage:
  "load_word m p = Inr (w :: u32) \<Longrightarrow> load_word (string_storage m slack) p = Inr w"
proof -
  assume l: "load_word m p = Inr w"
  then have "p + 4 \<le> length m" by (auto simp: load_word_def load_def split: if_splits)
  then have "(load_word (m @ [0] @ slack) p :: u32 res) = load_word m p"
    by (intro load_word_append) simp
  with l show ?thesis by (simp add: string_storage_def)
qed

text \<open>The five floats of a message, at the offsets of a path state.\<close>

definition shows_state :: "message \<Rightarrow> localizer_state \<Rightarrow> bool" where
  "shows_state m s \<longleftrightarrow> load_word m 15 = Inr (lo_x s) \<and> load_word m 22 = Inr (lo_y s) \<and>
     load_word m 29 = Inr (lo_theta s) \<and> load_word m 36 = Inr (lo_v s) \<and> load_word m 43 = Inr (lo_w s)"

text \<open>The last step of \<^verbatim>\<open>convert\<close>: the state goes into the outgoing message.\<close>

lemma path_state_out:
  assumes "wf_path_state p" and "db_byte_length (pa_buff p) = 48"
  shows "\<exists>p' m. path_state_to_wire (p\<lparr>pa_x := lo_x s, pa_y := lo_y s, pa_theta := lo_theta s,
      pa_v := lo_v s, pa_w := lo_w s\<rparr>) = Inr (1, p') \<and>
    load (db_data (pa_buff p')) 0 (unat (db_byte_length (pa_buff p'))) = Inr m \<and>
    shows_state m s \<and> length m = 48 \<and> wf_path_state p' \<and> db_byte_length (pa_buff p') = 48"
proof -
  let ?p = "p\<lparr>pa_x := lo_x s, pa_y := lo_y s, pa_theta := lo_theta s, pa_v := lo_v s, pa_w := lo_w s\<rparr>"
  have wf: "wf_path_state ?p" using assms(1) by (simp add: wf_path_state_def)
  obtain d where d: "path_state_to_wire ?p = Inr (1, ?p\<lparr>pa_buff := (pa_buff ?p)\<lparr>db_data := d\<rparr>\<rparr>)"
    "length d = 256" "load_word (d @ []) 15 = Inr (pa_x ?p)" "load_word (d @ []) 22 = Inr (pa_y ?p)"
    "load_word (d @ []) 29 = Inr (pa_theta ?p)" "load_word (d @ []) 36 = Inr (pa_v ?p)"
    "load_word (d @ []) 43 = Inr (pa_w ?p)"
    by (rule path_state_to_wire_spec [OF wf]) blast
  have "(load_word (take 48 d) q :: u32 res) = load_word (d @ []) q" if "q + 4 \<le> 48" for q
    using that d(2) by (simp add: load_word_def load_def drop_take)
  then have "shows_state (take 48 d) s" using d(3-7) by (simp add: shows_state_def)
  moreover have "load d 0 48 = Inr (take 48 d)" using d(2) by (simp add: load_def)
  moreover have "unat (48 :: u32) = 48" by simp
  ultimately show ?thesis using d(1,2) assms wf
    by (simp add: wf_path_state_def MESSAGE_SIZE_def)
qed

lemma convert_eq:
  assumes wf: "wf_localizer f" and obs: "observed incoming = Some obs"
  shows "\<exists>r m f'. convert slack incoming f = Inr (r, m, f') \<and> wf_localizer f' \<and>
    sl_state f' = observe obs (sl_state f) \<and> shows_state m (observe obs (sl_state f)) \<and> length m = 48 \<and>
    (r = -1 \<longleftrightarrow> obs = Other)"
proof -
  let ?s = "string_storage incoming slack"
  obtain sm where sm: "create_sensor_msg = Inr sm" "se_indexes sm = [15]"
    by (simp add: create_sensor_msg_eq)
  from obs obtain t :: u32 where t0: "load_word incoming 15 = Inr t"
    by (cases "load_word incoming 15 :: u32 res") (auto simp: observed_def)
  note t = load_word_storage [OF t0, of slack]
  obtain r sm' f1 where step: "sensor_msg_from_wire sm ?s = Inr (r, sm')"
    "(if r = sint TEENSY_MSG then
        bindR (teensy_sensor_array_from_wire (sl_sensor f) ?s) (\<lambda>(_, sensor).
          Inr (r, f\<lparr>sl_sensor := sensor,
            sl_state := teensy_update (ta_v sensor) (ta_w sensor) (ta_dt sensor) (sl_state f)\<rparr>))
      else if r = sint CAMERA_MESSAGE then
        bindR (camera_msg_from_wire (sl_camera f) ?s) (\<lambda>(_, camera).
          Inr (r, f\<lparr>sl_camera := camera,
            sl_state := camera_update (ca_x camera) (ca_y camera) (ca_theta camera) (ca_dt camera)
              (sl_state f)\<rparr>))
      else Inr (-1, f)) = Inr (r, f1)"
    and f1: "sl_state f1 = observe obs (sl_state f)" "wf_localizer f1" and r: "r = -1 \<longleftrightarrow> obs = Other"
  proof -
    consider (teensy) "t = TEENSY_MSG" | (camera) "t = CAMERA_MESSAGE" "t \<noteq> TEENSY_MSG"
      | (other) "t \<noteq> TEENSY_MSG" "t \<noteq> CAMERA_MESSAGE" by blast
    then show thesis
    proof cases
      case teensy
      with obs t0 obtain v w dt :: u32 where l: "load_word incoming 22 = Inr v"
        "load_word incoming 29 = Inr w" "load_word incoming 36 = Inr dt" "obs = Odometry v w"
        by (auto simp: observed_def split: sum.splits)
      show thesis
        by (rule that [of 1 "sm\<lparr>se_type := TEENSY_MSG\<rparr>"
              "f\<lparr>sl_sensor := (sl_sensor f)\<lparr>ta_v := v, ta_w := w, ta_dt := dt\<rparr>,
                sl_state := teensy_update v w dt (sl_state f)\<rparr>"])
          (use wf sm t teensy l load_word_storage [OF l(1)] load_word_storage [OF l(2)]
            load_word_storage [OF l(3)] in \<open>simp_all add: sensor_msg_from_wire_def
            teensy_sensor_array_from_wire_def wf_localizer_def wf_teensy_sensor_array_def
            TEENSY_MSG_def CAMERA_MESSAGE_def teensy_update_def\<close>)
    next
      case camera
      with obs t0 obtain x y th dt :: u32 where l: "load_word incoming 22 = Inr x"
        "load_word incoming 29 = Inr y" "load_word incoming 36 = Inr th" "load_word incoming 0 = Inr dt"
        "obs = Position x y th"
        by (auto simp: observed_def split: sum.splits)
      show thesis
        by (rule that [of 2 "sm\<lparr>se_type := CAMERA_MESSAGE\<rparr>"
              "f\<lparr>sl_camera := (sl_camera f)\<lparr>ca_x := x, ca_y := y, ca_theta := th, ca_dt := dt\<rparr>,
                sl_state := camera_update x y th dt (sl_state f)\<rparr>"])
          (use wf sm t camera l load_word_storage [OF l(1)] load_word_storage [OF l(2)]
            load_word_storage [OF l(3)] load_word_storage [OF l(4)] in \<open>simp_all add:
            sensor_msg_from_wire_def camera_msg_from_wire_def wf_localizer_def wf_camera_msg_def
            TEENSY_MSG_def CAMERA_MESSAGE_def camera_update_def\<close>)
    next
      case other
      with obs t0 have o: "obs = Other" by (auto simp: observed_def)
      show thesis
        by (rule that [of "-1" sm f])
          (use wf sm t other o in \<open>simp_all add: sensor_msg_from_wire_def TEENSY_MSG_def CAMERA_MESSAGE_def\<close>)
    qed
  qed
  obtain p' m where out: "path_state_to_wire ((sl_msg f1)\<lparr>pa_x := lo_x (sl_state f1),
      pa_y := lo_y (sl_state f1), pa_theta := lo_theta (sl_state f1), pa_v := lo_v (sl_state f1),
      pa_w := lo_w (sl_state f1)\<rparr>) = Inr (1, p')"
    "load (db_data (pa_buff p')) 0 (unat (db_byte_length (pa_buff p'))) = Inr m"
    "shows_state m (sl_state f1)" "length m = 48" "wf_path_state p'" "db_byte_length (pa_buff p') = 48"
    using path_state_out [of "sl_msg f1" "sl_state f1"] f1(2) by (auto simp: wf_localizer_def)
  have "convert slack incoming f = Inr (r, m, f1\<lparr>sl_msg := p'\<rparr>)"
    by (simp only: convert_def sm(1) bindR_Inr Let_def step(1) prod.case step(2) out(1,2))
  with out f1 r show ?thesis by (simp add: wf_localizer_def)
qed

section \<open>The filter meets its interface\<close>

lemma long_enough_observed: "48 \<le> length m \<Longrightarrow> observed m \<noteq> None"
  by (simp add: observed_def load_word_def load_def)

interpretation localizer_filter: stream_filter "\<lambda>f m. convert slack m f" wf_localizer "\<lambda>m. observed m \<noteq> None"
  for slack
proof unfold_locales
  fix f m
  assume "wf_localizer f" "observed m \<noteq> None"
  then obtain obs where "observed m = Some obs" by auto
  from convert_eq [OF \<open>wf_localizer f\<close> this, of slack]
  show "\<exists>r out f'. convert slack m f = Inr (r, out, f') \<and> wf_localizer f' \<and> observed out \<noteq> None"
    using long_enough_observed by fastforce
qed

section \<open>Properties\<close>

text \<open>The filter on a stream of messages.\<close>

fun convert_all :: "bytes \<Rightarrow> message list \<Rightarrow> simple_localizer \<Rightarrow> (message list \<times> simple_localizer) res" where
  "convert_all slack [] f = Inr ([], f)"
| "convert_all slack (m # ms) f =
     bindR (convert slack m f) (\<lambda>(_, out, f').
     bindR (convert_all slack ms f') (\<lambda>(outs, f''). Inr (out # outs, f'')))"

lemma convert_all_eq:
  assumes "wf_localizer f" and "map observed ms = map Some obs"
  shows "\<exists>outs f'. convert_all slack ms f = Inr (outs, f') \<and> wf_localizer f' \<and> length outs = length ms \<and>
    sl_state f' = fold observe obs (sl_state f) \<and>
    (\<forall>i < length ms. shows_state (outs ! i) (fold observe (take (Suc i) obs) (sl_state f)))"
  using assms
proof (induction ms arbitrary: obs f)
  case Nil
  then show ?case by simp
next
  case (Cons m ms)
  then obtain ob obs' where obs: "obs = ob # obs'" "observed m = Some ob" "map observed ms = map Some obs'"
    by (cases obs) auto
  obtain r out f1 where c: "convert slack m f = Inr (r, out, f1)" "wf_localizer f1"
    "sl_state f1 = observe ob (sl_state f)" "shows_state out (observe ob (sl_state f))"
    using convert_eq [OF Cons.prems(1) obs(2), of slack] by blast
  obtain outs f2 where t: "convert_all slack ms f1 = Inr (outs, f2)" "wf_localizer f2"
    "length outs = length ms" "sl_state f2 = fold observe obs' (sl_state f1)"
    "\<forall>i < length ms. shows_state (outs ! i) (fold observe (take (Suc i) obs') (sl_state f1))"
    using Cons.IH [OF c(2) obs(3)] by blast
  have "shows_state ((out # outs) ! i) (fold observe (take (Suc i) obs) (sl_state f))"
    if "i < length (m # ms)" for i
    using that t(5) c(3,4) obs(1) by (cases i) auto
  with c t obs show ?case by simp
qed

text \<open>
  C12: the filter computes the path state.  On any stream of messages that are long enough to
  be read, the \<open>i\<close>-th message it passes on carries, at the offsets of a \<^verbatim>\<open>path_state\<close>, the
  last position and the last velocities among the first \<open>i\<close> messages (zero before any), and
  messages of another kind change nothing.
\<close>

theorem localizer_tracks_last_seen:
  assumes "new_simple_localizer = Inr f" and "map observed ms = map Some obs"
  shows "\<exists>outs f'. convert_all slack ms f = Inr (outs, f') \<and> length outs = length ms \<and>
    (\<forall>i < length ms. shows_state (outs ! i) (fold observe (take (Suc i) obs)
      \<lparr>lo_x = 0, lo_y = 0, lo_theta = 0, lo_v = 0, lo_w = 0\<rparr>))"
proof -
  have "wf_localizer f" "sl_state f = \<lparr>lo_x = 0, lo_y = 0, lo_theta = 0, lo_v = 0, lo_w = 0\<rparr>"
    using wf_new_localizer unfolding assms(1) by (metis sum.inject(2))+
  with convert_all_eq [OF _ assms(2), of f slack] show ?thesis by auto
qed

lemma localizer_tracks_last_seen_witness:
  "\<exists>f outs f'. new_simple_localizer = Inr f \<and>
    convert_all [] [replicate 15 0 @ le_bytes TEENSY_MSG @ replicate 22 7] f = Inr (outs, f') \<and>
    (\<exists>w. shows_state (outs ! 0) \<lparr>lo_x = 0, lo_y = 0, lo_theta = 0, lo_v = w, lo_w = w\<rparr>)"
proof -
  obtain f where f: "new_simple_localizer = Inr f" using wf_new_localizer by blast
  let ?m = "replicate 15 0 @ le_bytes TEENSY_MSG @ replicate 22 7"
  let ?w = "le_word [7, 7, 7, 7] :: u32"
  have "observed ?m = Some (Odometry ?w ?w)" by code_simp
  then have "map observed [?m] = map Some [Odometry ?w ?w]" by simp
  from localizer_tracks_last_seen [OF f this, of "[]"] f show ?thesis
    by fastforce
qed

section \<open>What the camera publishes\<close>

text \<open>What every camera object keeps: a well-formed message with a zero time step.\<close>

definition pos_inv :: "pos_localizer \<Rightarrow> bool" where
  "pos_inv p \<longleftrightarrow> wf_camera_msg (po_msg p) \<and> db_byte_length (se_buff (ca_msg (po_msg p))) = 48 \<and>
     ca_dt (po_msg p) = 0"

lemma new_pos_localizer_ok:
  "\<exists>c p. new_pos_localizer = Inr (c, p) \<and> pos_inv p \<and> po_pos p = None \<and> wf_rmt c \<and>
    map fst (zc_periodic_publishers (rc_net c)) = [to_conn_addr LOCALIZER_FRONT]"
proof -
  obtain c :: "'a rmt_client" where c: "new_rmt_client (to_bind_addr CAMERA_ADDRESS) = Inr c" "wf_rmt c"
    using wf_new_rmt_client by blast
  then have p: "zc_periodic_publishers (rc_net c) = []"
    by (auto simp: new_rmt_client_def initialize_client_def new_zmq_client_def starting_defs
        start_thread_fresh)
  obtain m where m: "create_camera_msg = Inr m" "wf_camera_msg m" using wf_created(5) by blast
  then have "db_byte_length (se_buff (ca_msg m)) = 48" "ca_dt m = 0"
    by (auto simp: create_camera_msg_eq packet_def)
  with c(2) p m(2) show ?thesis
    unfolding new_pos_localizer_def c(1) m(1) bindR_Inr
    by (simp add: starting_defs start_thread_fresh pos_inv_def wf_rmt_def)
qed

text \<open>The message published carries the position set last, and the invariant is kept.\<close>

lemma get_pos_set:
  assumes "pos_inv p" and "po_pos p = Some (x, y, th)"
  shows "\<exists>m p'. get_pos p = Inr (m, p') \<and> length m = 48 \<and> get_protocol_version m = Inr 0 \<and>
    observed m = Some (Position x y th) \<and> pos_inv p' \<and> po_pos p' = po_pos p"
proof -
  let ?c = "(po_msg p)\<lparr>ca_x := x, ca_y := y, ca_theta := th\<rparr>"
  note inv = assms(1) [unfolded pos_inv_def]
  have wf: "wf_camera_msg ?c" using inv by (simp add: wf_camera_msg_def)
  obtain d where d: "camera_msg_to_wire ?c =
      Inr (1, ?c\<lparr>ca_msg := (ca_msg ?c)\<lparr>se_buff := (se_buff (ca_msg ?c))\<lparr>db_data := d\<rparr>\<rparr>\<rparr>)"
    "length d = 256" "load_word (d @ []) 15 = Inr CAMERA_MESSAGE" "load_word (d @ []) 22 = Inr (ca_x ?c)"
    "load_word (d @ []) 29 = Inr (ca_y ?c)" "load_word (d @ []) 36 = Inr (ca_theta ?c)"
    "load_word (d @ []) 0 = Inr (ca_dt ?c)"
    by (rule camera_msg_to_wire_spec [OF wf]) blast
  have tk: "(load_word (take 48 d) q :: u32 res) = load_word (d @ []) q" if "q + 4 \<le> 48" for q
    using that d(2) by (simp add: load_word_def load_def drop_take)
  have g: "get_pos p = Inr (take 48 d,
      p\<lparr>po_msg := ?c\<lparr>ca_msg := (ca_msg ?c)\<lparr>se_buff := (se_buff (ca_msg ?c))\<lparr>db_data := d\<rparr>\<rparr>\<rparr>\<rparr>)"
    using d(1,2) inv assms(2) by (simp add: get_pos_def load_def)
  have obs: "observed (take 48 d) = Some (Position x y th)"
    using tk d(3-7) by (simp add: observed_def TEENSY_MSG_def CAMERA_MESSAGE_def)
  have "(le_word (take 4 d) :: u32) = 0"
    using d(2,7) inv by (simp add: load_word_def load_def)
  then have "(ucast (le_word (take 1 d @ drop 1 (take 4 d)) :: u32) :: u8) = 0"
    using append_take_drop_id [of 1 "take 4 d"] by (simp add: min_def)
  moreover have "(ucast (le_word (take 1 d @ drop 1 (take 4 d)) :: u32) :: u8) = le_word (take 1 d)"
    by (rule ucast_le_word) (simp_all add: d(2))
  ultimately have "get_protocol_version (take 48 d) = Inr 0"
    using d(2) by (simp add: get_protocol_version_def load_word_def load_def min_def)
  then show ?thesis using g d(2) obs inv assms(2)
    by (simp add: pos_inv_def wf_camera_msg_def MESSAGE_SIZE_def)
qed

text \<open>Calls on a camera object, from its own thread and the publisher's, in any order.\<close>

datatype pos_call = Set_Pos float32 float32 float32 | Publish

fun pos_run :: "pos_call list \<Rightarrow> pos_localizer \<Rightarrow> (message list \<times> pos_localizer) res" where
  "pos_run [] p = Inr ([], p)"
| "pos_run (Set_Pos x y th # cs) p = pos_run cs (set_pos x y th p)"
| "pos_run (Publish # cs) p =
     bindR (get_pos p) (\<lambda>(m, p'). bindR (pos_run cs p') (\<lambda>(ms, p''). Inr (m # ms, p'')))"

text \<open>What each publication should carry: the position set last, if any.\<close>

fun positions :: "pos_call list \<Rightarrow> observation option \<Rightarrow> observation option list" where
  "positions [] cur = []"
| "positions (Set_Pos x y th # cs) cur = positions cs (Some (Position x y th))"
| "positions (Publish # cs) cur = cur # positions cs cur"

definition current :: "pos_localizer \<Rightarrow> observation option" where
  "current p = map_option (\<lambda>(x, y, th). Position x y th) (po_pos p)"

lemma pos_run_positions:
  assumes "pos_inv p"
  shows "if None \<in> set (positions cs (current p)) then pos_run cs p = Inl Uninitialised
    else \<exists>ms p'. pos_run cs p = Inr (ms, p') \<and> map observed ms = positions cs (current p) \<and> pos_inv p'"
  using assms
proof (induction cs "current p" arbitrary: p rule: positions.induct)
  case (1 p)
  then show ?case by simp
next
  case (2 x y th cs p)
  have "Some (Position x y th) = current (set_pos x y th p)" "pos_inv (set_pos x y th p)"
    using "2.prems" by (simp_all add: current_def set_pos_def pos_inv_def)
  from "2.hyps" [OF this] this(1) show ?case by simp
next
  case (3 cs p)
  show ?case
  proof (cases "po_pos p")
    case None
    then show ?thesis by (simp add: current_def get_pos_def)
  next
    case (Some xyt)
    obtain x y th where pos: "po_pos p = Some (x, y, th)" using Some by (cases xyt) auto
    obtain m p' where g: "get_pos p = Inr (m, p')" "observed m = Some (Position x y th)" "pos_inv p'"
      "po_pos p' = po_pos p" using get_pos_set [OF "3.prems" pos] by blast
    have cur: "current p = current p'" "current p = Some (Position x y th)"
      using g(4) pos by (simp_all add: current_def)
    show ?thesis using "3.hyps" [OF cur(1) g(3)] g(1,2) cur by (auto split: if_splits)
  qed
qed

text \<open>
  What the camera publishes.  From the constructor on, and for any order of \<^verbatim>\<open>set_pos\<close>
  calls and publications, every message published carries the position set last; but the
  constructor has started the publisher before any position was set, and a publication that
  comes first reads uninitialised members.
\<close>

theorem camera_publishes_last_set:
  assumes "new_pos_localizer = Inr (c, p)"
  shows "if None \<in> set (positions cs None) then pos_run cs p = Inl Uninitialised
    else \<exists>ms p'. pos_run cs p = Inr (ms, p') \<and> map observed ms = positions cs None"
proof -
  obtain c' :: "'a rmt_client" and p' where p': "new_pos_localizer = Inr (c', p')" "pos_inv p'"
    "po_pos p' = None" using new_pos_localizer_ok by blast
  from p'(1) have "p' = p" unfolding assms by simp
  with p' have "pos_inv p" "current p = None" by (simp_all add: current_def)
  from pos_run_positions [OF this(1), of cs] show ?thesis
    unfolding \<open>current p = None\<close> by (simp split: if_splits) blast
qed

lemma camera_publishes_last_set_witness:
  "\<exists>c p ms p'. (new_pos_localizer :: (unit rmt_client \<times> pos_localizer) res) = Inr (c, p) \<and>
    pos_run [Publish] p = Inl Uninitialised \<and>
    pos_run [Set_Pos 1 2 3, Publish, Set_Pos 4 5 6, Publish] p = Inr (ms, p') \<and>
    map observed ms = [Some (Position 1 2 3), Some (Position 4 5 6)]"
proof -
  obtain c :: "unit rmt_client" and p where p: "new_pos_localizer = Inr (c, p)"
    using new_pos_localizer_ok by blast
  have early: "pos_run [Publish] p = Inl Uninitialised"
    using camera_publishes_last_set [OF p, of "[Publish]"]
    by (simp only: positions.simps list.set insert_iff simp_thms if_True)
  obtain ms p' where r: "pos_run [Set_Pos 1 2 3, Publish, Set_Pos 4 5 6, Publish] p = Inr (ms, p')"
    "map observed ms = [Some (Position 1 2 3), Some (Position 4 5 6)]"
    using camera_publishes_last_set [OF p, of "[Set_Pos 1 2 3, Publish, Set_Pos 4 5 6, Publish]"]
    by (simp only: positions.simps list.set insert_iff empty_iff option.distinct simp_thms if_False)
      (elim exE conjE, rule that)
  show ?thesis by (intro exI conjI) (rule p early r)+
qed

text \<open>
  The camera's position reaches the path state: what \<^verbatim>\<open>set_pos\<close> stored and \<^verbatim>\<open>get_pos\<close>
  published is, after the filter, the position of the message it passes on, with the
  velocities it knew before; the forty-eight bytes published are enough for every field, and
  their first byte, where readers look for the protocol version, is 0.
\<close>

theorem camera_position_reaches_path:
  assumes "pos_inv p" and "wf_localizer f"
  shows "\<exists>m p' r out f'. get_pos (set_pos x y th p) = Inr (m, p') \<and> length m = 48 \<and>
    get_protocol_version m = Inr 0 \<and>
    convert slack m f = Inr (r, out, f') \<and>
    shows_state out ((sl_state f)\<lparr>lo_x := x, lo_y := y, lo_theta := th\<rparr>)"
proof -
  have "pos_inv (set_pos x y th p)" "po_pos (set_pos x y th p) = Some (x, y, th)"
    using assms(1) by (simp_all add: pos_inv_def set_pos_def)
  then obtain m p' where m: "get_pos (set_pos x y th p) = Inr (m, p')" "length m = 48"
    "get_protocol_version m = Inr 0" "observed m = Some (Position x y th)"
    using get_pos_set by blast
  with convert_eq [OF assms(2) m(4), of slack] show ?thesis by fastforce
qed

lemma camera_position_reaches_path_witness:
  "\<exists>c p f m p' r out f'. (new_pos_localizer :: (unit rmt_client \<times> pos_localizer) res) = Inr (c, p) \<and>
    get_pos (set_pos 1 2 3 p) = Inr (m, p') \<and> new_simple_localizer = Inr f \<and>
    convert [] m f = Inr (r, out, f') \<and> load_word out 22 = Inr (2 :: u32)"
proof -
  obtain c :: "unit rmt_client" and p where p: "new_pos_localizer = Inr (c, p)" "pos_inv p"
    using new_pos_localizer_ok by blast
  obtain f where f: "new_simple_localizer = Inr f" "wf_localizer f" using wf_new_localizer by blast
  obtain m p' r out f' where "get_pos (set_pos 1 2 3 p) = Inr (m, p')"
    "convert [] m f = Inr (r, out, f')"
    "shows_state out ((sl_state f)\<lparr>lo_x := 1, lo_y := 2, lo_theta := 3\<rparr>)"
    using camera_position_reaches_path [OF p(2) f(2), of 1 2 3 "[]"] by blast
  moreover from this(3) have "load_word out 22 = Inr (2 :: u32)" by (simp add: shows_state_def)
  ultimately show ?thesis using f(1) p(1) by blast
qed

end
