(* ===== verification/Logging.thy ===== *)
theory Logging
  imports Prelude
begin

text \<open>
  Model of the logger in \<^verbatim>\<open>include/scpp/common.h\<close>, through which every component reports:
  its settings \<^verbatim>\<open>L\<close>, the setters, and \<^verbatim>\<open>log_log\<close> with the copy of the source file's name into
  its 20-byte buffer.  A string literal is its characters without the terminating null.  The
  formatted message and the two time stamps are parameters: \<^verbatim>\<open>vfprintf\<close> and \<^verbatim>\<open>strftime\<close> make
  them.  What is printed is the list of events of a call.
\<close>

section \<open>Levels\<close>

text \<open>The enumeration; the callers pass its constants for the \<^verbatim>\<open>int\<close> parameters.\<close>

datatype log_level = LLOG_TRACE | LLOG_DEBUG | LLOG_INFO | LLOG_WARN | LLOG_ERROR | LLOG_FATAL

fun level_code :: "log_level \<Rightarrow> nat" where
  "level_code LLOG_TRACE = 0"
| "level_code LLOG_DEBUG = 1"
| "level_code LLOG_INFO = 2"
| "level_code LLOG_WARN = 3"
| "level_code LLOG_ERROR = 4"
| "level_code LLOG_FATAL = 5"

lemma level_code_inject [simp]: "level_code a = level_code b \<longleftrightarrow> a = b"
  by (cases a; cases b) simp_all

instantiation log_level :: linorder
begin

definition less_eq_log_level :: "log_level \<Rightarrow> log_level \<Rightarrow> bool" where
  "less_eq_log_level a b \<longleftrightarrow> level_code a \<le> level_code b"

definition less_log_level :: "log_level \<Rightarrow> log_level \<Rightarrow> bool" where
  "less_log_level a b \<longleftrightarrow> level_code a < level_code b"

instance
  by standard (auto simp: less_eq_log_level_def less_log_level_def)

end

fun level_names :: "log_level \<Rightarrow> string" where
  "level_names LLOG_TRACE = ''TRACE''"
| "level_names LLOG_DEBUG = ''DEBUG''"
| "level_names LLOG_INFO = ''INFO''"
| "level_names LLOG_WARN = ''WARN''"
| "level_names LLOG_ERROR = ''ERROR''"
| "level_names LLOG_FATAL = ''FATAL''"

section \<open>State\<close>

text \<open>
  \<^verbatim>\<open>L\<close>: the pointer handed to the lock function, the function (\<open>None\<close> is the null pointer; a
  function is named by its address), whether a file is set, the level and the quiet flag.  It
  is static, so it starts as zeros.
\<close>

record logger =
  lg_udata :: nat
  lg_lock :: "nat option"
  lg_fp :: bool
  lg_level :: log_level
  lg_quiet :: bool

definition logger_init :: logger where
  "logger_init = \<lparr>lg_udata = 0, lg_lock = None, lg_fp = False, lg_level = LLOG_TRACE, lg_quiet = False\<rparr>"

definition log_set_udata :: "nat \<Rightarrow> logger \<Rightarrow> logger" where
  "log_set_udata udata L = L\<lparr>lg_udata := udata\<rparr>"

definition log_set_lock :: "nat option \<Rightarrow> logger \<Rightarrow> logger" where
  "log_set_lock fn L = L\<lparr>lg_lock := fn\<rparr>"

definition log_set_fp :: "bool \<Rightarrow> logger \<Rightarrow> logger" where
  "log_set_fp fp L = L\<lparr>lg_fp := fp\<rparr>"

definition log_set_level :: "log_level \<Rightarrow> logger \<Rightarrow> logger" where
  "log_set_level level L = L\<lparr>lg_level := level\<rparr>"

definition log_set_quiet :: "bool \<Rightarrow> logger \<Rightarrow> logger" where
  "log_set_quiet enable L = L\<lparr>lg_quiet := enable\<rparr>"

section \<open>The name of the source file\<close>

text \<open>
  The loop \<^verbatim>\<open>for (i = index; num_slashes < num_backwards && i >= 0; --i)\<close> with
  \<^verbatim>\<open>num_backwards\<close> one: \<open>n\<close> is \<open>i + 1\<close>, so \<open>0\<close> is an index below the string.  The value
  returned is \<open>copy_index + 1\<close>.
\<close>

fun slash_loop :: "string \<Rightarrow> nat \<Rightarrow> nat \<Rightarrow> nat" where
  "slash_loop file num_slashes 0 = 0"
| "slash_loop file num_slashes (Suc i) =
     (if num_slashes < 1
      then slash_loop file (if file ! i = CHR ''/'' then num_slashes + 1 else num_slashes) i
      else Suc i)"

text \<open>
  \<^verbatim>\<open>memcpy(file, &file_[copy_index + 1], index - copy_index)\<close> and the null after it.  The buffer
  has 20 bytes; what is copied starts at the character before the one the loop stopped after.
\<close>

definition file_buffer :: "string \<Rightarrow> string res" where
  "file_buffer file =
     (let from = slash_loop file 0 (length file);
          n = length file - from
      in if n < 20 then Inr (take n (drop from file)) else Inl Out_Of_Bounds)"

section \<open>A call\<close>

text \<open>A call of the lock function says which one, its pointer and whether it locks.\<close>

datatype log_event = Lock_Call nat nat bool | To_Stderr string | To_File string

definition log_lock :: "logger \<Rightarrow> log_event list" where
  "log_lock L = (case lg_lock L of None \<Rightarrow> [] | Some fn \<Rightarrow> [Lock_Call fn (lg_udata L) True])"

definition log_unlock :: "logger \<Rightarrow> log_event list" where
  "log_unlock L = (case lg_lock L of None \<Rightarrow> [] | Some fn \<Rightarrow> [Lock_Call fn (lg_udata L) False])"

text \<open>\<^verbatim>\<open>%-5s\<close> pads on the right to five characters.\<close>

definition padded :: "string \<Rightarrow> string" where
  "padded name = name @ replicate (5 - length name) CHR '' ''"

definition log_line :: "string \<Rightarrow> log_level \<Rightarrow> string \<Rightarrow> nat \<Rightarrow> string \<Rightarrow> string" where
  "log_line stamp level file line msg =
     stamp @ '' '' @ padded (level_names level) @ '' '' @ file @ '':'' @ digits line @ '': '' @
     msg @ [CHR 0x0A]"

definition log_log :: "string \<Rightarrow> string \<Rightarrow> logger \<Rightarrow> log_level \<Rightarrow> string \<Rightarrow> nat \<Rightarrow> string \<Rightarrow>
    log_event list res" where
  "log_log time_stamp date_stamp L level file line msg =
     bindR (file_buffer file) (\<lambda>name.
       if level < lg_level L then Inr []
       else Inr (log_lock L @
         (if lg_quiet L then [] else [To_Stderr (log_line time_stamp level name line msg)]) @
         (if lg_fp L then [To_File (log_line date_stamp level name line msg)] else []) @
         log_unlock L))"

section \<open>Properties\<close>

text \<open>The part of a path after its last slash, and whether there is a slash.\<close>

definition base_name :: "string \<Rightarrow> string" where
  "base_name path = rev (takeWhile (\<lambda>c. c \<noteq> CHR ''/'') (rev path))"

lemma slash_loop_prefix:
  "n \<le> length xs \<Longrightarrow> slash_loop (xs @ ys) k n = slash_loop xs k n"
  by (induction n arbitrary: k) (auto simp: nth_append)

lemma slash_loop_found: "slash_loop path 1 n = n"
  by (cases n) auto

lemma slash_loop_base:
  "slash_loop path 0 (length path) =
    length path - length (base_name path) - (if CHR ''/'' \<in> set path then 1 else 0)"
proof (induction path rule: rev_induct)
  case Nil
  then show ?case by (simp add: base_name_def)
next
  case (snoc c cs)
  show ?case
  proof (cases "c = CHR ''/''")
    case True
    then show ?thesis by (simp add: base_name_def slash_loop_found [simplified])
  next
    case False
    have "slash_loop (cs @ [c]) 0 (length (cs @ [c])) = slash_loop cs 0 (length cs)"
      using False by (simp add: slash_loop_prefix)
    with False show ?thesis by (simp add: snoc base_name_def)
  qed
qed

lemma path_split: "path = dir @ CHR ''/'' # base \<Longrightarrow> CHR ''/'' \<notin> set base \<Longrightarrow> base_name path = base"
  by (auto simp: base_name_def takeWhile_append)

lemma file_buffer_path:
  assumes "path = dir @ CHR ''/'' # base" and "CHR ''/'' \<notin> set base"
  shows "file_buffer path =
    (if length base < 19 then Inr (CHR ''/'' # base) else Inl Out_Of_Bounds)"
proof -
  have "slash_loop path 0 (length path) = length dir"
    unfolding slash_loop_base path_split [OF assms] by (simp add: assms(1))
  then show ?thesis unfolding file_buffer_def by (simp add: assms(1))
qed

text \<open>
  The sources that log, by the name \<^verbatim>\<open>__FILE__\<close> ends in (the build compiles them by absolute
  path), and those of them whose name does not fit.
\<close>

definition logging_sources :: "string list" where
  "logging_sources =
     [''KermitKernel.cpp'', ''KermitNetworkInterface.cpp'', ''RMTControlClient.cpp'',
      ''ZMQControlClient.cpp'', ''NetworkPatterns.cpp'', ''PipeInterface.cpp'',
      ''ProxyInterface.cpp'', ''AprilDetector.cpp'', ''ControlClientInterface.hpp'']"

definition source_fits :: "string \<Rightarrow> bool" where
  "source_fits base \<longleftrightarrow> length base < 19 \<and> CHR ''/'' \<notin> set base"

lemma logging_sources_fit:
  "List.filter source_fits logging_sources =
    [''KermitKernel.cpp'', ''PipeInterface.cpp'', ''ProxyInterface.cpp'', ''AprilDetector.cpp'']"
  by (simp add: logging_sources_def source_fits_def)

text \<open>
  Every call of the logger first copies the last part of the source's path, with its
  slash, into a buffer of twenty bytes, whatever the level.  For a source of any directory
  whose name has at most eighteen characters, the call prints nothing below the level set,
  and otherwise one line per open output, between the lock function's two calls with the
  pointer set for it; a longer name
  overruns the buffer even when the message would have been dropped.  Of the sources that
  log, only \<^verbatim>\<open>KermitKernel.cpp\<close>, \<^verbatim>\<open>PipeInterface.cpp\<close>, \<^verbatim>\<open>ProxyInterface.cpp\<close> and
  \<^verbatim>\<open>AprilDetector.cpp\<close> fit.
\<close>

theorem log_log_result:
  assumes "CHR ''/'' \<notin> set base"
  shows "log_log time_stamp date_stamp L level (dir @ CHR ''/'' # base) line msg =
    (if \<not> source_fits base then Inl Out_Of_Bounds
     else if level < lg_level L then Inr []
     else
       let locked = (\<lambda>e. case lg_lock L of None \<Rightarrow> [] | Some fn \<Rightarrow> [Lock_Call fn (lg_udata L) e]);
           name = CHR ''/'' # base
       in Inr (locked True @
         (if lg_quiet L then [] else [To_Stderr (log_line time_stamp level name line msg)]) @
         (if lg_fp L then [To_File (log_line date_stamp level name line msg)] else []) @
         locked False))"
  using file_buffer_path [OF refl assms, of dir] assms
  by (simp add: log_log_def source_fits_def log_lock_def log_unlock_def Let_def)

lemma log_log_result_witness:
  "log_log ''12:00:00'' ''2020-01-02 12:00:00'' (log_set_level LLOG_WARN logger_init) LLOG_INFO
      ''/core/src/control/ZMQControlClient.cpp'' 42 ''sent'' = Inl Out_Of_Bounds"
  using log_log_result [of "''ZMQControlClient.cpp''" "''12:00:00''" "''2020-01-02 12:00:00''"
      "log_set_level LLOG_WARN logger_init" LLOG_INFO "''/core/src/control''" 42 "''sent''"]
  by (simp add: source_fits_def)

end
