(* ===== verification/Zmq_Helpers.thy ===== *)
theory Zmq_Helpers
  imports Prelude "HOL-Library.Signed_Division"
begin

text \<open>
  Model of \<^verbatim>\<open>control/zhelpers.hpp\<close>, the helpers through which every socket of the program sends
  and receives: strings as frames, the dump of a message, random identities, clocks and
  sleeping, the signal flag.  A socket is the frames that were delivered to it, those it
  handed to ZeroMQ, the \<^verbatim>\<open>ZMQ_RCVMORE\<close> option and its identity.  What ZeroMQ makes of the
  frames handed to it is a parameter.  The branches for Windows and MSVC are left out.
\<close>

section \<open>Sockets\<close>

type_synonym frame = "bytes \<times> bool"

record socket =
  so_in :: "frame list"
  so_more :: bool
  so_out :: "frame list"
  so_identity :: string

text \<open>\<^verbatim>\<open>s_recv\<close>; \<open>None\<close> is a call that blocks.\<close>

definition s_recv :: "socket \<Rightarrow> (bytes \<times> socket) option" where
  "s_recv sock =
     (case so_in sock of
        [] \<Rightarrow> None
      | (message, rcvmore) # frames \<Rightarrow> Some (message, sock\<lparr>so_in := frames, so_more := rcvmore\<rparr>))"

text \<open>\<^verbatim>\<open>s_send\<close> and \<^verbatim>\<open>s_sendmore\<close>; \<open>rc\<close> is what \<^verbatim>\<open>send\<close> answers, a refused frame is not sent.\<close>

definition s_send :: "bool \<Rightarrow> bytes \<Rightarrow> socket \<Rightarrow> bool \<times> socket" where
  "s_send rc str sock = (rc, if rc then sock\<lparr>so_out := so_out sock @ [(str, False)]\<rparr> else sock)"

definition s_sendmore :: "bool \<Rightarrow> bytes \<Rightarrow> socket \<Rightarrow> bool \<times> socket" where
  "s_sendmore rc str sock = (rc, if rc then sock\<lparr>so_out := so_out sock @ [(str, True)]\<rparr> else sock)"

section \<open>The dump\<close>

definition hex_char :: "bool \<Rightarrow> nat \<Rightarrow> char" where
  "hex_char upper d = (if d < 10 then char_of (48 + d) else char_of ((if upper then 55 else 87) + d))"

fun hex_digits :: "bool \<Rightarrow> nat \<Rightarrow> string" where
  "hex_digits upper n =
     (if n < 16 then [hex_char upper n] else hex_digits upper (n div 16) @ [hex_char upper (n mod 16)])"

declare hex_digits.simps [simp del]

text \<open>\<^verbatim>\<open>setfill('0') << setw(n)\<close>: zeros up to the width, never a cut.\<close>

definition padded :: "nat \<Rightarrow> string \<Rightarrow> string" where
  "padded n s = replicate (n - length s) CHR ''0'' @ s"

definition printable :: "bytes \<Rightarrow> bool" where
  "printable data = (\<forall>b \<in> set data. \<not> (b < 32 \<or> b > 127))"

text \<open>
  \<^verbatim>\<open>(unsigned int)data[char_nbr]\<close>: where \<^verbatim>\<open>char\<close> is signed, a byte above 127 is extended with
  its sign.
\<close>

definition char_value :: "bool \<Rightarrow> u8 \<Rightarrow> u32" where
  "char_value char_signed b = (if char_signed then scast b else ucast b)"

text \<open>
  One part.  \<^verbatim>\<open>std::hex\<close> stays set in the stream once a byte was printed with it, and decides
  how the next size is printed; the flag goes in and comes out.
\<close>

definition dump_part :: "bool \<Rightarrow> bool \<Rightarrow> bytes \<Rightarrow> string \<times> bool" where
  "dump_part char_signed hex data =
     (let is_text = printable data;
          size_text = ''['' @ padded 3 (if hex then hex_digits False (length data) else digits (length data)) @ '']'';
          body = (if is_text then map (\<lambda>b. char_of (unat b)) data
            else concat (map (\<lambda>b. padded 2 (hex_digits False (unat (char_value char_signed b)))) data))
      in (size_text @ body @ [CHR 0x0A], hex \<or> \<not> is_text))"

fun dump_loop :: "bool \<Rightarrow> bool \<Rightarrow> frame list \<Rightarrow> (string \<times> bool \<times> bool \<times> frame list) option" where
  "dump_loop char_signed hex [] = None"
| "dump_loop char_signed hex ((data, rcvmore) # frames) =
     (let (text, hex) = dump_part char_signed hex data
      in if \<not> rcvmore then Some (text, hex, rcvmore, frames)
         else (case dump_loop char_signed hex frames of
             None \<Rightarrow> None
           | Some (rest, hex, rcvmore, frames) \<Rightarrow> Some (text @ rest, hex, rcvmore, frames)))"

definition dump_rule :: string where
  "dump_rule = replicate 40 CHR ''-'' @ [CHR 0x0A]"

definition s_dump :: "bool \<Rightarrow> bool \<Rightarrow> socket \<Rightarrow> (string \<times> bool \<times> socket) option" where
  "s_dump char_signed hex sock =
     (case dump_loop char_signed hex (so_in sock) of
        None \<Rightarrow> None
      | Some (text, hex, rcvmore, frames) \<Rightarrow>
          Some (dump_rule @ text, hex, sock\<lparr>so_in := frames, so_more := rcvmore\<rparr>))"

section \<open>Random identities\<close>

text \<open>
  An integer as a \<^verbatim>\<open>float\<close>: 24 significant bits, rounded to the nearest, ties to even.
\<close>

fun bit_length :: "nat \<Rightarrow> nat" where
  "bit_length n = (if n = 0 then 0 else bit_length (n div 2) + 1)"

declare bit_length.simps [simp del]

definition to_float :: "nat \<Rightarrow> nat" where
  "to_float n =
     (let e = bit_length n - 24; q = n div 2 ^ e; r = n mod 2 ^ e
      in if 2 * r < 2 ^ e \<or> (2 * r = 2 ^ e \<and> even q) then q * 2 ^ e else (q + 1) * 2 ^ e)"

definition RAND_MAX :: nat where "RAND_MAX = 2147483647"

text \<open>
  \<^verbatim>\<open>within\<close>: the product is a \<^verbatim>\<open>float\<close>, the division by a power of two is exact in \<^verbatim>\<open>double\<close>;
  \<open>r\<close> is what \<^verbatim>\<open>random()\<close> answers.
\<close>

definition within :: "nat \<Rightarrow> nat \<Rightarrow> nat" where
  "within num r = to_float (to_float num * to_float r) div (RAND_MAX + 1)"

text \<open>\<open>r1\<close> and \<open>r2\<close> are the numbers the two calls get, in the order of the text.\<close>

definition s_set_id :: "nat \<Rightarrow> nat \<Rightarrow> socket \<Rightarrow> string \<times> socket" where
  "s_set_id r1 r2 sock =
     (let ss = padded 4 (hex_digits True (within 0x10000 r1)) @ ''-'' @
          padded 4 (hex_digits True (within 0x10000 r2))
      in (ss, sock\<lparr>so_identity := ss\<rparr>))"

section \<open>Versions, clocks, sleeping\<close>

text \<open>\<^verbatim>\<open>s_version_assert\<close>: whether the program goes on.\<close>

definition s_version_assert :: "int \<times> int \<Rightarrow> int \<Rightarrow> int \<Rightarrow> bool" where
  "s_version_assert version want_major want_minor =
     (case version of (major, minor) \<Rightarrow>
        \<not> (major < want_major \<or> (major = want_major \<and> minor < want_minor)))"

definition s_version :: "int \<times> int \<times> int \<Rightarrow> string" where
  "s_version version =
     (case version of (major, minor, patch) \<Rightarrow>
        ''Current 0MQ version is '' @ digits (nat major) @ ''.'' @ digits (nat minor) @ ''.'' @
          digits (nat patch) @ [CHR 0x0A])"

text \<open>\<^verbatim>\<open>s_clock\<close>, of the seconds and microseconds of \<^verbatim>\<open>gettimeofday\<close>.\<close>

definition s_clock :: "int \<times> int \<Rightarrow> int" where
  "s_clock tv = (case tv of (tv_sec, tv_usec) \<Rightarrow> tv_sec * 1000 + tv_usec sdiv 1000)"

text \<open>\<^verbatim>\<open>s_sleep\<close>: the seconds and nanoseconds handed to \<^verbatim>\<open>nanosleep\<close>.\<close>

definition s_sleep :: "int \<Rightarrow> int \<times> int" where
  "s_sleep msecs = (msecs sdiv 1000, (msecs smod 1000) * 1000000)"

text \<open>
  \<^verbatim>\<open>s_console\<close>: the stamp \<^verbatim>\<open>strftime\<close> puts into a buffer of 20 bytes, of the two-digit numbers
  of year, month, day, hour, minute and second; it is left undefined when it does not fit.
\<close>

definition console_stamp :: "nat list \<Rightarrow> string" where
  "console_stamp numbers =
     concat (map2 (\<lambda>n sep. padded 2 (digits n) @ [sep]) numbers
       [CHR ''-'', CHR ''-'', CHR '' '', CHR '':'', CHR '':'', CHR '' ''])"

definition s_console :: "nat list \<Rightarrow> string \<Rightarrow> string res" where
  "s_console numbers message =
     (if length (console_stamp numbers) + 1 \<le> 20
      then Inr (console_stamp numbers @ message @ [CHR 0x0A]) else Inl Uninitialised)"

section \<open>Signals\<close>

datatype signal = SIGINT | SIGTERM

record process =
  pr_interrupted :: int
  pr_caught :: "signal set"

definition s_signal_handler :: "process \<Rightarrow> process" where
  "s_signal_handler p = p\<lparr>pr_interrupted := 1\<rparr>"

definition s_catch_signals :: "process \<Rightarrow> process" where
  "s_catch_signals p = p\<lparr>pr_caught := insert SIGTERM (insert SIGINT (pr_caught p))\<rparr>"

text \<open>Either signal ends a process that did not catch it.\<close>

definition receive_signal :: "signal \<Rightarrow> process \<Rightarrow> process option" where
  "receive_signal sig p = (if sig \<in> pr_caught p then Some (s_signal_handler p) else None)"

section \<open>Topics and messages\<close>

text \<open>A publisher's sends, a topic and a message at a time, and a subscriber's receives.\<close>

fun publish_all :: "(bytes \<times> bytes) list \<Rightarrow> socket \<Rightarrow> socket" where
  "publish_all [] sock = sock"
| "publish_all ((topic, data) # ms) sock =
     publish_all ms (snd (s_send True data (snd (s_sendmore True topic sock))))"

fun receive_all :: "nat \<Rightarrow> socket \<Rightarrow> ((bytes \<times> bytes) list \<times> socket) option" where
  "receive_all 0 sock = Some ([], sock)"
| "receive_all (Suc n) sock =
     Option.bind (s_recv sock) (\<lambda>(topic, sock).
     Option.bind (s_recv sock) (\<lambda>(data, sock).
     Option.bind (receive_all n sock) (\<lambda>(ms, sock). Some ((topic, data) # ms, sock))))"

abbreviation pair_frames :: "(bytes \<times> bytes) list \<Rightarrow> frame list" where
  "pair_frames ms \<equiv> concat (map (\<lambda>(topic, data). [(topic, True), (data, False)]) ms)"

lemma publish_all_out: "publish_all ms sock = sock\<lparr>so_out := so_out sock @ pair_frames ms\<rparr>"
  by (induction ms arbitrary: sock) (auto simp: s_send_def s_sendmore_def)

lemma receive_all_pairs:
  "so_in sock = pair_frames ms @ rest \<Longrightarrow>
    \<exists>sock'. receive_all (length ms) sock = Some (ms, sock') \<and> so_in sock' = rest"
proof (induction ms arbitrary: sock)
  case (Cons m ms)
  obtain topic data where m: "m = (topic, data)" by (cases m)
  let ?s = "sock\<lparr>so_in := pair_frames ms @ rest, so_more := False\<rparr>"
  obtain sock' where "receive_all (length ms) ?s = Some (ms, sock')" "so_in sock' = rest"
    using Cons.IH [of ?s] by auto
  then show ?case using Cons.prems m by (simp add: s_recv_def)
qed simp

text \<open>Frames that end with a message, frames of a message without its end.\<close>

definition whole_frames :: "frame list \<Rightarrow> bool" where
  "whole_frames fs \<longleftrightarrow> fs = [] \<or> \<not> snd (last fs)"

definition unfinished :: "frame list \<Rightarrow> bool" where
  "unfinished fs \<longleftrightarrow> list_all snd fs"

lemma whole_pair_frames: "whole_frames (pair_frames ms)"
  by (induction ms rule: rev_induct) (auto simp: whole_frames_def)

text \<open>
  Topics and messages, sent in turn with \<^verbatim>\<open>s_sendmore\<close> and \<^verbatim>\<open>s_send\<close>, over a network that
  delivers whole messages in order, loses none and holds back an unfinished one: two calls of \<^verbatim>\<open>s_recv\<close> for
  each read them back, in order and in step, after what was waiting before; a topic whose
  message was not sent yet changes nothing for the receiver.
\<close>

theorem published_pairs_received:
  assumes "\<And>fs part. whole_frames fs \<Longrightarrow> unfinished part \<Longrightarrow> net (fs @ part) = fs"
    and "so_out a = []" and "so_in b = pair_frames ms0"
  shows "(\<exists>b'. receive_all (length ms0 + length ms) (b\<lparr>so_in := so_in b @ net (so_out (publish_all ms a))\<rparr>) =
        Some (ms0 @ ms, b') \<and> so_in b' = []) \<and>
    net (so_out (snd (s_sendmore True topic (publish_all ms a)))) = net (so_out (publish_all ms a))"
proof
  have whole: "net (pair_frames ms) = pair_frames ms"
    using assms(1) [OF whole_pair_frames, of "[]" ms] by (simp add: unfinished_def)
  let ?b = "b\<lparr>so_in := so_in b @ net (so_out (publish_all ms a))\<rparr>"
  have "so_in ?b = pair_frames (ms0 @ ms) @ []"
    using assms(2,3) by (simp add: publish_all_out whole)
  from receive_all_pairs [OF this]
  show "\<exists>b'. receive_all (length ms0 + length ms) ?b = Some (ms0 @ ms, b') \<and> so_in b' = []" by simp
  show "net (so_out (snd (s_sendmore True topic (publish_all ms a)))) = net (so_out (publish_all ms a))"
    using assms(1) [OF whole_pair_frames, of "[(topic, True)]" ms] assms(2)
    by (simp add: publish_all_out s_sendmore_def whole unfinished_def)
qed

definition fresh_socket :: socket where
  "fresh_socket = \<lparr>so_in = [], so_more = False, so_out = [], so_identity = []\<rparr>"

text \<open>A network of that kind: it drops the flagged frames at the end.\<close>

lemma drop_unfinished: "whole_frames fs \<Longrightarrow> unfinished part \<Longrightarrow> rev (dropWhile snd (rev (fs @ part))) = fs"
proof -
  assume "whole_frames fs" "unfinished part"
  then have "dropWhile snd (rev part @ rev fs) = rev fs"
    by (subst dropWhile_append2)
      (auto simp: whole_frames_def unfinished_def list_all_iff dropWhile_eq_self_iff hd_rev)
  then show ?thesis by simp
qed

lemma published_pairs_received_witness:
  "\<exists>b'. receive_all 2 (fresh_socket\<lparr>so_in := so_in fresh_socket @
      rev (dropWhile snd (rev (so_out (publish_all [([1], [2, 3]), ([1], [])] fresh_socket))))\<rparr>) =
    Some ([([1], [2, 3]), ([1], [])], b')"
proof -
  have empty: "so_out fresh_socket = []" "so_in fresh_socket = pair_frames []" by (simp_all add: fresh_socket_def)
  have two: "length [] + length [([1 :: u8], [2, 3 :: u8]), ([1], [])] = 2" by simp
  from published_pairs_received [where net = "\<lambda>fs. rev (dropWhile snd (rev fs))", OF drop_unfinished empty,
      of "[([1], [2, 3]), ([1], [])]", THEN conjunct1]
  show ?thesis unfolding two append_Nil by blast
qed

section \<open>What the dump prints\<close>

text \<open>The frames of a message of several parts.\<close>

fun message_frames :: "bytes list \<Rightarrow> frame list" where
  "message_frames [] = []"
| "message_frames [m] = [(m, False)]"
| "message_frames (m # ms) = (m, True) # message_frames ms"

lemma dump_part_hex: "snd (dump_part sg hex m) \<longleftrightarrow> hex \<or> \<not> printable m"
  by (simp add: dump_part_def Let_def)

lemma dump_loop_message:
  "ms \<noteq> [] \<Longrightarrow> dump_loop sg hex (message_frames ms @ rest) =
    Some (concat (map (\<lambda>i. fst (dump_part sg (hex \<or> (\<exists>m \<in> set (take i ms). \<not> printable m)) (ms ! i))) [0..<length ms]),
      hex \<or> (\<exists>m \<in> set ms. \<not> printable m), False, rest)"
proof (induction ms arbitrary: hex rule: message_frames.induct)
  case (2 m)
  show ?case using dump_part_hex [of sg hex m] by (auto split: prod.split)
next
  case (3 m m' ms)
  have shift: "[0..<length (m # m' # ms)] = 0 # map Suc [0..<length (m' # ms)]"
    by (simp add: upt_conv_Cons map_Suc_upt del: upt_Suc)
  obtain t h where d: "dump_part sg hex m = (t, h)" by fastforce
  have h: "h \<longleftrightarrow> hex \<or> \<not> printable m" using dump_part_hex [of sg hex m] d by simp
  show ?case
    unfolding shift
    by (simp add: d 3 h comp_def disj_assoc del: upt_Suc)
qed simp

text \<open>
  The dump of a message of any number of parts reads these parts and nothing of the next
  message, and prints a line for each, in order.  A part is printed in characters when all of
  it is printable, in hexadecimal otherwise; its size is printed in decimal only as long as no
  part before it was binary.
\<close>

theorem s_dump_message:
  assumes "ms \<noteq> []" and "so_in sock = message_frames ms @ rest"
  shows "s_dump sg hex sock =
    Some (dump_rule @ concat (map (\<lambda>i.
        fst (dump_part sg (hex \<or> (\<exists>m \<in> set (take i ms). \<not> printable m)) (ms ! i))) [0..<length ms]),
      hex \<or> (\<exists>m \<in> set ms. \<not> printable m), sock\<lparr>so_in := rest, so_more := False\<rparr>)"
  using assms by (simp add: s_dump_def dump_loop_message)

text \<open>Ten characters after a byte that is not printable: the size reads \<^verbatim>\<open>00a\<close>.\<close>

lemma s_dump_message_witness:
  "s_dump False False (fresh_socket\<lparr>so_in := [([7], True), (replicate 10 65, False), ([1], False)]\<rparr>) =
    Some (dump_rule @ ''[001]07'' @ [CHR 0x0A] @ ''[00a]AAAAAAAAAA'' @ [CHR 0x0A], True,
      fresh_socket\<lparr>so_in := [([1], False)]\<rparr>)"
proof -
  have parts: "dump_part False False [7] = (''[001]07'' @ [CHR 0x0A], True)"
    "dump_part False True (replicate 10 65) = (''[00a]AAAAAAAAAA'' @ [CHR 0x0A], True)"
    "printable [7] = False" "printable (replicate 10 65) = True"
    by code_simp+
  show ?thesis
    using s_dump_message [of "[[7], replicate 10 65]"
        "fresh_socket\<lparr>so_in := [([7], True), (replicate 10 65, False), ([1], False)]\<rparr>" "[([1], False)]" False False]
    by (simp add: parts fresh_socket_def del: replicate.simps)
qed

section \<open>Bytes in hexadecimal\<close>

definition hex_value :: "char \<Rightarrow> nat" where
  "hex_value c = (if (of_char c :: nat) < 58 then of_char c - 48 else of_char c - 87)"

fun unhex :: "string \<Rightarrow> bytes" where
  "unhex (c # d # cs) = of_nat (16 * hex_value c + hex_value d) # unhex cs"
| "unhex _ = []"

lemma hex_value_char: "d < 16 \<Longrightarrow> hex_value (hex_char False d) = d"
  by (simp add: hex_value_def hex_char_def)

lemma zero_char: "CHR ''0'' = (char_of (48 :: nat))"
  by code_simp

lemma padded_byte: "n < 256 \<Longrightarrow> padded 2 (hex_digits False n) = [hex_char False (n div 16), hex_char False (n mod 16)]"
  by (auto simp: padded_def hex_digits.simps [of False n] hex_digits.simps [of False "n div 16"]
      hex_char_def less_mult_imp_div_less zero_char)

lemma unat_byte: "unat (b :: u8) < 256"
proof -
  have "unat b < 2 ^ LENGTH(8)" by (rule unsigned_less)
  then show ?thesis by simp
qed

lemma char_value_low: "\<not> sg \<or> b \<le> 127 \<Longrightarrow> unat (char_value sg b) = unat b"
proof -
  have u: "unat (ucast b :: u32) = unat b"
    using unat_byte [of b] by (simp add: unsigned_ucast_eq take_bit_nat_eq_self_iff)
  have "scast b = (ucast b :: u32)" if "b \<le> 127"
  proof -
    have "0 \<le> uint b" "uint b \<le> 127" using that by (simp_all add: word_le_def)
    then have "- 128 \<le> uint b" by linarith
    with \<open>uint b \<le> 127\<close> have "sint b = uint b"
      using signed_take_bit_int_eq_self [of 7 "uint b"] by (simp add: sint_uint del: uint_ge_0)
    then show ?thesis by (metis word_of_int_uint of_int_sint of_int_uint)
  qed
  then show "\<not> sg \<or> b \<le> 127 \<Longrightarrow> unat (char_value sg b) = unat b" using u by (auto simp: char_value_def)
qed

lemma char_value_high:
  assumes "b > 127"
  shows "unat (char_value True b) = 4294967040 + unat b"
proof -
  have "uint b = int (unat b)" by simp
  moreover have "127 < unat b" using assms by (simp add: word_less_nat_alt)
  ultimately have b: "128 \<le> uint b" "uint b < 256" using unat_byte [of b] by linarith+
  have "uint b div 128 = 1" using b by (subst int_div_pos_eq [of _ _ 1 "uint b - 128"]) simp_all
  then have "bit (uint b) 7" by (simp add: bit_iff_odd)
  with b have "sint b = uint b - 256"
    by (simp add: sint_uint signed_take_bit_eq_take_bit_minus take_bit_int_eq_self)
  then have "(scast b :: u32) = word_of_int (uint b - 256)" by (metis of_int_sint)
  then have "uint (scast b :: u32) = (uint b - 256) mod 4294967296"
    by (simp only: unsigned_of_int take_bit_eq_mod) simp
  also have "\<dots> = (uint b - 256 + 4294967296) mod 4294967296" by (simp only: mod_add_self2)
  also have "\<dots> = uint b + 4294967040" using b by (subst mod_pos_pos_trivial) simp_all
  finally have "int (unat (scast b :: u32)) = int (unat b) + int 4294967040" by simp
  then have "unat (scast b :: u32) = unat b + 4294967040" by linarith
  then show ?thesis by (simp only: char_value_def if_True add.commute)
qed

lemma hex_digits_step: "0 < m \<Longrightarrow> d < 16 \<Longrightarrow> hex_digits False (16 * m + d) = hex_digits False m @ [hex_char False d]"
  by (simp add: hex_digits.simps [of False "16 * m + d"])

lemma high_byte:
  assumes "b > 127"
  shows "padded 2 (hex_digits False (unat (char_value True b))) = ''ffffff'' @ padded 2 (hex_digits False (unat b))"
proof -
  let ?k = "unat b"
  have k: "128 \<le> ?k" "?k < 256" using assms unat_byte [of b] by (simp_all add: word_less_nat_alt)
  have "hex_char False 15 = CHR ''f''" by code_simp
  then have f: "hex_digits False 16777215 = ''ffffff''"
    by (simp add: hex_digits.simps [of False 16777215] hex_digits.simps [of False 1048575]
        hex_digits.simps [of False 65535] hex_digits.simps [of False 4095] hex_digits.simps [of False 255]
        hex_digits.simps [of False 15])
  have "16 * (16 * 16777215 + ?k div 16) + ?k mod 16 = 4294967040 + ?k"
    using mult_div_mod_eq [of 16 ?k] by (simp only: distrib_left add.assoc)
  moreover have "?k div 16 < 16" using k by simp
  ultimately have "hex_digits False (4294967040 + ?k) = ''ffffff'' @ [hex_char False (?k div 16), hex_char False (?k mod 16)]"
    using hex_digits_step [of "16 * 16777215 + ?k div 16" "?k mod 16"] hex_digits_step [of 16777215 "?k div 16"]
    unfolding f by (simp add: add.commute)
  moreover have "padded 2 (''ffffff'' @ cs) = ''ffffff'' @ cs" for cs by (simp add: padded_def)
  ultimately show ?thesis using k by (simp add: char_value_high assms padded_byte)
qed

lemma unhex_byte:
  fixes b :: u8
  shows "unhex (padded 2 (hex_digits False (unat b)) @ cs) = b # unhex cs"
proof -
  have d: "unat b div 16 < 16" using unat_byte [of b] by simp
  have "of_nat (16 * (unat b div 16) + unat b mod 16) = b" by simp
  with d show ?thesis using unat_byte [of b] by (simp add: padded_byte hex_value_char del: of_nat_add)
qed

abbreviation hex_body :: "bool \<Rightarrow> bytes \<Rightarrow> string" where
  "hex_body sg data \<equiv> concat (map (\<lambda>b. padded 2 (hex_digits False (unat (char_value sg b)))) data)"

lemma length_byte: "length (padded 2 (hex_digits False (unat (b :: u8)))) = 2"
  using unat_byte [of b] by (simp add: padded_byte)

lemma length_hex_body:
  "length (hex_body sg data) = 2 * length data + (if sg then 6 * length (filter (\<lambda>b. b > 127) data) else 0)"
proof (induction data)
  case (Cons b data)
  show ?case
  proof (cases "sg \<and> b > 127")
    case True
    then show ?thesis using Cons by (simp add: high_byte length_byte)
  next
    case False
    then have "\<not> sg \<or> b \<le> 127" by auto
    then show ?thesis using Cons False by (auto simp: char_value_low length_byte)
  qed
qed simp

lemma unhex_hex_body: "\<not> sg \<or> (\<forall>b \<in> set data. b \<le> 127) \<Longrightarrow> unhex (hex_body sg data) = data"
  by (induction data) (auto simp: char_value_low unhex_byte)

text \<open>
  A binary part is printed in hexadecimal, two digits for a byte, from which the bytes can be
  read back - where \<^verbatim>\<open>char\<close> is unsigned, or no byte is above 127.  Where it is signed each byte
  above 127 takes eight digits, the first six of them \<^verbatim>\<open>f\<close>.
\<close>

theorem binary_dump:
  assumes "\<not> printable data"
  shows "\<exists>size body. fst (dump_part sg hex data) = ''['' @ size @ '']'' @ body @ [CHR 0x0A] \<and>
      size = padded 3 (if hex then hex_digits False (length data) else digits (length data)) \<and>
      length body = 2 * length data + (if sg then 6 * length (filter (\<lambda>b. b > 127) data) else 0) \<and>
      (\<not> sg \<or> (\<forall>b \<in> set data. b \<le> 127) \<longrightarrow> unhex body = data)"
proof (intro exI conjI impI)
  show "fst (dump_part sg hex data) =
      ''['' @ padded 3 (if hex then hex_digits False (length data) else digits (length data)) @ '']'' @
        hex_body sg data @ [CHR 0x0A]"
    using assms by (simp add: dump_part_def Let_def)
qed (rule refl, rule length_hex_body, erule unhex_hex_body)

lemma binary_dump_witness:
  "\<exists>size body. fst (dump_part True False [255, 0]) = ''['' @ size @ '']'' @ body @ [CHR 0x0A] \<and> length body = 10"
  using binary_dump [of "[255, 0]" True False] by (auto simp: printable_def)

section \<open>Random numbers\<close>

lemma bit_length_0 [simp]: "bit_length 0 = 0"
  by (subst bit_length.simps) simp

lemma bit_length_pos: "0 < n \<Longrightarrow> bit_length n = Suc (bit_length (n div 2))"
  by (subst bit_length.simps) simp

lemma bit_length_bounds: "n < 2 ^ bit_length n \<and> (0 < n \<longrightarrow> 2 ^ (bit_length n - 1) \<le> n)"
proof (induction n rule: bit_length.induct)
  case (1 n)
  consider "n = 0" | "n = 1" | "2 \<le> n" by linarith
  then show ?case
  proof cases
    case 2
    then show ?thesis by (simp add: bit_length_pos)
  next
    case 3
    then have "bit_length n = Suc (bit_length (n div 2))" "bit_length (n div 2) = Suc (bit_length (n div 2) - 1)"
      using bit_length_pos [of n] bit_length_pos [of "n div 2"] by simp_all
    moreover have "n div 2 < 2 ^ bit_length (n div 2)" "2 ^ (bit_length (n div 2) - 1) \<le> n div 2"
      using 1 3 by simp_all
    moreover have "(2::nat) ^ bit_length (n div 2) = 2 * 2 ^ (bit_length (n div 2) - 1)"
      using calculation(2) by (metis power_Suc)
    ultimately show ?thesis by simp linarith
  qed simp
qed

lemma bit_length_le:
  assumes "n < 2 ^ k"
  shows "bit_length n \<le> k"
proof (rule ccontr)
  assume "\<not> bit_length n \<le> k"
  then have k: "k \<le> bit_length n - 1" "0 < n" by (auto intro: gr0I)
  with bit_length_bounds [of n] have "2 ^ (bit_length n - 1) \<le> n" by simp
  moreover have "(2::nat) ^ k \<le> 2 ^ (bit_length n - 1)" using k(1) by (intro power_increasing) simp_all
  ultimately show False using assms by linarith
qed

lemma bit_length_ge:
  assumes "2 ^ k \<le> n"
  shows "k < bit_length n"
proof (rule ccontr)
  assume "\<not> k < bit_length n"
  then have "(2::nat) ^ bit_length n \<le> 2 ^ k" by (intro power_increasing) simp_all
  with bit_length_bounds [of n] assms show False by linarith
qed

text \<open>Numbers of 24 bits, with any number of zeros after them, are floats.\<close>

lemma to_float_exact:
  assumes "q \<le> 2 ^ 24"
  shows "to_float (q * 2 ^ k) = q * 2 ^ k"
proof -
  have "2 ^ (bit_length (q * 2 ^ k) - 24) dvd q * 2 ^ k"
  proof (cases "q = 2 ^ 24")
    case True
    have "q * 2 ^ k < 2 ^ (k + 25)" using True by (simp add: power_add)
    then have "bit_length (q * 2 ^ k) - 24 \<le> k + 1" using bit_length_le by fastforce
    then have "(2::nat) ^ (bit_length (q * 2 ^ k) - 24) dvd 2 ^ (k + 24)" by (intro le_imp_power_dvd) simp
    with True show ?thesis by (simp add: power_add mult.commute)
  next
    case False
    with assms have "q * 2 ^ k < 2 ^ (k + 24)" by (simp add: power_add)
    then have "bit_length (q * 2 ^ k) - 24 \<le> k" using bit_length_le by fastforce
    then show ?thesis by (meson dvd_mult le_imp_power_dvd)
  qed
  then show ?thesis by (simp add: to_float_def Let_def dvd_eq_mod_eq_0 [symmetric] dvd_div_mult_self)
qed

text \<open>The rounding of a random number: to a float between the two neighbours.\<close>

lemma to_float_random:
  assumes "r < 2 ^ (24 + j)"
  shows "\<exists>q k. to_float r = q * 2 ^ k \<and> q \<le> 2 ^ 24 \<and> k \<le> j"
proof -
  define e where "e = bit_length r - 24"
  have e: "e \<le> j" using bit_length_le [OF assms] by (simp add: e_def)
  have "(2::nat) ^ bit_length r \<le> 2 ^ (24 + e)" unfolding e_def by (intro power_increasing) simp_all
  with bit_length_bounds [of r] have "r < 2 ^ (24 + e)" by linarith
  then have q: "r div 2 ^ e < 2 ^ 24" by (simp add: less_mult_imp_div_less power_add)
  then have "r div 2 ^ e \<le> 2 ^ 24" "r div 2 ^ e + 1 \<le> 2 ^ 24" by simp_all
  moreover have "to_float r = (r div 2 ^ e) * 2 ^ e \<or> to_float r = (r div 2 ^ e + 1) * 2 ^ e"
    by (simp only: to_float_def Let_def e_def) presburger
  ultimately show ?thesis using e by blast
qed

lemma to_float_le: "r < 2 ^ (24 + j) \<Longrightarrow> to_float r \<le> 2 ^ (24 + j)"
proof -
  assume "r < 2 ^ (24 + j)"
  then obtain q k where "to_float r = q * 2 ^ k" "q \<le> 2 ^ 24" "k \<le> j" using to_float_random by blast
  moreover from this have "q * 2 ^ k \<le> 2 ^ 24 * (2 ^ j :: nat)"
    by (intro mult_le_mono power_increasing) simp_all
  ultimately show ?thesis by (simp add: power_add)
qed

lemma to_float_high:
  assumes "2 ^ 30 \<le> r" and "r < 2 ^ 31"
  shows "to_float r = 2 ^ 31 \<longleftrightarrow> 2 ^ 31 - 64 \<le> r"
proof -
  have "bit_length r = 31" using bit_length_le [OF assms(2)] bit_length_ge [OF assms(1)] by simp
  then have f: "to_float r =
      (if 2 * (r mod 128) < 128 \<or> (2 * (r mod 128) = 128 \<and> even (r div 128)) then r div 128 * 128 else (r div 128 + 1) * 128)"
    by (simp add: to_float_def Let_def)
  define q where "q = r div 128"
  define t where "t = r mod 128"
  have r: "r = 128 * q + t" "t < 128" by (simp_all add: q_def t_def)
  show ?thesis
  proof (cases "q = 16777215")
    case True
    then show ?thesis using r unfolding f q_def [symmetric] t_def [symmetric] by auto
  next
    case False
    then have "q < 16777215" using assms(2) r by simp
    then show ?thesis using r unfolding f q_def [symmetric] t_def [symmetric] by auto
  qed
qed

lemma within_id:
  assumes "r \<le> RAND_MAX"
  shows "within 0x10000 r = to_float r div 2 ^ 15"
proof -
  have "r < 2 ^ (24 + 7)" using assms by (simp add: RAND_MAX_def)
  then obtain q k where q: "to_float r = q * 2 ^ k" "q \<le> 2 ^ 24" using to_float_random by blast
  have n: "to_float 0x10000 = 2 ^ 16" using to_float_exact [of 1 16] by simp
  have "to_float (to_float 0x10000 * to_float r) = 2 ^ 16 * to_float r"
    using to_float_exact [OF q(2), of "16 + k"] by (simp add: n q(1) power_add mult_ac)
  moreover have "RAND_MAX + 1 = 2 ^ 16 * 2 ^ 15" by (simp add: RAND_MAX_def)
  ultimately show ?thesis unfolding within_def by (simp only: div_mult_mult1_if) simp
qed

text \<open>
  C39: \<^verbatim>\<open>within(num)\<close> is said to lie in \<^verbatim>\<open>0..(num-1)\<close>; for the \<^verbatim>\<open>0x10000\<close> of the identities it is
  \<^verbatim>\<open>num\<close> itself exactly for the 64 largest numbers \<^verbatim>\<open>random()\<close> answers, which the \<^verbatim>\<open>float\<close>
  rounds up.  So an identity has nine characters, unless it gets one of these.
\<close>

theorem random_identity:
  assumes "r1 \<le> RAND_MAX" and "r2 \<le> RAND_MAX"
  shows "within 0x10000 r1 \<le> 0x10000 \<and> (within 0x10000 r1 = 0x10000 \<longleftrightarrow> RAND_MAX - 63 \<le> r1) \<and>
    length (so_identity (snd (s_set_id r1 r2 sock))) =
      9 + (if RAND_MAX - 63 \<le> r1 then 1 else 0) + (if RAND_MAX - 63 \<le> r2 then 1 else 0)"
proof -
  have w: "within 0x10000 r \<le> 0x10000 \<and> (within 0x10000 r = 0x10000 \<longleftrightarrow> RAND_MAX - 63 \<le> r)" if "r \<le> RAND_MAX" for r
  proof -
    have r: "r < 2 ^ (24 + 7)" using that by (simp add: RAND_MAX_def)
    have le: "to_float r \<le> 2 ^ 31" using to_float_le [OF r] by simp
    have eq: "to_float r = 2 ^ 31 \<longleftrightarrow> RAND_MAX - 63 \<le> r"
    proof (cases "r < 2 ^ 30")
      case True
      then have "to_float r \<le> 2 ^ 30" using to_float_le [of r 6] by simp
      with True show ?thesis by (simp add: RAND_MAX_def)
    next
      case False
      then show ?thesis using to_float_high [of r] r by (simp add: RAND_MAX_def)
    qed
    have "to_float r div 2 ^ 15 = 0x10000 \<longleftrightarrow> to_float r = 2 ^ 31" "to_float r div 2 ^ 15 \<le> 0x10000"
      using le by auto
    with eq show ?thesis unfolding within_id [OF that] by blast
  qed
  have len: "length (padded 4 (hex_digits True n)) = (if n = 0x10000 then 5 else 4)" if "n \<le> 0x10000" for n
  proof -
    have d: "length (hex_digits True n) = (if n < 16 then 1 else 1 + length (hex_digits True (n div 16)))" for n
      by (simp add: hex_digits.simps [of True n])
    have "length (hex_digits True n) \<le> 4" if "n < 0x10000"
      using that d [of n] d [of "n div 16"] d [of "n div 16 div 16"] d [of "n div 16 div 16 div 16"]
      by (auto simp: div_mult2_eq [symmetric] split: if_splits)
    moreover have "length (hex_digits True 0x10000) = 5" by (simp add: d)
    ultimately show ?thesis using that by (auto simp: padded_def)
  qed
  show ?thesis
    using w [OF assms(1)] w [OF assms(2)] by (simp add: s_set_id_def Let_def len)
qed

lemma random_identity_witness:
  "length (so_identity (snd (s_set_id 2147483600 5 fresh_socket))) = 10"
  using random_identity [of 2147483600 5 fresh_socket] by (simp add: RAND_MAX_def)

section \<open>Time\<close>

text \<open>
  \<^verbatim>\<open>s_sleep\<close> hands over the whole time; the nanoseconds fit in an \<^verbatim>\<open>int\<close>, in which they are
  computed, and \<^verbatim>\<open>nanosleep\<close> takes the pair exactly for a time that is not negative.
\<close>

theorem s_sleep_exact:
  "fst (s_sleep msecs) * 1000000000 + snd (s_sleep msecs) = msecs * 1000000 \<and>
    \<bar>snd (s_sleep msecs)\<bar> < 1000000000 \<and>
    (0 \<le> fst (s_sleep msecs) \<and> 0 \<le> snd (s_sleep msecs) \<longleftrightarrow> 0 \<le> msecs)"
proof (cases "0 \<le> msecs")
  case True
  then have d: "msecs sdiv 1000 = msecs div 1000" "msecs smod 1000 = msecs mod 1000"
    by (simp_all add: signed_divide_int_def signed_modulo_int_def sgn_if)
  have m: "0 \<le> msecs mod 1000" "msecs mod 1000 < 1000" "0 \<le> msecs div 1000"
    using True by (simp_all add: pos_imp_zdiv_nonneg_iff)
  moreover have "1000 * (msecs div 1000) + msecs mod 1000 = msecs" by (rule mult_div_mod_eq)
  ultimately show ?thesis using True unfolding s_sleep_def d fst_conv snd_conv by (intro conjI iffI; linarith)
next
  case False
  then have d: "msecs sdiv 1000 = - (- msecs div 1000)" "msecs smod 1000 = - (- msecs mod 1000)"
    using mult_div_mod_eq [of 1000 "- msecs"]
    by (simp_all add: signed_divide_int_def signed_modulo_int_def sgn_if)
  have m: "0 \<le> - msecs mod 1000" "- msecs mod 1000 < 1000" "0 \<le> - msecs div 1000"
    using False by (simp_all add: pos_imp_zdiv_nonneg_iff)
  moreover have "1000 * (- msecs div 1000) + - msecs mod 1000 = - msecs" by (rule mult_div_mod_eq)
  ultimately show ?thesis using False unfolding s_sleep_def d fst_conv snd_conv by (intro conjI iffI; linarith)
qed

text \<open>The stamp of \<^verbatim>\<open>s_console\<close> has 18 characters, so it fits its buffer with the null.\<close>

lemma length_two_digits: "n < 100 \<Longrightarrow> length (padded 2 (digits n)) = 2"
  using less_mult_imp_div_less [of n 10 10]
  by (simp add: padded_def digits.simps [of n] digits.simps [of "n div 10"])

theorem s_console_fits:
  assumes "length numbers = 6" and "\<forall>n \<in> set numbers. n < 100"
  shows "s_console numbers message = Inr (console_stamp numbers @ message @ [CHR 0x0A]) \<and>
    length (console_stamp numbers) = 18"
proof -
  obtain y mo d h mi s where "numbers = [y, mo, d, h, mi, s]"
    using assms(1) by (auto simp: numeral_eq_Suc length_Suc_conv)
  with assms(2) have "length (console_stamp numbers) = 18"
    by (simp add: console_stamp_def length_two_digits)
  then show ?thesis by (simp add: s_console_def)
qed

lemma s_console_fits_witness: "s_console [20, 2, 14, 9, 5, 59] ''up'' = Inr (''20-02-14 09:05:59 up'' @ [CHR 0x0A])"
proof -
  have "console_stamp [20, 2, 14, 9, 5, 59] = ''20-02-14 09:05:59 ''" by code_simp
  then show ?thesis using s_console_fits [of "[20, 2, 14, 9, 5, 59]" "''up''"] by simp
qed

text \<open>A program that caught the signals is not ended by them and finds its flag at 1.\<close>

lemma caught_signals:
  "\<exists>p'. receive_signal sig (s_catch_signals p) = Some p' \<and> pr_interrupted p' = 1"
  by (cases sig) (simp_all add: receive_signal_def s_catch_signals_def s_signal_handler_def)

lemma s_version_assert_order:
  "s_version_assert (major, minor) wma wmi \<longleftrightarrow> wma < major \<or> (wma = major \<and> wmi \<le> minor)"
  by (auto simp: s_version_assert_def)

end
