(* ===== verification/Proxy_Sockets.thy ===== *)
theory Proxy_Sockets
  imports Proxy_Pipe Zmq_Helpers
begin

text \<open>
  The sockets of the proxies: constructors, \<^verbatim>\<open>__start__\<close>, \<^verbatim>\<open>__spin__\<close> and destructors of
  \<^verbatim>\<open>ZMQPubSubProxy.cpp\<close> and \<^verbatim>\<open>ZMQServerProxy.cpp\<close> on the sockets of \<open>Zmq_Helpers\<close>.
  \<open>Proxy_Pipe\<close> takes what a poll finds to be a topic and a message; here a poll finds frames,
  and a proxy reads as many as its calls of \<^verbatim>\<open>s_recv\<close> ask for.  What ZeroMQ does of itself is
  a parameter or is taken from its documentation: which addresses are in use when a socket
  binds (binding one of them throws), and the frames of a message arrive together.
\<close>

section \<open>Opening and closing\<close>

datatype socket_role = Sub_Role | Pub_Role | Router_Role | Dealer_Role

record zsocket =
  zs_role :: socket_role
  zs_socket :: socket
  zs_bound :: "address option"
  zs_prefixes :: "bytes list"

datatype zmq_error = Address_In_Use address

datatype polled_end = Poll_Frontend | Poll_Backend

record 'f proxy_object =
  po_interface :: "'f proxy"
  po_context :: int
  po_frontend_sock :: "zsocket option"
  po_backend_sock :: "zsocket option"
  po_items :: "polled_end list"

definition make_socket :: "socket_role \<Rightarrow> zsocket" where
  "make_socket role = \<lparr>zs_role = role, zs_socket = fresh_socket, zs_bound = None, zs_prefixes = []\<rparr>"

definition bind_socket :: "(address \<Rightarrow> bool) \<Rightarrow> address \<Rightarrow> zsocket \<Rightarrow> zmq_error + zsocket" where
  "bind_socket in_use addr s = (if in_use addr then Inl (Address_In_Use addr) else Inr (s\<lparr>zs_bound := Some addr\<rparr>))"

text \<open>\<^verbatim>\<open>setsockopt(ZMQ_SUBSCRIBE, value, length)\<close> takes the first bytes of the value only.\<close>

definition subscribe_socket :: "bytes \<Rightarrow> nat \<Rightarrow> zsocket \<Rightarrow> zsocket" where
  "subscribe_socket option_value len s = s\<lparr>zs_prefixes := zs_prefixes s @ [take len option_value]\<rparr>"

definition new_pub_sub_object :: "string \<Rightarrow> address \<Rightarrow> address \<Rightarrow> int \<Rightarrow> 'f proxy_object" where
  "new_pub_sub_object ident front back context =
     \<lparr>po_interface = new_proxy Pub_Sub ident front back, po_context = context,
       po_frontend_sock = None, po_backend_sock = None, po_items = []\<rparr>"

definition new_server_object :: "string \<Rightarrow> address \<Rightarrow> address \<Rightarrow> int \<Rightarrow> 'f proxy_object" where
  "new_server_object ident front back context =
     \<lparr>po_interface = new_proxy Req_Rep ident front back, po_context = context,
       po_frontend_sock = None, po_backend_sock = None, po_items = []\<rparr>"

text \<open>
  \<^verbatim>\<open>__start__\<close> of the two classes.  A bound address is in use for the next \<^verbatim>\<open>bind\<close>; when one
  throws, the object keeps the sockets made so far, which the thread's end makes immaterial.
\<close>

definition pub_sub_open :: "(address \<Rightarrow> bool) \<Rightarrow> 'f proxy_object \<Rightarrow> zmq_error + bool \<times> 'f proxy_object" where
  "pub_sub_open in_use o1 =
     (case bind_socket in_use (px_frontend (po_interface o1)) (make_socket Sub_Role) of
        Inl e \<Rightarrow> Inl e
      | Inr front \<Rightarrow>
          let front = subscribe_socket (bytes_of_string ''topic'') 0 front in
          case bind_socket (\<lambda>a. in_use a \<or> zs_bound front = Some a) (px_backend (po_interface o1))
              (make_socket Pub_Role) of
            Inl e \<Rightarrow> Inl e
          | Inr back \<Rightarrow> Inr (True, o1\<lparr>po_frontend_sock := Some front, po_backend_sock := Some back,
              po_items := [Poll_Frontend], po_interface := (po_interface o1)\<lparr>px_sockets := True\<rparr>\<rparr>))"

definition server_open :: "(address \<Rightarrow> bool) \<Rightarrow> 'f proxy_object \<Rightarrow> zmq_error + bool \<times> 'f proxy_object" where
  "server_open in_use o1 =
     (case bind_socket in_use (px_frontend (po_interface o1)) (make_socket Router_Role) of
        Inl e \<Rightarrow> Inl e
      | Inr front \<Rightarrow>
          case bind_socket (\<lambda>a. in_use a \<or> zs_bound front = Some a) (px_backend (po_interface o1))
              (make_socket Dealer_Role) of
            Inl e \<Rightarrow> Inl e
          | Inr back \<Rightarrow> Inr (True, o1\<lparr>po_frontend_sock := Some front, po_backend_sock := Some back,
              po_items := [Poll_Frontend, Poll_Backend],
              po_interface := (po_interface o1)\<lparr>px_sockets := True\<rparr>\<rparr>))"

definition pub_sub_type :: string where "pub_sub_type = ''ZMQ PUB-SUB Proxy''"
definition server_type :: string where "server_type = ''ZMQ ROUTER DEALER Proxy''"

text \<open>The destructors close what was opened: the addresses given back.\<close>

definition close_ends :: "'f proxy_object \<Rightarrow> address list" where
  "close_ends o1 =
     (case po_frontend_sock o1 of None \<Rightarrow> [] | Some s \<Rightarrow> (case zs_bound s of None \<Rightarrow> [] | Some a \<Rightarrow> [a])) @
     (case po_backend_sock o1 of None \<Rightarrow> [] | Some s \<Rightarrow> (case zs_bound s of None \<Rightarrow> [] | Some a \<Rightarrow> [a]))"

definition destroy_pub_sub :: "'f proxy_object \<Rightarrow> address list" where "destroy_pub_sub = close_ends"
definition destroy_server :: "'f proxy_object \<Rightarrow> address list" where "destroy_server = close_ends"

text \<open>The virtual call of \<^verbatim>\<open>__start__\<close> in \<^verbatim>\<open>start\<close>, on a thread of its own.\<close>

definition object_open :: "(address \<Rightarrow> bool) \<Rightarrow> 'f proxy_object \<Rightarrow> zmq_error + bool \<times> 'f proxy_object" where
  "object_open in_use o1 =
     (case px_kind (po_interface o1) of
        Pub_Sub \<Rightarrow> pub_sub_open in_use o1
      | Req_Rep \<Rightarrow> server_open in_use o1)"

definition enter_proxy :: "(address \<Rightarrow> bool) \<Rightarrow> 'f proxy_object \<Rightarrow> 'f proxy_object res" where
  "enter_proxy in_use o1 =
     (case object_open in_use (o1\<lparr>po_interface := (po_interface o1)\<lparr>px_paused := False\<rparr>\<rparr>) of
        Inl e \<Rightarrow> Inl Terminated
      | Inr (_, o2) \<Rightarrow> Inr o2)"

section \<open>A round on frames\<close>

text \<open>
  \<^verbatim>\<open>ZMQPubSubProxy::__spin__\<close>: \<open>None\<close> is a call of \<^verbatim>\<open>s_recv\<close> that blocks, with the proxy's lock
  held.
\<close>

definition pub_sub_turn :: "('f \<Rightarrow> message \<Rightarrow> (int \<times> message \<times> 'f) res) \<Rightarrow> 'f proxy_object \<Rightarrow>
    (bool \<times> 'f proxy_object) res option" where
  "pub_sub_turn conv o1 =
     (case (po_frontend_sock o1, po_backend_sock o1) of
        (Some front, Some back) \<Rightarrow>
          if so_in (zs_socket front) = [] then Some (Inr (True, o1))
          else
            Option.bind (s_recv (zs_socket front)) (\<lambda>(topic, s).
            Option.bind (s_recv s) (\<lambda>(req, s).
              Some (bindR (if \<not> px_adding_filter (po_interface o1)
                  then apply_filters conv (px_filters (po_interface o1)) req
                  else Inr (req, px_filters (po_interface o1))) (\<lambda>(req, fs).
                let out = snd (s_sendmore True topic (zs_socket back));
                    out = snd (s_send True req out)
                in Inr (True, o1\<lparr>po_interface := (po_interface o1)\<lparr>px_filters := fs\<rparr>,
                  po_frontend_sock := Some (front\<lparr>zs_socket := s\<rparr>),
                  po_backend_sock := Some (back\<lparr>zs_socket := out\<rparr>)\<rparr>)))))
      | _ \<Rightarrow> Some (Inr (True, o1)))"

text \<open>
  The rounds of a started proxy: what a round's test sees and the frames that arrived before
  its poll.  The result says whether a test ended the loop.
\<close>

record turn =
  tu_goes_on :: bool
  tu_arrived :: "frame list"

definition deliver_frames :: "frame list \<Rightarrow> 'f proxy_object \<Rightarrow> 'f proxy_object" where
  "deliver_frames fs o1 = o1\<lparr>po_frontend_sock := map_option
     (\<lambda>s. s\<lparr>zs_socket := (zs_socket s)\<lparr>so_in := so_in (zs_socket s) @ fs\<rparr>\<rparr>) (po_frontend_sock o1)\<rparr>"

fun turns :: "('f \<Rightarrow> message \<Rightarrow> (int \<times> message \<times> 'f) res) \<Rightarrow> turn list \<Rightarrow> 'f proxy_object \<Rightarrow>
    (bool \<times> 'f proxy_object) res option" where
  "turns conv [] o1 = Some (Inr (False, o1))"
| "turns conv (t # ts) o1 =
     (if tu_goes_on t then
        Option.bind (pub_sub_turn conv (deliver_frames (tu_arrived t) o1)) (\<lambda>r.
          case r of Inl e \<Rightarrow> Some (Inl e) | Inr (_, o2) \<Rightarrow> turns conv ts o2)
      else Some (Inr (True, o1)))"

definition sent_on :: "'f proxy_object \<Rightarrow> frame list" where
  "sent_on o1 = (case po_backend_sock o1 of None \<Rightarrow> [] | Some s \<Rightarrow> so_out (zs_socket s))"

definition waiting :: "'f proxy_object \<Rightarrow> frame list" where
  "waiting o1 = (case po_frontend_sock o1 of None \<Rightarrow> [] | Some s \<Rightarrow> so_in (zs_socket s))"

section \<open>Which proxies can run\<close>

lemma new_ends [simp]:
  "px_frontend (new_proxy kind ident front back) = front"
  "px_backend (new_proxy kind ident front back) = back"
  "px_kind (new_proxy kind ident front back) = kind"
  by (simp_all add: new_proxy_def register_signal_def Let_def split: option.split)

lemma enter_proxy_eq:
  "enter_proxy in_use o1 =
    (let f = px_frontend (po_interface o1); b = px_backend (po_interface o1);
       sub = px_kind (po_interface o1) = Pub_Sub in
     if in_use f \<or> in_use b \<or> f = b then Inl Terminated
     else Inr (o1\<lparr>po_interface := (po_interface o1)\<lparr>px_paused := False, px_sockets := True\<rparr>,
       po_frontend_sock := Some ((make_socket (if sub then Sub_Role else Router_Role))
         \<lparr>zs_bound := Some f, zs_prefixes := (if sub then [[]] else [])\<rparr>),
       po_backend_sock := Some ((make_socket (if sub then Pub_Role else Dealer_Role))\<lparr>zs_bound := Some b\<rparr>),
       po_items := (if sub then [Poll_Frontend] else [Poll_Frontend, Poll_Backend])\<rparr>))"
  by (cases "px_kind (po_interface o1)")
    (simp_all add: enter_proxy_def object_open_def pub_sub_open_def server_open_def bind_socket_def
      subscribe_socket_def make_socket_def Let_def)

text \<open>
  C26: which proxies can run together.  The thread of a new proxy opens both its ends, unless
  one is in use or they are the same address, and then the exception of \<^verbatim>\<open>bind\<close> leaves the
  thread and ends the program.  A running proxy gives back exactly its two addresses when it
  is destroyed, and until then the thread of any other proxy that has an end in common with it
  ends the program.  A pub-sub proxy's subscription names a topic and a length of zero, so
  what it subscribes to is the empty prefix.
\<close>

theorem proxies_run_apart:
  assumes "o1 = new_pub_sub_object ident f b ctx \<or> o1 = new_server_object ident f b ctx"
    and "o' = new_pub_sub_object ident' f' b' ctx' \<or> o' = new_server_object ident' f' b' ctx'"
  shows "if in_use f \<or> in_use b \<or> f = b then enter_proxy in_use o1 = Inl Terminated
    else \<exists>o2. enter_proxy in_use o1 = Inr o2 \<and> close_ends o2 = [f, b] \<and> close_ends o1 = [] \<and>
      (\<forall>s. px_kind (po_interface o1) = Pub_Sub \<and> po_frontend_sock o2 = Some s \<longrightarrow> zs_prefixes s = [[]]) \<and>
      ({f', b'} \<inter> {f, b} \<noteq> {} \<longrightarrow>
        enter_proxy (\<lambda>a. in_use a \<or> a \<in> set (close_ends o2)) o' = Inl Terminated)"
  using assms
  by (auto simp: enter_proxy_eq Let_def close_ends_def make_socket_def new_pub_sub_object_def
      new_server_object_def)

lemma proxies_run_apart_witness:
  "\<exists>o2 :: nat proxy_object. enter_proxy (\<lambda>_. False) (new_pub_sub_object ''a'' ''tcp://*:5570'' ''tcp://*:5571'' 1) = Inr o2 \<and>
    enter_proxy (\<lambda>a. False \<or> a \<in> set (close_ends o2))
      (new_server_object ''b'' ''tcp://*:5571'' ''tcp://*:5572'' 1 :: nat proxy_object) = Inl Terminated"
  using proxies_run_apart [where in_use = "\<lambda>_. False" and f = "''tcp://*:5570''" and b = "''tcp://*:5571''"
      and f' = "''tcp://*:5571''" and b' = "''tcp://*:5572''",
      OF disjI1 [OF refl] disjI2 [OF refl], of "''a''" 1 "''b''" 1] by auto

section \<open>Messages of two frames\<close>

definition opened :: "'f proxy_object \<Rightarrow> bool" where
  "opened o1 \<longleftrightarrow> po_frontend_sock o1 \<noteq> None \<and> po_backend_sock o1 \<noteq> None \<and>
     px_sockets (po_interface o1) \<and> \<not> px_adding_filter (po_interface o1)"

lemma turn_idle: "opened o1 \<Longrightarrow> waiting o1 = [] \<Longrightarrow> pub_sub_turn conv o1 = Some (Inr (True, o1))"
  by (auto simp: opened_def waiting_def pub_sub_turn_def)

lemma turn_blocks: "opened o1 \<Longrightarrow> waiting o1 = [x] \<Longrightarrow> pub_sub_turn conv o1 = None"
  by (cases x) (auto simp: opened_def waiting_def pub_sub_turn_def s_recv_def)

lemma turn_forwards:
  assumes "opened o1" and "waiting o1 = (t, a) # (d, c) # rest"
    and "apply_filters conv (px_filters (po_interface o1)) d = Inr (d', fs)"
  obtains o2 where "pub_sub_turn conv o1 = Some (Inr (True, o2))" and "opened o2" and "waiting o2 = rest"
    and "sent_on o2 = sent_on o1 @ [(t, True), (d', False)]"
    and "po_interface o2 = (po_interface o1)\<lparr>px_filters := fs\<rparr>"
proof -
  obtain fsock bsock where s: "po_frontend_sock o1 = Some fsock" "po_backend_sock o1 = Some bsock"
    using assms(1) by (auto simp: opened_def)
  show thesis
    by (rule that [of "o1\<lparr>po_interface := (po_interface o1)\<lparr>px_filters := fs\<rparr>,
        po_frontend_sock := Some (fsock\<lparr>zs_socket := (zs_socket fsock)\<lparr>so_in := rest, so_more := c\<rparr>\<rparr>),
        po_backend_sock := Some (bsock\<lparr>zs_socket :=
          (zs_socket bsock)\<lparr>so_out := so_out (zs_socket bsock) @ [(t, True), (d', False)]\<rparr>\<rparr>)\<rparr>"])
      (use assms s in \<open>simp_all add: pub_sub_turn_def s_recv_def s_send_def s_sendmore_def waiting_def
        sent_on_def opened_def\<close>)
qed

lemma turn_faults:
  assumes "opened o1" and "waiting o1 = (t, a) # (d, c) # rest"
    and "apply_filters conv (px_filters (po_interface o1)) d = Inl e"
  shows "pub_sub_turn conv o1 = Some (Inl e)"
  using assms by (auto simp: pub_sub_turn_def s_recv_def waiting_def opened_def)

lemma delivered [simp]:
  "opened (deliver_frames fs o1) \<longleftrightarrow> opened o1"
  "sent_on (deliver_frames fs o1) = sent_on o1"
  "po_interface (deliver_frames fs o1) = po_interface o1"
  "opened o1 \<Longrightarrow> waiting (deliver_frames fs o1) = waiting o1 @ fs"
  by (auto simp: opened_def deliver_frames_def sent_on_def waiting_def)

lemma deliver_nil [simp]: "deliver_frames [] o1 = o1"
  by (cases "po_frontend_sock o1") (simp_all add: deliver_frames_def)

text \<open>
  The rounds of \<open>Proxy_Pipe\<close> that such turns make: a turn finds the first message of those
  still waiting and those that came.
\<close>

fun rounds_of :: "(bytes \<times> bytes) list \<Rightarrow> (bool \<times> (bytes \<times> bytes) list) list \<Rightarrow> round list" where
  "rounds_of queue [] = []"
| "rounds_of queue ((go, ms) # ts) =
     \<lparr>ro_paused = False, ro_running = go, ro_exit = False,
       ro_found = (case queue @ ms of [] \<Rightarrow> None | m # _ \<Rightarrow> Some m)\<rparr> # rounds_of (tl (queue @ ms)) ts"

abbreviation arrivals :: "(bool \<times> (bytes \<times> bytes) list) list \<Rightarrow> turn list" where
  "arrivals ts \<equiv> map (\<lambda>(go, ms). \<lparr>tu_goes_on = go, tu_arrived = pair_frames ms\<rparr>) ts"

lemma turns_refine:
  assumes "opened o1" and "waiting o1 = pair_frames queue"
  shows "case spin_loop conv (rounds_of queue ts) (po_interface o1) of
      Inl e \<Rightarrow> turns conv (arrivals ts) o1 = Some (Inl e)
    | Inr (ended, px, out) \<Rightarrow> \<exists>o2 ps. turns conv (arrivals ts) o1 = Some (Inr (ended, o2)) \<and>
        po_interface o2 = px \<and> sent_on o2 = sent_on o1 @ pair_frames ps \<and>
        out = concat (map (\<lambda>(t, m). [t, m]) ps)"
  using assms
proof (induction ts arbitrary: queue o1)
  case Nil
  then show ?case by (auto intro: exI [of _ "[]"])
next
  case (Cons g ts)
  obtain go ms where g: "g = (go, ms)" by (cases g)
  let ?o = "deliver_frames (pair_frames ms) o1"
  have o: "opened ?o" "waiting ?o = pair_frames (queue @ ms)" using Cons.prems by simp_all
  have sk: "px_sockets (po_interface o1)" "\<not> px_adding_filter (po_interface o1)"
    using Cons.prems(1) by (simp_all add: opened_def)
  show ?case
  proof (cases go)
    case False
    then show ?thesis by (auto simp: g goes_on_def intro: exI [of _ "[]"])
  next
    case True
    note go = True
    show ?thesis
    proof (cases "queue @ ms")
      case Nil
      then have "pub_sub_turn conv ?o = Some (Inr (True, ?o))" using o by (intro turn_idle) simp_all
      then have run: "turns conv (arrivals (g # ts)) o1 = turns conv (arrivals ts) ?o" by (simp add: g go)
      have step: "spin_loop conv (rounds_of queue (g # ts)) (po_interface o1) =
          spin_loop conv (rounds_of [] ts) (po_interface ?o)"
        using Nil sk by (simp add: g goes_on_def pub_sub_spin_def go bindR_def split: sum.split prod.split)
      have "waiting ?o = pair_frames []" using o(2) Nil by simp
      from Cons.IH [OF o(1) this] show ?thesis unfolding run step by (simp only: delivered)
    next
      case (Cons m rest)
      obtain t d where m: "m = (t, d)" by (cases m)
      have w: "waiting ?o = (t, True) # (d, False) # pair_frames rest" using o(2) Cons m by simp
      show ?thesis
      proof (cases "apply_filters conv (px_filters (po_interface o1)) d")
        case (Inl e)
        then have "pub_sub_turn conv ?o = Some (Inl e)" using turn_faults [OF o(1) w, of conv e] by simp
        then show ?thesis using Cons Inl by (simp add: g go goes_on_def pub_sub_spin_def sk m)
      next
        case (Inr r)
        obtain d' fs where r: "apply_filters conv (px_filters (po_interface o1)) d = Inr (d', fs)"
          using Inr by (cases r) simp
        obtain o2 where o2: "pub_sub_turn conv ?o = Some (Inr (True, o2))" "opened o2" "waiting o2 = pair_frames rest"
          "sent_on o2 = sent_on o1 @ [(t, True), (d', False)]"
          "po_interface o2 = (po_interface o1)\<lparr>px_filters := fs\<rparr>"
          by (rule turn_forwards [OF o(1) w, of conv d' fs]) (use r in auto)
        have step: "spin_loop conv (rounds_of queue (g # ts)) (po_interface o1) =
          bindR (spin_loop conv (rounds_of rest ts) (po_interface o2)) (\<lambda>(ended, px2, out2).
            Inr (ended, px2, t # d' # out2))"
          using Cons r by (simp add: g go goes_on_def pub_sub_spin_def sk m o2(5))
        have run: "turns conv (arrivals (g # ts)) o1 = turns conv (arrivals ts) o2"
          by (simp add: g go o2(1))
        note IH = Cons.IH [OF o2(2,3)]
        show ?thesis
        proof (cases "spin_loop conv (rounds_of rest ts) (po_interface o2)")
          case (Inl e)
          then show ?thesis using IH unfolding step run by simp
        next
          case (Inr q)
          obtain ended px out where q: "q = (ended, px, out)" by (cases q)
          from IH Inr q obtain o3 ps where o3: "turns conv (arrivals ts) o2 = Some (Inr (ended, o3))"
            "po_interface o3 = px" "sent_on o3 = sent_on o2 @ pair_frames ps"
            "out = concat (map (\<lambda>(t, m). [t, m]) ps)" by auto
          then show ?thesis unfolding step run Inr q
            by (auto simp: o2(4) intro!: exI [of _ "(t, d') # ps"])
        qed
      qed
    qed
  qed
qed

text \<open>A pub-sub proxy that was entered.\<close>

lemma entered_pub_sub:
  assumes "enter_proxy in_use (new_pub_sub_object ident f b ctx) = Inr o1"
  shows "opened o1" and "waiting o1 = []" and "sent_on o1 = []"
    and "po_interface o1 = (new_proxy Pub_Sub ident f b)\<lparr>px_paused := False, px_sockets := True\<rparr>"
  using assms
  by (auto simp: enter_proxy_eq Let_def new_pub_sub_object_def make_socket_def fresh_socket_def opened_def
      waiting_def sent_on_def split: if_splits)

lemma pairs_inj:
  "concat (map (\<lambda>(t, m). [t, m]) ps) = concat (map (\<lambda>(t, m). [t, m]) qs) \<Longrightarrow> ps = qs"
proof (induction ps arbitrary: qs)
  case Nil
  then show ?case by (cases qs) auto
next
  case (Cons p ps)
  then show ?case by (cases p; cases qs) auto
qed

text \<open>
  C17: the proxy on frames does what the proxy on messages does.  While every message that
  arrives is of two frames, a started pub-sub proxy's rounds on frames run as the rounds of
  its thread that find those messages, one in each round and in order: with the same end, the
  same filters afterwards or the same exception, and the same frames sent, which are again
  messages of two frames.
\<close>

theorem two_frame_messages_pass:
  assumes "enter_proxy in_use (new_pub_sub_object ident f b ctx) = Inr o1"
  shows "case proxy_start conv (rounds_of [] ts) (new_proxy Pub_Sub ident f b) of
      Inl e \<Rightarrow> turns conv (arrivals ts) o1 = Some (Inl e)
    | Inr (ended, px, out) \<Rightarrow> \<exists>o2 ps. turns conv (arrivals ts) o1 = Some (Inr (ended, o2)) \<and>
        po_interface o2 = px \<and> sent_on o2 = pair_frames ps \<and> out = concat (map (\<lambda>(t, m). [t, m]) ps)"
proof -
  note e = entered_pub_sub [OF assms]
  have "waiting o1 = pair_frames []" using e(2) by simp
  from turns_refine [OF e(1) this, of conv ts] show ?thesis
    unfolding e(3,4) proxy_start_def append_Nil .
qed

lemma two_frame_messages_pass_witness:
  "\<exists>o1 o2 :: nat proxy_object. enter_proxy (\<lambda>_. False) (new_pub_sub_object ''a'' ''f'' ''b'' 1) = Inr o1 \<and>
    turns (\<lambda>s m. Inr (0, m, s)) (arrivals [(True, [([1], [2]), ([1], [3])]), (True, []), (False, [])]) o1 =
      Some (Inr (True, o2)) \<and> sent_on o2 = pair_frames [([1], [2]), ([1], [3])]"
proof -
  obtain o1 :: "nat proxy_object" where o1: "enter_proxy (\<lambda>_. False) (new_pub_sub_object ''a'' ''f'' ''b'' 1) = Inr o1"
    by (simp add: enter_proxy_eq Let_def new_pub_sub_object_def)
  let ?conv = "\<lambda>s m. Inr (0, m, s) :: (int \<times> message \<times> nat) res"
  let ?ts = "[(True, [([1], [2]), ([1], [3])]), (True, []), (False, [])]"
  have run: "proxy_start ?conv (rounds_of [] ?ts) (new_proxy Pub_Sub ''a'' ''f'' ''b'') =
      Inr (True, (new_proxy Pub_Sub ''a'' ''f'' ''b'')\<lparr>px_paused := False, px_sockets := True, px_filters := []\<rparr>,
        [[1], [2], [1], [3]])"
    by (simp add: proxy_start_def goes_on_def pub_sub_spin_def)
  obtain o2 ps where r: "turns ?conv (arrivals ?ts) o1 = Some (Inr (True, o2))" "sent_on o2 = pair_frames ps"
    "[[1], [2], [1], [3]] = concat (map (\<lambda>(t, m). [t, m]) ps)"
    using two_frame_messages_pass [OF o1, of ?conv ?ts] unfolding run sum.case prod.case by blast
  have "ps = [([1], [2]), ([1], [3])]" by (rule pairs_inj) (simp add: r(3) [symmetric])
  with r(1,2) o1 show ?thesis by blast
qed

section \<open>A message of one frame\<close>

lemma shifted_turns:
  assumes "opened o1" and "px_filters (po_interface o1) = []" and "waiting o1 = (m, c) # pair_frames ms" and "ms \<noteq> []"
  shows "\<exists>o2. turns conv (replicate (length ms) \<lparr>tu_goes_on = True, tu_arrived = []\<rparr>) o1 = Some (Inr (False, o2)) \<and>
    opened o2 \<and> waiting o2 = [(snd (last ms), False)] \<and>
    sent_on o2 = sent_on o1 @ pair_frames (zip (m # map snd ms) (map fst ms))"
  using assms
proof (induction ms arbitrary: m c o1)
  case (Cons p ms)
  obtain t d where p: "p = (t, d)" by (cases p)
  let ?o = "deliver_frames [] o1"
  have w: "waiting ?o = (m, c) # (t, True) # (d, False) # pair_frames ms" using Cons.prems p by simp
  have o: "opened ?o" using Cons.prems by simp
  obtain o2 where o2: "pub_sub_turn conv ?o = Some (Inr (True, o2))" "opened o2"
    "waiting o2 = (d, False) # pair_frames ms" "sent_on o2 = sent_on o1 @ [(m, True), (t, False)]"
    "px_filters (po_interface o2) = []"
    by (rule turn_forwards [OF o w, of conv t "[]"]) (use Cons.prems(2) in auto)
  show ?case
  proof (cases ms)
    case Nil
    then show ?thesis using o2 p by auto
  next
    case (Cons q qs)
    with Cons.IH [OF o2(2,5,3)] obtain o3 where
      "turns conv (replicate (length ms) \<lparr>tu_goes_on = True, tu_arrived = []\<rparr>) o2 = Some (Inr (False, o3))"
      "opened o3" "waiting o3 = [(snd (last ms), False)]"
      "sent_on o3 = sent_on o2 @ pair_frames (zip (d # map snd ms) (map fst ms))" by auto
    then show ?thesis using o2 p Cons by simp
  qed
qed simp

lemma turns_append:
  "turns conv (ts @ us) o1 = Option.bind (turns conv ts o1) (\<lambda>r.
    case r of Inl e \<Rightarrow> Some (Inl e) | Inr (ended, o2) \<Rightarrow> if ended then Some (Inr (True, o2)) else turns conv us o2)"
proof (induction ts arbitrary: o1)
  case (Cons t ts)
  then show ?case
    by (cases "pub_sub_turn conv (deliver_frames (tu_arrived t) o1)")
      (auto split: sum.split prod.split)
qed simp

text \<open>
  C18: a message of one frame puts a pub-sub proxy out of step for good.  A proxy without
  filters takes it for a topic and the topic of the next message for its data: every message
  after it goes out as the data of the one before with the topic of this one in the place of
  the data, and the round after the last one is held in \<^verbatim>\<open>s_recv\<close>, so that neither stopping the
  proxy nor its exit signal can end its thread.
\<close>

theorem single_frame_shifts:
  assumes "enter_proxy in_use (new_pub_sub_object ident f b ctx) = Inr o1" and "ms \<noteq> []"
    and "ts = \<lparr>tu_goes_on = True, tu_arrived = (m, False) # pair_frames ms\<rparr> #
      replicate (length ms - 1) \<lparr>tu_goes_on = True, tu_arrived = []\<rparr>"
  shows "\<exists>o2. turns conv ts o1 = Some (Inr (False, o2)) \<and>
    sent_on o2 = pair_frames (zip (m # map snd ms) (map fst ms)) \<and>
    (\<forall>us. turns conv (ts @ \<lparr>tu_goes_on = True, tu_arrived = []\<rparr> # us) o1 = None)"
proof -
  note e = entered_pub_sub [OF assms(1)]
  let ?o = "deliver_frames ((m, False) # pair_frames ms) o1"
  have o: "opened ?o" "px_filters (po_interface ?o) = []" "waiting ?o = (m, False) # pair_frames ms"
    "sent_on ?o = []"
    using e by simp_all
  obtain o2 where o2: "turns conv (replicate (length ms) \<lparr>tu_goes_on = True, tu_arrived = []\<rparr>) ?o = Some (Inr (False, o2))"
    "opened o2" "waiting o2 = [(snd (last ms), False)]"
    "sent_on o2 = sent_on ?o @ pair_frames (zip (m # map snd ms) (map fst ms))"
    using shifted_turns [OF o(1-3) assms(2)] by blast
  have "turns conv ts o1 = turns conv (replicate (length ms) \<lparr>tu_goes_on = True, tu_arrived = []\<rparr>) ?o"
    using assms(2) by (cases ms) (simp_all add: assms(3))
  then have run: "turns conv ts o1 = Some (Inr (False, o2))" using o2(1) by simp
  have "pub_sub_turn conv o2 = None"
    using o2(2,3) by (intro turn_blocks [of _ "(snd (last ms), False)"]) simp_all
  then have "turns conv (ts @ \<lparr>tu_goes_on = True, tu_arrived = []\<rparr> # us) o1 = None" for us
    by (simp add: turns_append run)
  with run o2(4) o(4) show ?thesis by auto
qed

lemma single_frame_shifts_witness:
  "\<exists>o1 o2 :: nat proxy_object. enter_proxy (\<lambda>_. False) (new_pub_sub_object ''a'' ''f'' ''b'' 1) = Inr o1 \<and>
    turns (\<lambda>s m. Inr (0, m, s)) [\<lparr>tu_goes_on = True, tu_arrived = [([9], False), ([1], True), ([2], False)]\<rparr>] o1 =
      Some (Inr (False, o2)) \<and> sent_on o2 = [([9], True), ([1], False)]"
proof -
  obtain o1 :: "nat proxy_object" where o1: "enter_proxy (\<lambda>_. False) (new_pub_sub_object ''a'' ''f'' ''b'' 1) = Inr o1"
    by (simp add: enter_proxy_eq Let_def new_pub_sub_object_def)
  have ms: "[([1 :: u8], [2 :: u8])] \<noteq> []" by simp
  from single_frame_shifts [OF o1 ms refl, of "\<lambda>s m. Inr (0, m, s)" "[9]"] o1 show ?thesis by auto
qed

end
