(* ===== verification/Programs.thy ===== *)
theory Programs
  imports Kermit_Kernel Localizer Proxy_Sockets
begin

text \<open>
  The two programs of the robot, \<^verbatim>\<open>src/impl/kermit_kernel.cpp\<close> and
  \<^verbatim>\<open>src/impl/kermit_proxy.cpp\<close>: how they read their command line, what they build of the
  components and how they end.  Printing is left out; the usage text and an error are the
  exit codes they lead to.  What the proxy program meets (addresses in use, threads held in a
  receive, the order of its table) is the record \<open>proxy_env\<close>.
\<close>

section \<open>Reading a command line\<close>

text \<open>How the loop over the arguments ends: usage (exit code 0), an error (1), or options.\<close>

datatype 'o parsed = Usage | Bad_Option | Options 'o

subsection \<open>The kernel's options\<close>

record kernel_options =
  ko_debug :: bool
  ko_verbose :: bool

function kernel_args :: "string list \<Rightarrow> nat \<Rightarrow> kernel_options \<Rightarrow> kernel_options parsed" where
  "kernel_args argv i opts =
     (if i < length argv then
        if argv ! i = ''-h'' \<or> argv ! i = ''--help'' \<or> length argv = 1 then Usage
        else if argv ! i = ''--debug'' then
          (let i = i + 1 in
           if i < length argv then kernel_args argv i (opts\<lparr>ko_debug := argv ! i \<noteq> ''off''\<rparr>)
           else Bad_Option)
        else if argv ! i = ''--verbose'' then kernel_args argv (i + 1) (opts\<lparr>ko_verbose := True\<rparr>)
        else kernel_args argv (i + 1) opts
      else Options opts)"
  by pat_completeness auto
termination by (relation "measure (\<lambda>(argv, i, _). length argv - i)") auto

declare kernel_args.simps [simp del]

text \<open>What the options mean: the argument after the last \<^verbatim>\<open>--debug\<close> decides.\<close>

fun last_after :: "string \<Rightarrow> string list \<Rightarrow> string option" where
  "last_after key (x # y # rest) =
     (case last_after key (y # rest) of
        Some v \<Rightarrow> Some v
      | None \<Rightarrow> if x = key then Some y else None)"
| "last_after key _ = None"

definition kernel_meaning :: "string list \<Rightarrow> kernel_options parsed" where
  "kernel_meaning argv =
     (if length argv = 1 \<or> ''-h'' \<in> set argv \<or> ''--help'' \<in> set argv then Usage
      else if argv \<noteq> [] \<and> last argv = ''--debug'' then Bad_Option
      else Options \<lparr>ko_debug = (last_after ''--debug'' argv \<noteq> Some ''off''),
        ko_verbose = (''--verbose'' \<in> set argv)\<rparr>)"

text \<open>The loop as a recursion over the arguments that are left.\<close>

fun kernel_scan :: "string list \<Rightarrow> kernel_options \<Rightarrow> kernel_options parsed" where
  "kernel_scan [] opts = Options opts"
| "kernel_scan (x # xs) opts =
     (if x = ''-h'' \<or> x = ''--help'' then Usage
      else if x = ''--debug'' then
        (case xs of [] \<Rightarrow> Bad_Option | v # _ \<Rightarrow> kernel_scan xs (opts\<lparr>ko_debug := v \<noteq> ''off''\<rparr>))
      else kernel_scan xs (if x = ''--verbose'' then opts\<lparr>ko_verbose := True\<rparr> else opts))"

lemma drop_eq_Cons: "drop i xs = y # ys \<longleftrightarrow> i < length xs \<and> y = xs ! i \<and> ys = drop (i + 1) xs"
  by (cases "i < length xs") (auto simp: Cons_nth_drop_Suc [symmetric])

lemma kernel_args_scan:
  assumes "length argv \<noteq> 1"
  shows "kernel_args argv i opts = kernel_scan (drop i argv) opts"
proof (induction "drop i argv" opts arbitrary: i rule: kernel_scan.induct)
  case (1 opts)
  then have "\<not> i < length argv" by simp
  then show ?case by (subst kernel_args.simps) simp
next
  case (2 x xs opts)
  have i: "i < length argv" "x = argv ! i" "xs = drop (i + 1) argv"
    using "2.hyps"(3) [symmetric] by (simp_all add: drop_eq_Cons)
  have unfold: "kernel_args argv i opts =
      (if x = ''-h'' \<or> x = ''--help'' then Usage
       else if x = ''--debug'' then
         (if i + 1 < length argv then kernel_args argv (i + 1) (opts\<lparr>ko_debug := argv ! (i + 1) \<noteq> ''off''\<rparr>)
          else Bad_Option)
       else kernel_args argv (i + 1) (if x = ''--verbose'' then opts\<lparr>ko_verbose := True\<rparr> else opts))"
    using i(1,2) assms by (subst kernel_args.simps) (simp only: Let_def if_True simp_thms if_distrib [of "kernel_args argv (i + 1)"])
  have scan: "kernel_scan (drop i argv) opts = kernel_scan (x # xs) opts" using "2.hyps"(3) by simp
  consider (asks) "x = ''-h'' \<or> x = ''--help''"
    | (no_value) "\<not> (x = ''-h'' \<or> x = ''--help'')" "x = ''--debug''" "xs = []"
    | (debug) v rest where "\<not> (x = ''-h'' \<or> x = ''--help'')" "x = ''--debug''" "xs = v # rest"
    | (other) "\<not> (x = ''-h'' \<or> x = ''--help'')" "x \<noteq> ''--debug''"
    by (cases xs) blast+
  then show ?case
  proof cases
    case asks
    then show ?thesis unfolding unfold scan kernel_scan.simps(2) by (simp only: if_True)
  next
    case no_value
    then have "\<not> i + 1 < length argv" using i(3) by simp
    with no_value(2,3) show ?thesis
      unfolding unfold scan kernel_scan.simps(2) if_not_P [OF no_value(1)] by simp
  next
    case debug
    then have v: "i + 1 < length argv" "argv ! (i + 1) = v" using i(3) by (metis drop_eq_Cons)+
    show ?thesis
      unfolding unfold scan kernel_scan.simps(2) if_not_P [OF debug(1)] if_P [OF debug(2)] if_P [OF v(1)] v(2)
        "2.hyps"(1) [OF debug i(3)] by (simp only: debug(3) list.case flip: i(3))
  next
    case other
    show ?thesis
      unfolding unfold scan kernel_scan.simps(2) if_not_P [OF other(1)] if_not_P [OF other(2)]
        "2.hyps"(2) [OF other i(3)] by (simp only: i(3))
  qed
qed

lemma last_after_Cons:
  "last_after key (x # xs) =
    (case last_after key xs of
       Some v \<Rightarrow> Some v
     | None \<Rightarrow> if x = key \<and> xs \<noteq> [] then Some (hd xs) else None)"
  by (cases xs) (auto split: option.split)

lemma kernel_scan_eq:
  "kernel_scan xs opts =
    (if ''-h'' \<in> set xs \<or> ''--help'' \<in> set xs then Usage
     else if xs \<noteq> [] \<and> last xs = ''--debug'' then Bad_Option
     else Options \<lparr>ko_debug = (case last_after ''--debug'' xs of None \<Rightarrow> ko_debug opts | Some v \<Rightarrow> v \<noteq> ''off''),
       ko_verbose = (ko_verbose opts \<or> ''--verbose'' \<in> set xs)\<rparr>)"
proof (induction xs opts rule: kernel_scan.induct)
  case (2 x xs opts)
  consider (asks) "x = ''-h'' \<or> x = ''--help''" | (no_value) "x = ''--debug''" "xs = []"
    | (debug) v rest where "x = ''--debug''" "xs = v # rest"
    | (other) "x \<noteq> ''-h''" "x \<noteq> ''--help''" "x \<noteq> ''--debug''"
    by (cases xs) blast+
  then show ?case
  proof cases
    case debug
    then have no_help: "\<not> (x = ''-h'' \<or> x = ''--help'')" by simp
    have step: "kernel_scan (x # xs) opts = kernel_scan xs (opts\<lparr>ko_debug := v \<noteq> ''off''\<rparr>)"
      using debug by simp
    show ?thesis unfolding step "2.IH"(1) [OF no_help debug]
      by (simp add: debug last_after_Cons split: option.split)
  next
    case other
    then have no_help: "\<not> (x = ''-h'' \<or> x = ''--help'')" by simp
    have step: "kernel_scan (x # xs) opts =
        kernel_scan xs (if x = ''--verbose'' then opts\<lparr>ko_verbose := True\<rparr> else opts)"
      using other by simp
    show ?thesis unfolding step "2.IH"(2) [OF no_help other(3)]
      using other by (auto simp: last_after_Cons split: option.split)
  qed auto
qed simp

lemma kernel_args_is_meaning:
  "kernel_args argv 0 \<lparr>ko_debug = True, ko_verbose = False\<rparr> = kernel_meaning argv"
proof (cases "length argv = 1")
  case True
  then show ?thesis by (subst kernel_args.simps) (simp add: kernel_meaning_def)
next
  case False
  then show ?thesis
    by (auto simp: kernel_args_scan kernel_scan_eq kernel_meaning_def split: option.split)
qed

text \<open>
  The kernel's command line.  The loop over the arguments, with its skips and early
  returns, is the reading above: usage when the program's name stands alone or help is asked
  for anywhere, an error when \<^verbatim>\<open>--debug\<close> comes last, and otherwise debugging unless \<^verbatim>\<open>off\<close>
  follows the last \<^verbatim>\<open>--debug\<close>.  No other option has any effect.
\<close>

theorem kernel_args_meaning:
  "kernel_args argv 0 \<lparr>ko_debug = True, ko_verbose = False\<rparr> = kernel_meaning argv"
  by (rule kernel_args_is_meaning)

subsection \<open>The proxy's options\<close>

text \<open>\<^verbatim>\<open>strtol\<close> to the base ten: space, a sign, digits, and the limits of a \<^verbatim>\<open>long\<close>.\<close>

definition is_space :: "char \<Rightarrow> bool" where
  "is_space c \<longleftrightarrow> c \<in> {CHR '' '', CHR 0x09, CHR 0x0A, CHR 0x0B, CHR 0x0C, CHR 0x0D}"

definition is_digit :: "char \<Rightarrow> bool" where
  "is_digit c \<longleftrightarrow> (48 :: nat) \<le> of_char c \<and> (of_char c :: nat) \<le> 57"

definition sign_of :: "string \<Rightarrow> bool \<times> string" where
  "sign_of s = (case s of
      [] \<Rightarrow> (False, s)
    | c # cs \<Rightarrow> if c = CHR ''-'' then (True, cs) else if c = CHR ''+'' then (False, cs) else (False, s))"

definition strtol10 :: "string \<Rightarrow> int" where
  "strtol10 s =
     (let (negative, rest) = sign_of (dropWhile is_space s);
          v = fold (\<lambda>c a. a * 10 + (of_char c - 48)) (takeWhile is_digit rest) (0 :: int)
      in if negative then max (- (2 ^ 63)) (- v) else min (2 ^ 63 - 1) v)"

record proxy_options =
  pr_cmdvel :: bool
  pr_localizer :: bool
  pr_timer :: bool
  pr_time_period :: int

definition no_proxy_options :: proxy_options where
  "no_proxy_options = \<lparr>pr_cmdvel = False, pr_localizer = False, pr_timer = False, pr_time_period = 0\<rparr>"

function proxy_args :: "string list \<Rightarrow> nat \<Rightarrow> proxy_options \<Rightarrow> proxy_options parsed" where
  "proxy_args argv i opts =
     (if i < length argv then
        if argv ! i = ''-h'' \<or> argv ! i = ''--help'' \<or> length argv = 1 then Usage
        else
          let o1 = (if argv ! i = ''--cmd_vel'' \<and> \<not> pr_cmdvel opts then opts\<lparr>pr_cmdvel := True\<rparr> else opts);
              o2 = (if argv ! i = ''--localizer'' \<and> \<not> pr_localizer o1 then o1\<lparr>pr_localizer := True\<rparr> else o1)
          in
            if (argv ! i = ''--time'' \<or> argv ! i = ''-t'') \<and> \<not> pr_timer o2 then
              (let o3 = o2\<lparr>pr_timer := True\<rparr>; i = i + 1 in
               if i < length argv then
                 let o4 = o3\<lparr>pr_time_period := strtol10 (argv ! i)\<rparr> in
                 if pr_time_period o4 \<noteq> 0 then proxy_args argv i o4 else Bad_Option
               else Bad_Option)
            else proxy_args argv (i + 1) o2
      else Options opts)"
  by pat_completeness auto
termination by (relation "measure (\<lambda>(argv, i, _). length argv - i)") (auto simp: Let_def)

declare proxy_args.simps [simp del]

text \<open>
  What the options mean.  Only the first \<^verbatim>\<open>--time\<close> or \<^verbatim>\<open>-t\<close> counts, and only arguments before
  it can still ask for help when its value is missing or zero.
\<close>

definition asks_time :: "string \<Rightarrow> bool" where
  "asks_time x \<longleftrightarrow> x = ''--time'' \<or> x = ''-t''"

definition asks_help :: "string list \<Rightarrow> bool" where
  "asks_help xs \<longleftrightarrow> ''-h'' \<in> set xs \<or> ''--help'' \<in> set xs"

definition proxy_meaning :: "string list \<Rightarrow> proxy_options parsed" where
  "proxy_meaning argv =
     (let chosen = (\<lambda>timer period. \<lparr>pr_cmdvel = (''--cmd_vel'' \<in> set argv),
            pr_localizer = (''--localizer'' \<in> set argv), pr_timer = timer, pr_time_period = period\<rparr>)
      in if length argv = 1 \<or> asks_help (takeWhile (\<lambda>x. \<not> asks_time x) argv) then Usage
         else case dropWhile (\<lambda>x. \<not> asks_time x) argv of
             [] \<Rightarrow> Options (chosen False 0)
           | _ # [] \<Rightarrow> Bad_Option
           | _ # v # rest \<Rightarrow>
               if strtol10 v = 0 then Bad_Option
               else if asks_help (v # rest) then Usage
               else Options (chosen True (strtol10 v)))"

fun proxy_scan :: "string list \<Rightarrow> proxy_options \<Rightarrow> proxy_options parsed" where
  "proxy_scan [] opts = Options opts"
| "proxy_scan (x # xs) opts =
     (if asks_help [x] then Usage
      else
        let o2 = opts\<lparr>pr_cmdvel := pr_cmdvel opts \<or> x = ''--cmd_vel'',
              pr_localizer := pr_localizer opts \<or> x = ''--localizer''\<rparr>
        in
          if asks_time x \<and> \<not> pr_timer opts then
            (case xs of
               [] \<Rightarrow> Bad_Option
             | v # _ \<Rightarrow>
                 if strtol10 v = 0 then Bad_Option
                 else proxy_scan xs (o2\<lparr>pr_timer := True, pr_time_period := strtol10 v\<rparr>))
          else proxy_scan xs o2)"

declare proxy_scan.simps(2) [simp del]

lemma proxy_args_scan:
  assumes "length argv \<noteq> 1"
  shows "proxy_args argv i opts = proxy_scan (drop i argv) opts"
proof (induction "drop i argv" opts arbitrary: i rule: proxy_scan.induct)
  case (1 opts)
  then have "\<not> i < length argv" by simp
  then show ?case by (subst proxy_args.simps) simp
next
  case (2 x xs opts)
  have i: "i < length argv" "x = argv ! i" "xs = drop (i + 1) argv"
    using "2.hyps"(3) [symmetric] by (simp_all add: drop_eq_Cons)
  let ?o2 = "opts\<lparr>pr_cmdvel := pr_cmdvel opts \<or> x = ''--cmd_vel'',
      pr_localizer := pr_localizer opts \<or> x = ''--localizer''\<rparr>"
  have o2: "(let o1 = (if x = ''--cmd_vel'' \<and> \<not> pr_cmdvel opts then opts\<lparr>pr_cmdvel := True\<rparr> else opts)
      in (if x = ''--localizer'' \<and> \<not> pr_localizer o1 then o1\<lparr>pr_localizer := True\<rparr> else o1)) = ?o2"
    by (cases opts) (auto simp: Let_def)
  show ?case
  proof (cases "asks_help [x]")
    case True
    with i assms show ?thesis unfolding "2.hyps"(3) [symmetric]
      by (subst proxy_args.simps) (auto simp: proxy_scan.simps(2) asks_help_def)
  next
    case no_help: False
    then have neg: "\<not> (x = ''-h'' \<or> x = ''--help'')" by (auto simp: asks_help_def)
    then have unfold: "proxy_args argv i opts =
        (if asks_time x \<and> \<not> pr_timer opts then
           if i + 1 < length argv then
             if strtol10 (argv ! (i + 1)) \<noteq> 0 then
               proxy_args argv (i + 1) (?o2\<lparr>pr_timer := True, pr_time_period := strtol10 (argv ! (i + 1))\<rparr>)
             else Bad_Option
           else Bad_Option
         else proxy_args argv (i + 1) ?o2)"
      using i(1) assms o2 neg
      by (subst proxy_args.simps) (simp add: i(2) [symmetric] asks_time_def Let_def)
    show ?thesis
    proof (cases "asks_time x \<and> \<not> pr_timer opts")
      case False
      with unfold no_help "2.hyps"(2) [OF no_help refl False i(3)] show ?thesis
        unfolding "2.hyps"(3) [symmetric] by (auto simp: proxy_scan.simps(2) Let_def i(3))
    next
      case time: True
      show ?thesis
      proof (cases xs)
        case Nil
        then have "\<not> i + 1 < length argv" using i(3) by simp
        with unfold time no_help Nil show ?thesis
          unfolding "2.hyps"(3) [symmetric] by (simp add: proxy_scan.simps(2) Let_def)
      next
        case (Cons v rest)
        then have v: "i + 1 < length argv" "argv ! (i + 1) = v" using i(3) by (metis drop_eq_Cons)+
        show ?thesis
        proof (cases "strtol10 v = 0")
          case True
          with unfold time no_help Cons v show ?thesis
            unfolding "2.hyps"(3) [symmetric] by (simp add: proxy_scan.simps(2) Let_def)
        next
          case False
          with unfold time no_help Cons v "2.hyps"(1) [OF no_help refl time Cons False i(3)] show ?thesis
            unfolding "2.hyps"(3) [symmetric] by (simp add: proxy_scan.simps(2) Let_def i(3))
        qed
      qed
    qed
  qed
qed

lemma asks_help_Cons: "asks_help (x # xs) \<longleftrightarrow> asks_help [x] \<or> asks_help xs"
  by (auto simp: asks_help_def)

lemma proxy_scan_timed:
  assumes "pr_timer opts"
  shows "proxy_scan xs opts =
    (if asks_help xs then Usage
     else Options (opts\<lparr>pr_cmdvel := pr_cmdvel opts \<or> ''--cmd_vel'' \<in> set xs,
       pr_localizer := pr_localizer opts \<or> ''--localizer'' \<in> set xs\<rparr>))"
  using assms
proof (induction xs arbitrary: opts)
  case Nil
  then show ?case by (simp add: asks_help_def)
next
  case (Cons x xs)
  show ?case
    unfolding proxy_scan.simps(2) asks_help_Cons [of x xs] Let_def
    using Cons.prems by (auto simp: Cons.IH eq_commute [of "''--cmd_vel''" x] eq_commute [of "''--localizer''" x])
qed

lemma proxy_scan_eq:
  assumes "\<not> pr_timer opts"
  shows "proxy_scan xs opts =
    (let chosen = opts\<lparr>pr_cmdvel := pr_cmdvel opts \<or> ''--cmd_vel'' \<in> set xs,
       pr_localizer := pr_localizer opts \<or> ''--localizer'' \<in> set xs\<rparr>
     in if asks_help (takeWhile (\<lambda>x. \<not> asks_time x) xs) then Usage
        else case dropWhile (\<lambda>x. \<not> asks_time x) xs of
            [] \<Rightarrow> Options chosen
          | _ # [] \<Rightarrow> Bad_Option
          | _ # v # rest \<Rightarrow>
              if strtol10 v = 0 then Bad_Option
              else if asks_help (v # rest) then Usage
              else Options (chosen\<lparr>pr_timer := True, pr_time_period := strtol10 v\<rparr>))"
  using assms
proof (induction xs arbitrary: opts)
  case Nil
  then show ?case by (simp add: asks_help_def)
next
  case (Cons x xs)
  show ?case
  proof (cases "asks_time x")
    case True
    then have "\<not> asks_help [x]" by (auto simp: asks_time_def asks_help_def)
    note no_help = this
    have empty: "\<not> asks_help []" by (simp add: asks_help_def)
    show ?thesis
    proof (cases xs)
      case Nil
      with True Cons.prems no_help empty show ?thesis by (simp add: proxy_scan.simps(2))
    next
      case (Cons v rest)
      let ?o2 = "opts\<lparr>pr_cmdvel := pr_cmdvel opts \<or> x = ''--cmd_vel'',
        pr_localizer := pr_localizer opts \<or> x = ''--localizer''\<rparr>"
      have step: "proxy_scan (x # v # rest) opts = (if strtol10 v = 0 then Bad_Option
          else proxy_scan (v # rest) (?o2\<lparr>pr_timer := True, pr_time_period := strtol10 v\<rparr>))"
        using True Cons.prems no_help by (simp add: proxy_scan.simps(2) [of x] Let_def)
      show ?thesis
        unfolding Cons step Let_def using True empty
        by (simp add: proxy_scan_timed eq_commute [of "''--cmd_vel''" x] eq_commute [of "''--localizer''" x]
            disj_assoc)
    qed
  next
    case False
    show ?thesis
      unfolding proxy_scan.simps(2) Let_def takeWhile.simps if_P [OF False] dropWhile.simps
        asks_help_Cons [of x "takeWhile _ _"]
      using False Cons.prems Cons.IH
      by (cases "asks_help [x]")
        (simp_all add: Let_def disj_assoc eq_commute [of "''--cmd_vel''" x] eq_commute [of "''--localizer''" x]
          del: dropWhile_eq_Nil_conv split: list.split)
  qed
qed

lemma proxy_args_is_meaning: "proxy_args argv 0 no_proxy_options = proxy_meaning argv"
proof (cases "length argv = 1")
  case True
  then show ?thesis by (subst proxy_args.simps) (simp add: proxy_meaning_def)
next
  case False
  then show ?thesis
    by (simp add: proxy_args_scan proxy_scan_eq proxy_meaning_def no_proxy_options_def Let_def
        del: dropWhile_eq_Nil_conv split: list.split)
qed

text \<open>
  The proxy's command line.  The loop over the arguments is the reading above: which
  proxies are asked for, in any order and however often, the period of the first
  \<^verbatim>\<open>--time\<close>, and an error when that has no value or one that reads as zero.
\<close>

theorem proxy_args_meaning: "proxy_args argv 0 no_proxy_options = proxy_meaning argv"
  by (rule proxy_args_is_meaning)

section \<open>The programs\<close>

subsection \<open>\<^verbatim>\<open>kermit_kernel\<close>\<close>

text \<open>
  How a run of a program is observed: it ended with an exit code, or it waits for ever.  The
  last component is what the program holds then.
\<close>

datatype 'p outcome = Exit int | Returned int 'p | Waiting 'p

definition kermit_kernel_main :: "port_answers \<Rightarrow> (nat \<Rightarrow> bool) \<Rightarrow> (nat \<Rightarrow> nat) \<Rightarrow> string list \<Rightarrow>
    (kermit rmt_client \<times> kermit) outcome res" where
  "kermit_kernel_main ans run elapsed argv =
     (case kernel_args argv 0 \<lparr>ko_debug = True, ko_verbose = False\<rparr> of
        Usage \<Rightarrow> Inr (Exit 0)
      | Bad_Option \<Rightarrow> Inr (Exit 1)
      | Options opts \<Rightarrow>
          bindR (new_kermit (ko_verbose opts) (ko_debug opts)) (\<lambda>(c, k).
            let (_, k) = set_serial_attributes ''/dev/ttyACM0'' 100000 k;
                (_, k) = set_alive_time 0 k
            in bindR (kernel_start ans run elapsed c k) (\<lambda>(_, c, k, ended).
                 case ended of
                   Some _ \<Rightarrow> Inr (Returned 0 (c, k))
                 | None \<Rightarrow> Inr (Waiting (c, k)))))"

text \<open>
  The handler of SIGINT and SIGQUIT destroys the kernel, if it was built, and exits; so does
  a return from \<^verbatim>\<open>main\<close>, whose static pointer is destroyed at exit.
\<close>

definition kernel_signal_handler :: "(kermit rmt_client \<times> kermit) option \<Rightarrow> (int \<times> int list) res" where
  "kernel_signal_handler a =
     (case a of
        None \<Rightarrow> Inr (0, [])
      | Some (c, k) \<Rightarrow> bindR (destroy_kernel c k) (\<lambda>(_, _, _, closed). Inr (0, closed)))"

subsection \<open>\<^verbatim>\<open>kermit_proxy\<close>\<close>

definition add_cmdvel_proxy :: "simple_localizer pipe \<Rightarrow> simple_localizer pipe" where
  "add_cmdvel_proxy proxies =
     snd (create_pub_sub_endpoint cmd_vel_topic (to_bind_addr CMD_VEL_FRONT) (to_bind_addr CMD_VEL_BACK) proxies)"

definition add_localizer_proxy :: "simple_localizer pipe \<Rightarrow> simple_localizer pipe res" where
  "add_localizer_proxy proxies =
     bindR new_simple_localizer (\<lambda>flt.
       let (_, proxies) = create_pub_sub_endpoint localizer_topic (to_bind_addr LOCALIZER_FRONT)
             (to_bind_addr LOCALIZER_BACK) proxies
       in bindR (pipe_set_filter localizer_topic flt proxies) (\<lambda>(_, proxies). Inr proxies))"

text \<open>
  What the program meets: the addresses other sockets of the machine are bound to, whose thread
  is held in a receive when it is told to stop, and the order in which the table of the proxies
  is run through.
\<close>

record proxy_env =
  en_in_use :: "address \<Rightarrow> bool"
  en_held :: "string \<Rightarrow> bool"
  en_order :: "string list"

text \<open>
  \<^verbatim>\<open>main\<close>, what its own thread does: after the proxies are made it loops for ever, or sleeps
  (\<^verbatim>\<open>sleep\<close> takes an \<^verbatim>\<open>unsigned int\<close>), stops them all and returns 1, if stopping them returns.
  The seconds slept go with the result.
\<close>

definition kermit_proxy_main :: "proxy_env \<Rightarrow> string list \<Rightarrow> (nat \<times> simple_localizer pipe) outcome res" where
  "kermit_proxy_main env argv =
     (case proxy_args argv 0 no_proxy_options of
        Usage \<Rightarrow> Inr (Exit 0)
      | Bad_Option \<Rightarrow> Inr (Exit 1)
      | Options opts \<Rightarrow>
          let proxies = (\<lambda>_. None);
              proxies = (if pr_cmdvel opts then add_cmdvel_proxy proxies else proxies)
          in bindR (if pr_localizer opts then add_localizer_proxy proxies else Inr proxies) (\<lambda>proxies.
               if pr_time_period opts = -1 then Inr (Waiting (0, proxies))
               else bindR (pipe_stop_all (en_held env) (en_order env) proxies) (\<lambda>(answer, proxies).
                 let slept = nat (pr_time_period opts mod 2 ^ 32) in
                 case answer of
                   Some _ \<Rightarrow> Inr (Returned 1 (slept, proxies))
                 | None \<Rightarrow> Inr (Waiting (slept, proxies)))))"

text \<open>The handler of SIGINT and SIGQUIT stops the proxies, if they were made, and exits with 0.\<close>

definition proxy_signal_handler :: "proxy_env \<Rightarrow> simple_localizer pipe option \<Rightarrow>
    simple_localizer pipe outcome res" where
  "proxy_signal_handler env proxies =
     (case proxies of
        None \<Rightarrow> Inr (Exit 0)
      | Some pipe \<Rightarrow>
          bindR (pipe_stop_all (en_held env) (en_order env) pipe) (\<lambda>(answer, pipe).
            case answer of Some _ \<Rightarrow> Inr (Returned 0 pipe) | None \<Rightarrow> Inr (Waiting pipe)))"

text \<open>
  The whole process: the threads of the proxies open their sockets, one after the other in some
  order (that of the table stands for it), and an exception of \<^verbatim>\<open>bind\<close> in one of them ends it.
  \<^verbatim>\<open>main\<close> gets nowhere without them: it waits for ever or joins them.
\<close>

fun open_all :: "(address \<Rightarrow> bool) \<Rightarrow> string list \<Rightarrow> 'f pipe \<Rightarrow> unit res" where
  "open_all in_use [] pipe = Inr ()"
| "open_all in_use (ident # idents) pipe =
     (case pipe ident of
        None \<Rightarrow> open_all in_use idents pipe
      | Some e \<Rightarrow>
          bindR (proxy_at pipe ident) (\<lambda>px.
          bindR (enter_proxy in_use \<lparr>po_interface = px, po_context = 1, po_frontend_sock = None,
              po_backend_sock = None, po_items = []\<rparr>) (\<lambda>o1.
            open_all (\<lambda>a. in_use a \<or> a \<in> set (close_ends o1)) idents pipe)))"

definition kermit_proxy_process :: "proxy_env \<Rightarrow> string list \<Rightarrow> (nat \<times> simple_localizer pipe) outcome res" where
  "kermit_proxy_process env argv =
     bindR (kermit_proxy_main env argv) (\<lambda>result.
       case result of
         Exit n \<Rightarrow> Inr result
       | Returned n (slept, pipe) \<Rightarrow> bindR (open_all (en_in_use env) (en_order env) pipe) (\<lambda>_. Inr result)
       | Waiting (slept, pipe) \<Rightarrow> bindR (open_all (en_in_use env) (en_order env) pipe) (\<lambda>_. Inr result))"

section \<open>What the programs do\<close>

text \<open>The kernel's destructor, for any kernel a program holds.\<close>

lemma destroy_debug_kernel:
  assumes "wf_client (rc_net c)" and "all_live (rc_net c)"
    and "ke_async_sender k = None" and "tn_dev (ke_teensy k) = None"
  shows "destroy_kernel c k = Inl Uninitialised"
  using assms quit_all_live [OF assms(1,2)]
  by (auto simp: destroy_kernel_def kermit_quit_def close_device_def Let_def)



text \<open>The pipe a run of the proxy program fills.\<close>

definition proxies_of :: "proxy_options \<Rightarrow> simple_localizer \<Rightarrow> simple_localizer pipe" where
  "proxies_of opts flt ident =
     (if ident = cmd_vel_topic \<and> pr_cmdvel opts then
        Some \<lparr>pe_proxy = Some (new_proxy Pub_Sub cmd_vel_topic (to_bind_addr 5470) (to_bind_addr 5472)),
          pe_joinable = True\<rparr>
      else if ident = localizer_topic \<and> pr_localizer opts then
        Some \<lparr>pe_proxy = Some (snd (add_filter flt
            (new_proxy Pub_Sub localizer_topic (to_bind_addr 5452) (to_bind_addr 5454)))),
          pe_joinable = True\<rparr>
      else None)"

lemma topics_distinct: "cmd_vel_topic \<noteq> localizer_topic" "localizer_topic \<noteq> cmd_vel_topic"
  by (simp_all add: cmd_vel_topic_def localizer_topic_def)

lemma kermit_proxy_main_eq:
  assumes "proxy_meaning argv = Options opts" and "new_simple_localizer = Inr flt"
  shows "kermit_proxy_main env argv =
    (if pr_time_period opts = -1 then Inr (Waiting (0, proxies_of opts flt))
     else bindR (pipe_stop_all (en_held env) (en_order env) (proxies_of opts flt)) (\<lambda>(answer, pipe).
       Inr ((case answer of Some _ \<Rightarrow> Returned 1 | None \<Rightarrow> Waiting) (nat (pr_time_period opts mod 2 ^ 32), pipe))))"
proof -
  have made: "(if pr_localizer opts
      then add_localizer_proxy (if pr_cmdvel opts then add_cmdvel_proxy (\<lambda>_. None) else (\<lambda>_. None))
      else Inr (if pr_cmdvel opts then add_cmdvel_proxy (\<lambda>_. None) else (\<lambda>_. None))) =
    Inr (proxies_of opts flt)"
    unfolding add_localizer_proxy_def assms(2) bindR_Inr using topics_distinct
    by (auto simp: add_cmdvel_proxy_def create_pub_sub_endpoint_def create_endpoint_def
        pipe_set_filter_def proxy_at_def put_proxy_def proxies_of_def const_simps)
  have cases: "(case answer of Some (_ :: bool) \<Rightarrow> Inr (Returned 1 p) | None \<Rightarrow> Inr (Waiting p)) =
      Inr ((case answer of Some _ \<Rightarrow> Returned 1 | None \<Rightarrow> Waiting) p)" for answer and p :: "nat \<times> simple_localizer pipe"
    by (cases answer) simp_all
  show ?thesis
    unfolding kermit_proxy_main_def proxy_args_is_meaning assms(1) parsed.case Let_def made bindR_Inr cases ..
qed

text \<open>The ends of the proxies in a pipe, which stopping them leaves as they are.\<close>

definition ends :: "'f pipe \<Rightarrow> string \<Rightarrow> (address \<times> address) option" where
  "ends pipe ident = map_option (\<lambda>px. (px_frontend px, px_backend px)) (Option.bind (pipe ident) pe_proxy)"

lemma ends_stopped:
  "pipe ident = Some e \<Longrightarrow> ends (pipe(ident \<mapsto> stopped_entry e)) = ends pipe"
  "pipe ident = Some e \<Longrightarrow> ends (pipe(ident \<mapsto> (stopped_entry e)\<lparr>pe_joinable := b\<rparr>)) = ends pipe"
  by (auto simp: ends_def fun_eq_iff stopped_entry_def option.map_comp comp_def)

lemma pipe_stop_all_keeps:
  "no_nulls pipe \<Longrightarrow> pipe_stop_all held idents pipe = Inr (answer, pipe') \<Longrightarrow>
    ends pipe' = ends pipe \<and> no_nulls pipe'"
proof (induction idents arbitrary: pipe)
  case (Cons ident idents)
  show ?case
  proof (cases "pipe ident")
    case None
    with Cons show ?thesis by simp
  next
    case (Some e)
    have e: "pe_proxy e \<noteq> None" using Cons.prems(1) Some by (auto simp: no_nulls_def intro: ranI)
    note step = pipe_stop_all_Cons [of pipe ident e held idents, OF Some e]
    show ?thesis
    proof (cases "pe_joinable e \<and> held ident")
      case True
      then have "pipe' = pipe(ident \<mapsto> (stopped_entry e)\<lparr>pe_joinable := True\<rparr>)"
        using Cons.prems(2) unfolding step by simp
      moreover have "no_nulls (pipe(ident \<mapsto> (stopped_entry e)\<lparr>pe_joinable := True\<rparr>))"
        using Cons.prems(1) e by (auto simp: no_nulls_def ran_def stopped_entry_def)
      ultimately show ?thesis using ends_stopped(2) [of pipe ident e True, OF Some] by (simp only:)
    next
      case False
      then have "pipe_stop_all held idents (pipe(ident \<mapsto> stopped_entry e)) = Inr (answer, pipe')"
        using Cons.prems(2) unfolding step by (simp only: if_False)
      from Cons.IH [OF no_nulls_stopped [of pipe, OF Cons.prems(1) Some] this] show ?thesis
        unfolding ends_stopped(1) [of pipe, OF Some] .
    qed
  qed
qed simp

text \<open>Proxies with no end in common open all their sockets, unless an address is in use.\<close>

definition ends_apart :: "(string \<Rightarrow> (address \<times> address) option) \<Rightarrow> bool" where
  "ends_apart es \<longleftrightarrow> (\<forall>i f b. es i = Some (f, b) \<longrightarrow> f \<noteq> b) \<and>
     (\<forall>i j f b f' b'. es i = Some (f, b) \<and> es j = Some (f', b') \<and> i \<noteq> j \<longrightarrow> {f, b} \<inter> {f', b'} = {})"

definition some_in_use :: "(address \<Rightarrow> bool) \<Rightarrow> string list \<Rightarrow> (string \<Rightarrow> (address \<times> address) option) \<Rightarrow> bool" where
  "some_in_use in_use idents es \<longleftrightarrow>
     (\<exists>i \<in> set idents. case es i of None \<Rightarrow> False | Some (f, b) \<Rightarrow> in_use f \<or> in_use b)"

lemma some_in_use_more:
  assumes "ends_apart es" and "es ident = Some (f, b)" and "ident \<notin> set idents"
  shows "some_in_use (\<lambda>a. in_use a \<or> a \<in> {f, b}) idents es = some_in_use in_use idents es"
proof -
  have "(case es i of None \<Rightarrow> False | Some (f', b') \<Rightarrow> (in_use f' \<or> f' \<in> {f, b}) \<or> in_use b' \<or> b' \<in> {f, b}) =
      (case es i of None \<Rightarrow> False | Some (f', b') \<Rightarrow> in_use f' \<or> in_use b')" if "i \<in> set idents" for i
  proof (cases "es i")
    case (Some fb)
    obtain f' b' where fb: "fb = (f', b')" by (cases fb)
    have "i \<noteq> ident" using that assms(3) by auto
    then have "{f, b} \<inter> {f', b'} = {}" using assms(1,2) Some fb unfolding ends_apart_def by blast
    then show ?thesis by (simp add: Some fb)
  qed simp
  then show ?thesis unfolding some_in_use_def by (intro bex_cong) simp_all
qed

lemma open_all_eq:
  "no_nulls pipe \<Longrightarrow> distinct idents \<Longrightarrow> ends_apart (ends pipe) \<Longrightarrow>
    open_all in_use idents pipe = (if some_in_use in_use idents (ends pipe) then Inl Terminated else Inr ())"
proof (induction idents arbitrary: in_use)
  case Nil
  then show ?case by (simp add: some_in_use_def)
next
  case (Cons ident idents)
  show ?case
  proof (cases "pipe ident")
    case None
    with Cons show ?thesis by (simp add: some_in_use_def ends_def)
  next
    case (Some e)
    then obtain px where px: "pe_proxy e = Some px" using Cons.prems(1) by (auto simp: no_nulls_def intro: ranI)
    let ?f = "px_frontend px" and ?b = "px_backend px"
    have e: "ends pipe ident = Some (?f, ?b)" using Some px by (simp add: ends_def)
    then have "?f \<noteq> ?b" using Cons.prems(3) by (auto simp: ends_apart_def)
    show ?thesis
    proof (cases "in_use ?f \<or> in_use ?b")
      case True
      then show ?thesis using Some px e by (auto simp: proxy_at_def enter_proxy_eq Let_def some_in_use_def)
    next
      case False
      with \<open>?f \<noteq> ?b\<close> Some px have "open_all in_use (ident # idents) pipe =
          open_all (\<lambda>a. in_use a \<or> a \<in> {?f, ?b}) idents pipe"
        by (simp add: proxy_at_def enter_proxy_eq Let_def close_ends_def make_socket_def)
      also have "\<dots> = (if some_in_use in_use idents (ends pipe) then Inl Terminated else Inr ())"
        using Cons.IH [OF Cons.prems(1) _ Cons.prems(3)] Cons.prems(2)
          some_in_use_more [OF Cons.prems(3) e] by simp
      also have "some_in_use in_use idents (ends pipe) = some_in_use in_use (ident # idents) (ends pipe)"
        using False e by (simp add: some_in_use_def)
      finally show ?thesis .
    qed
  qed
qed

lemma proxies_of_ok: "no_nulls (proxies_of opts flt)" "ends_apart (ends (proxies_of opts flt))"
proof -
  show "no_nulls (proxies_of opts flt)" by (auto simp: no_nulls_def ran_def proxies_of_def split: if_splits)
  have far: "distinct [to_bind_addr 5470, to_bind_addr 5472, to_bind_addr 5452, to_bind_addr 5454]"
    by (simp add: to_bind_addr_def digits.simps char_of_def bit_0)
  have e: "i = cmd_vel_topic \<and> f = to_bind_addr 5470 \<and> b = to_bind_addr 5472 \<or>
      i = localizer_topic \<and> f = to_bind_addr 5452 \<and> b = to_bind_addr 5454"
    if "ends (proxies_of opts flt) i = Some (f, b)" for i f b
    using that by (auto simp: ends_def proxies_of_def add_filter_def split: if_splits)
  show "ends_apart (ends (proxies_of opts flt))" unfolding ends_apart_def
  proof (intro conjI allI impI, goal_cases)
    case (1 i f b)
    from e [OF this] far show ?case by auto
  next
    case (2 i j f b f' b')
    from e [of i f b] e [of j f' b'] 2 far show ?case by auto
  qed
qed

text \<open>The addresses of the proxies that are asked for.\<close>

definition ports_of :: "proxy_options \<Rightarrow> address set" where
  "ports_of opts =
     (if pr_cmdvel opts then {to_bind_addr 5470, to_bind_addr 5472} else {}) \<union>
     (if pr_localizer opts then {to_bind_addr 5452, to_bind_addr 5454} else {})"

lemma some_in_use_ports:
  assumes "{cmd_vel_topic, localizer_topic} \<subseteq> set idents"
  shows "some_in_use in_use idents (ends (proxies_of opts flt)) \<longleftrightarrow> (\<exists>a \<in> ports_of opts. in_use a)"
proof -
  have e: "ends (proxies_of opts flt) cmd_vel_topic =
      (if pr_cmdvel opts then Some (to_bind_addr 5470, to_bind_addr 5472) else None)"
    "ends (proxies_of opts flt) localizer_topic =
      (if pr_localizer opts then Some (to_bind_addr 5452, to_bind_addr 5454) else None)"
    "\<And>i. i \<noteq> cmd_vel_topic \<Longrightarrow> i \<noteq> localizer_topic \<Longrightarrow> ends (proxies_of opts flt) i = None"
    using topics_distinct by (simp_all add: ends_def proxies_of_def add_filter_def)
  have "some_in_use in_use idents (ends (proxies_of opts flt)) \<longleftrightarrow>
      (\<exists>i \<in> {cmd_vel_topic, localizer_topic}.
        case ends (proxies_of opts flt) i of None \<Rightarrow> False | Some (f, b) \<Rightarrow> in_use f \<or> in_use b)"
    unfolding some_in_use_def using assms e(3) by (metis (no_types, lifting) insert_iff option.case(1) subset_iff empty_iff)
  then show ?thesis by (auto simp: e(1,2) ports_of_def)
qed

text \<open>A pipe that is still being stopped: it waits for the thread of an entry that is held.\<close>

definition joining_held :: "proxy_env \<Rightarrow> 'f pipe \<Rightarrow> bool" where
  "joining_held env pipe \<longleftrightarrow> (\<exists>i e. pipe i = Some e \<and> pe_joinable e \<and> en_held env i)"

lemma stop_proxies_of:
  assumes "{cmd_vel_topic, localizer_topic} \<subseteq> set (en_order env)"
  shows "if joining_held env (proxies_of opts flt)
    then \<exists>pipe. pipe_stop_all (en_held env) (en_order env) (proxies_of opts flt) = Inr (None, pipe) \<and>
      joining_held env pipe
    else pipe_stop_all (en_held env) (en_order env) (proxies_of opts flt) =
      Inr (Some True, all_stopped (proxies_of opts flt))"
proof (cases "joining_held env (proxies_of opts flt)")
  case True
  then obtain i e where i: "proxies_of opts flt i = Some e" "pe_joinable e" "en_held env i"
    by (auto simp: joining_held_def)
  then have "i \<in> set (en_order env)" using assms by (auto simp: proxies_of_def split: if_splits)
  from pipe_stop_all_held [of "proxies_of opts flt" i "en_order env" e "en_held env", OF proxies_of_ok(1) this i]
  show ?thesis using True by (simp add: joining_held_def)
next
  case False
  then have "\<forall>i \<in> set (en_order env). \<forall>e. proxies_of opts flt i = Some e \<longrightarrow> \<not> (pe_joinable e \<and> en_held env i)"
    by (auto simp: joining_held_def)
  note run = pipe_stop_all_free [where pipe = "proxies_of opts flt", OF proxies_of_ok(1) this]
  have "proxies_of opts flt i = None" if "i \<notin> set (en_order env)" for i
    using that assms by (auto simp: proxies_of_def)
  then have "(\<lambda>i. if i \<in> set (en_order env) then map_option stopped_entry (proxies_of opts flt i)
      else proxies_of opts flt i) = all_stopped (proxies_of opts flt)"
    by (auto simp: all_stopped_def fun_eq_iff)
  with run False show ?thesis by simp
qed

text \<open>
  C32: the proxy program as its options ask for it.  It builds exactly the proxies named, each
  between the ports the robot's other programs use, the localizer's with the localizer filter.
  If one of these addresses is in use, the exception in a proxy's thread ends the program.
  Otherwise, with a period of -1 it waits for ever holding them, until a signal, whose handler
  stops them all and exits with 0; with another period it sleeps that modulo two to the 32 and
  returns 1 with every proxy stopped and every thread joined; without \<^verbatim>\<open>--time\<close> that happens at
  once.  But where the thread of a proxy is held in a receive, neither the handler nor \<^verbatim>\<open>main\<close>
  gets past its join: both wait for ever.  This holds for every order in which the pipe's table,
  each of its ids once, is walked.
\<close>

theorem kermit_proxy_result:
  assumes "proxy_meaning argv = Options opts" and "distinct (en_order env)"
    and "{cmd_vel_topic, localizer_topic} \<subseteq> set (en_order env)"
  shows "\<exists>flt. new_simple_localizer = Inr flt \<and>
    (if \<exists>a \<in> ports_of opts. en_in_use env a then kermit_proxy_process env argv = Inl Terminated
     else if pr_time_period opts = -1 then
       kermit_proxy_process env argv = Inr (Waiting (0, proxies_of opts flt)) \<and>
       (if joining_held env (proxies_of opts flt)
        then \<exists>pipe. proxy_signal_handler env (Some (proxies_of opts flt)) = Inr (Waiting pipe) \<and> joining_held env pipe
        else proxy_signal_handler env (Some (proxies_of opts flt)) = Inr (Returned 0 (all_stopped (proxies_of opts flt))))
     else if joining_held env (proxies_of opts flt)
       then \<exists>pipe. kermit_proxy_process env argv = Inr (Waiting (nat (pr_time_period opts mod 2 ^ 32), pipe)) \<and>
         joining_held env pipe
       else kermit_proxy_process env argv =
         Inr (Returned 1 (nat (pr_time_period opts mod 2 ^ 32), all_stopped (proxies_of opts flt))))"
proof -
  obtain flt where flt: "new_simple_localizer = Inr flt" using wf_new_localizer by blast
  let ?pipe = "proxies_of opts flt" and ?taken = "\<exists>a \<in> ports_of opts. en_in_use env a"
  note main = kermit_proxy_main_eq [OF assms(1) flt, of env]
  note stop = stop_proxies_of [OF assms(3), of opts flt]
  have opens: "open_all (en_in_use env) (en_order env) p = (if ?taken then Inl Terminated else Inr ())"
    if "ends p = ends ?pipe \<and> no_nulls p" for p :: "simple_localizer pipe"
    using open_all_eq [of p "en_order env" "en_in_use env"] that assms(2) proxies_of_ok(2)
      some_in_use_ports [OF assms(3)] by simp
  have opens_now: "open_all (en_in_use env) (en_order env) ?pipe = (if ?taken then Inl Terminated else Inr ())"
    by (rule opens) (simp add: proxies_of_ok(1))
  show ?thesis
  proof (intro exI [of _ flt] conjI flt)
    show "if ?taken then kermit_proxy_process env argv = Inl Terminated
     else if pr_time_period opts = -1 then
       kermit_proxy_process env argv = Inr (Waiting (0, ?pipe)) \<and>
       (if joining_held env ?pipe
        then \<exists>pipe. proxy_signal_handler env (Some ?pipe) = Inr (Waiting pipe) \<and> joining_held env pipe
        else proxy_signal_handler env (Some ?pipe) = Inr (Returned 0 (all_stopped ?pipe)))
     else if joining_held env ?pipe
       then \<exists>pipe. kermit_proxy_process env argv = Inr (Waiting (nat (pr_time_period opts mod 2 ^ 32), pipe)) \<and>
         joining_held env pipe
       else kermit_proxy_process env argv = Inr (Returned 1 (nat (pr_time_period opts mod 2 ^ 32), all_stopped ?pipe))"
    proof (cases "joining_held env ?pipe")
      case True
      then obtain p where p: "pipe_stop_all (en_held env) (en_order env) ?pipe = Inr (None, p)" "joining_held env p"
        using stop by auto
      note o = opens [OF pipe_stop_all_keeps [OF proxies_of_ok(1) p(1)]]
      show ?thesis using True p(2)
        by (simp add: kermit_proxy_process_def proxy_signal_handler_def main p(1) o opens_now)
    next
      case False
      then have p: "pipe_stop_all (en_held env) (en_order env) ?pipe = Inr (Some True, all_stopped ?pipe)"
        using stop by simp
      note o = opens [OF pipe_stop_all_keeps [OF proxies_of_ok(1) p(1)]]
      show ?thesis using False
        by (simp add: kermit_proxy_process_def proxy_signal_handler_def main p(1) o opens_now)
    qed
  qed
qed

lemma kermit_proxy_result_witness:
  "let env = \<lparr>en_in_use = \<lambda>_. False, en_held = \<lambda>i. i = localizer_topic, en_order = [localizer_topic, cmd_vel_topic]\<rparr> in
    (\<exists>p. kermit_proxy_process env [''kermit_proxy'', ''--time'', ''-1'', ''--localizer''] = Inr (Waiting (0, p)) \<and>
      (\<exists>q. proxy_signal_handler env (Some p) = Inr (Waiting q))) \<and>
    (\<exists>p. kermit_proxy_process env [''kermit_proxy'', ''--cmd_vel''] = Inr (Returned 1 (0, p)) \<and>
      dom p = {cmd_vel_topic}) \<and>
    kermit_proxy_process (env\<lparr>en_in_use := \<lambda>a. a = to_bind_addr 5472\<rparr>) [''kermit_proxy'', ''--cmd_vel''] = Inl Terminated"
proof -
  let ?env = "\<lparr>en_in_use = \<lambda>_. False, en_held = \<lambda>i. i = localizer_topic, en_order = [localizer_topic, cmd_vel_topic]\<rparr>"
  let ?taken = "?env\<lparr>en_in_use := \<lambda>a. a = to_bind_addr 5472\<rparr>"
  have 1: "proxy_meaning [''kermit_proxy'', ''--time'', ''-1'', ''--localizer''] =
      Options \<lparr>pr_cmdvel = False, pr_localizer = True, pr_timer = True, pr_time_period = -1\<rparr>"
    by code_simp
  have 2: "proxy_meaning [''kermit_proxy'', ''--cmd_vel''] =
      Options \<lparr>pr_cmdvel = True, pr_localizer = False, pr_timer = False, pr_time_period = 0\<rparr>"
    by code_simp
  have env: "distinct (en_order ?env)" "{cmd_vel_topic, localizer_topic} \<subseteq> set (en_order ?env)"
    "distinct (en_order ?taken)" "{cmd_vel_topic, localizer_topic} \<subseteq> set (en_order ?taken)"
    using topics_distinct by simp_all
  have loc: "\<exists>p. kermit_proxy_process ?env [''kermit_proxy'', ''--time'', ''-1'', ''--localizer''] = Inr (Waiting (0, p)) \<and>
      (\<exists>q. proxy_signal_handler ?env (Some p) = Inr (Waiting q))"
  proof -
    have "joining_held ?env (proxies_of \<lparr>pr_cmdvel = False, pr_localizer = True, pr_timer = True, pr_time_period = -1\<rparr> flt)" for flt
      using topics_distinct by (auto simp: joining_held_def proxies_of_def)
    with kermit_proxy_result [OF 1 env(1,2)] show ?thesis by auto
  qed
  have cmd: "\<exists>p. kermit_proxy_process ?env [''kermit_proxy'', ''--cmd_vel''] = Inr (Returned 1 (0, p)) \<and> dom p = {cmd_vel_topic}"
  proof -
    let ?p = "proxies_of \<lparr>pr_cmdvel = True, pr_localizer = False, pr_timer = False, pr_time_period = 0\<rparr>"
    have "\<not> joining_held ?env (?p flt)" "dom (all_stopped (?p flt)) = {cmd_vel_topic}" for flt
      using topics_distinct by (auto simp: joining_held_def proxies_of_def all_stopped_def dom_def split: if_splits)
    with kermit_proxy_result [OF 2 env(1,2)] show ?thesis by auto
  qed
  have "\<exists>a \<in> ports_of \<lparr>pr_cmdvel = True, pr_localizer = False, pr_timer = False, pr_time_period = 0\<rparr>. en_in_use ?taken a"
    by (simp add: ports_of_def)
  then have "kermit_proxy_process ?taken [''kermit_proxy'', ''--cmd_vel''] = Inl Terminated"
    using kermit_proxy_result [OF 2 env(3,4)] by auto
  with loc cmd show ?thesis unfolding Let_def by blast
qed

end
