(* ===== verification/Wiimote.thy ===== *)
theory Wiimote
  imports Complex_Main Prelude
begin

unbundle bit_operations_syntax

text \<open>
  Model of the Wii remote's control module: \<^verbatim>\<open>src/controllers/wiimote.cpp\<close> with its headers
  \<^verbatim>\<open>controllers/wii/wiimote.h\<close>, \<^verbatim>\<open>controllers/helpers/helper.h\<close> and
  \<^verbatim>\<open>controllers/helpers/bot_constants.h\<close>.

  A finite float is the rational number it stands for.  Every operation on floats rounds its
  exact result; the rounding depends on the mode of the machine, so it is a parameter.
  What a button test finds and the buttons' codes are macros of the wiiuse library, which is
  not part of the program: they are a parameter, too, and the hypothesis \<open>documented\<close> says
  what that library's manual says of them.  Printing is left out.
\<close>

section \<open>Floats and the library's macros\<close>

record fpu =
  fu_single :: "rat \<Rightarrow> rat"
  fu_double :: "rat \<Rightarrow> rat"

text \<open>What IEEE 754 requires of rounding in every mode.\<close>

definition ieee_rounding :: "(rat \<Rightarrow> rat) \<Rightarrow> bool" where
  "ieee_rounding r \<longleftrightarrow> (\<forall>x y. x \<le> y \<longrightarrow> r x \<le> r y) \<and> (\<forall>x. r (r x) = r x) \<and> r 0 = 0"

record wii_device =
  wd_btns :: u16
  wd_btns_held :: u16
  wd_connected :: bool

record wiiuse =
  wu_pressed :: "wii_device \<Rightarrow> u16 \<Rightarrow> bool"
  wu_just_pressed :: "wii_device \<Rightarrow> u16 \<Rightarrow> bool"
  wu_UP :: u16
  wu_DOWN :: u16
  wu_LEFT :: u16
  wu_RIGHT :: u16
  wu_HOME :: u16
  wu_PLUS :: u16
  wu_MINUS :: u16
  wu_ONE :: u16

definition documented :: "wiiuse \<Rightarrow> bool" where
  "documented W \<longleftrightarrow>
     (\<forall>d b. wu_pressed W d b \<longleftrightarrow> wd_btns d AND b = b) \<and>
     (\<forall>d b. wu_just_pressed W d b \<longleftrightarrow> wu_pressed W d b \<and> wd_btns_held d AND b \<noteq> b) \<and>
     (\<forall>b \<in> {wu_HOME W, wu_PLUS W, wu_MINUS W}. b \<noteq> 0 \<and> b AND wu_ONE W = 0)"

text \<open>The library as it is on a machine that never rounds: used for examples.\<close>

definition wii_example :: wiiuse where
  "wii_example = \<lparr>wu_pressed = (\<lambda>d b. wd_btns d AND b = b),
     wu_just_pressed = (\<lambda>d b. wd_btns d AND b = b \<and> wd_btns_held d AND b \<noteq> b),
     wu_UP = 0x0800, wu_DOWN = 0x0400, wu_LEFT = 0x0100, wu_RIGHT = 0x0200, wu_HOME = 0x0080,
     wu_PLUS = 0x1000, wu_MINUS = 0x0010, wu_ONE = 0x0002\<rparr>"

definition exact :: fpu where
  "exact = \<lparr>fu_single = (\<lambda>x. x), fu_double = (\<lambda>x. x)\<rparr>"

lemma documented_example: "documented wii_example"
  by (simp add: documented_def wii_example_def)

lemma ieee_exact: "ieee_rounding (fu_single exact)" "ieee_rounding (fu_double exact)"
  by (simp_all add: ieee_rounding_def exact_def)

section \<open>The module\<close>

definition MINING :: u8 where [const_simps]: "MINING = 1"
definition DUMPING :: u8 where [const_simps]: "DUMPING = 2"
definition DRIVING :: u8 where [const_simps]: "DRIVING = 4"

record bot_constants =
  bc_linear_max :: rat
  bc_linear_incriment :: rat
  bc_angular_max :: rat
  bc_angular_incriment :: rat

definition default_constants :: "fpu \<Rightarrow> bot_constants" where
  "default_constants F = \<lparr>bc_linear_max = 100, bc_linear_incriment = fu_single F (33 / 1000),
     bc_angular_max = 180, bc_angular_incriment = fu_single F (2 / 100)\<rparr>"

text \<open>
  \<^verbatim>\<open>data\<close> is the array \<^verbatim>\<open>wiiuse_init\<close> gives, of \<^verbatim>\<open>MAXWIIMOTES\<close> devices, or null.  A time is in
  nanoseconds since the clock's epoch, where a default-constructed \<^verbatim>\<open>time_point\<close> is.
\<close>

definition MAXWIIMOTES :: nat where [const_simps]: "MAXWIIMOTES = 1"

record wiimote =
  wm_constants :: bot_constants
  wm_data :: "wii_device list option"
  wm_angular :: rat
  wm_linear :: rat
  wm_previous :: int
  wm_state :: u8
  wm_found :: int
  wm_connected :: int
  wm_verbose :: bool

definition new_wiimote :: "bot_constants \<Rightarrow> bool \<Rightarrow> wii_device list option \<Rightarrow> wiimote" where
  "new_wiimote alternative_constants verbose initialised =
     \<lparr>wm_constants = alternative_constants, wm_data = initialised, wm_angular = 0, wm_linear = 0,
       wm_previous = 0, wm_state = DRIVING, wm_found = 0, wm_connected = 0, wm_verbose = verbose\<rparr>"

definition new_default_wiimote :: "fpu \<Rightarrow> wii_device list option \<Rightarrow> wiimote" where
  "new_default_wiimote F = new_wiimote (default_constants F) False"

text \<open>
  \<^verbatim>\<open>connect\<close>: what \<^verbatim>\<open>wiiuse_find\<close> and \<^verbatim>\<open>wiiuse_connect\<close> answer are parameters; the calls
  after a connection only set the remote's lights and sensors, through \<^verbatim>\<open>data[0]\<close>.
\<close>

definition connect :: "int \<Rightarrow> int \<Rightarrow> wiimote \<Rightarrow> (int \<times> wiimote) res" where
  "connect finds connects w =
     (let w1 = w\<lparr>wm_found := finds\<rparr> in
      if finds = 0 then Inr (-1, w1)
      else
        let w2 = w1\<lparr>wm_connected := connects\<rparr> in
        if connects \<noteq> 0 then
          (case wm_data w2 of
             None \<Rightarrow> Inl Null_Deref
           | Some devs \<Rightarrow> if devs = [] then Inl Out_Of_Bounds else Inr (0, w2))
        else Inr (-1, w2))"

fun any_connected :: "wii_device list \<Rightarrow> nat \<Rightarrow> bool res" where
  "any_connected devs 0 = Inr False"
| "any_connected [] (Suc n) = Inl Out_Of_Bounds"
| "any_connected (d # devs) (Suc n) = (if wd_connected d then Inr True else any_connected devs n)"

definition heartbeat :: "wiimote \<Rightarrow> bool res" where
  "heartbeat w =
     (case wm_data w of
        None \<Rightarrow> Inr False
      | Some devs \<Rightarrow> any_connected devs (nat (wm_connected w)))"

text \<open>
  \<^verbatim>\<open>poll\<close>: the library is asked only while the heart beats; \<open>polled\<close> is what it leaves in the
  devices, and the events it reports lead to output only.
\<close>

definition poll :: "wii_device list option \<Rightarrow> wiimote \<Rightarrow> wiimote res" where
  "poll polled w =
     bindR (heartbeat w) (\<lambda>beats.
       Inr (if beats then (case polled of None \<Rightarrow> w | Some devs \<Rightarrow> w\<lparr>wm_data := Some devs\<rparr>) else w))"

subsection \<open>\<^verbatim>\<open>control\<close>\<close>

definition clamp :: "rat \<Rightarrow> rat \<Rightarrow> rat \<Rightarrow> rat" where
  "clamp v lo hi = (if v > hi then hi else if v < lo then lo else v)"

definition zero_rounding :: "fpu \<Rightarrow> rat \<Rightarrow> rat \<Rightarrow> rat" where
  "zero_rounding F v change =
     (let d_value = fu_single F (v + change) in
      if (v > 0 \<and> d_value < 0) \<or> (v < 0 \<and> d_value > 0) then 0 else v)"

definition incriment_velocity :: "fpu \<Rightarrow> wiiuse \<Rightarrow> wii_device \<Rightarrow> rat \<Rightarrow> rat \<Rightarrow> u16 \<Rightarrow> u16 \<Rightarrow> rat" where
  "incriment_velocity F W d velocity incriment button_increase button_decrease =
     (if wu_pressed W d button_increase then fu_single F (velocity + incriment)
      else if wu_pressed W d button_decrease then fu_single F (velocity - incriment)
      else if velocity > 0 then zero_rounding F (fu_single F (velocity - incriment)) incriment
      else if velocity < 0 then zero_rounding F (fu_single F (velocity + incriment)) incriment
      else velocity)"

definition toggle_state :: "wiiuse \<Rightarrow> u8 \<Rightarrow> u16 \<Rightarrow> u8 \<times> wii_device \<Rightarrow> u8 \<times> wii_device" where
  "toggle_state W toggling button = (\<lambda>(state, d).
     if wu_just_pressed W d button then
       (if state AND toggling = 0 then state OR toggling else state - toggling,
        d\<lparr>wd_btns := wd_btns d AND wu_ONE W\<rparr>)
     else (state, d))"

definition ms_elapsed :: "fpu \<Rightarrow> int \<Rightarrow> int \<Rightarrow> rat" where
  "ms_elapsed F now previous = fu_double F (fu_double F (of_int (now - previous)) / 1000000)"

definition velocity_change :: "fpu \<Rightarrow> rat \<Rightarrow> rat \<Rightarrow> rat" where
  "velocity_change F incriment ms = fu_single F (fu_double F (incriment * ms))"

definition control :: "fpu \<Rightarrow> wiiuse \<Rightarrow> int \<Rightarrow> wiimote \<Rightarrow> wiimote res" where
  "control F W now w =
     (case wm_data w of
        None \<Rightarrow> Inl Null_Deref
      | Some [] \<Rightarrow> Inl Out_Of_Bounds
      | Some (d # devs) \<Rightarrow>
          let ms = ms_elapsed F now (wm_previous w);
              k = wm_constants w;
              linear_change = velocity_change F (bc_linear_incriment k) ms;
              angular_change = velocity_change F (bc_angular_incriment k) ms;
              linear = incriment_velocity F W d (wm_linear w) linear_change (wu_UP W) (wu_DOWN W);
              angular = incriment_velocity F W d (wm_angular w) angular_change (wu_RIGHT W) (wu_LEFT W);
              linear = clamp linear (- bc_linear_max k) (bc_linear_max k);
              angular = clamp angular (- bc_angular_max k) (bc_angular_max k);
              s = toggle_state W DRIVING (wu_HOME W) (wm_state w, d);
              s = toggle_state W MINING (wu_PLUS W) s;
              (state, d) = toggle_state W DUMPING (wu_MINUS W) s
          in Inr (w\<lparr>wm_linear := linear, wm_angular := angular, wm_state := state,
               wm_data := Some (d # devs), wm_previous := now\<rparr>))"

definition wii_loop :: "fpu \<Rightarrow> wiiuse \<Rightarrow> wii_device list option \<Rightarrow> int \<Rightarrow> wiimote \<Rightarrow> wiimote res" where
  "wii_loop F W polled now w = bindR (poll polled w) (control F W now)"

text \<open>What the control module calls: start and update, which always return 1, and the getters.\<close>

definition wii_start :: "int \<Rightarrow> int \<Rightarrow> wiimote \<Rightarrow> (int \<times> wiimote) res" where
  "wii_start finds connects w = bindR (connect finds connects w) (\<lambda>(_, w1). Inr (1, w1))"

definition wii_update_state :: "fpu \<Rightarrow> wiiuse \<Rightarrow> wii_device list option \<Rightarrow> int \<Rightarrow> wiimote \<Rightarrow>
    (int \<times> wiimote) res" where
  "wii_update_state F W polled now w = bindR (wii_loop F W polled now w) (\<lambda>w1. Inr (1, w1))"

definition wii_lin :: "wiimote \<Rightarrow> rat" where "wii_lin w = wm_linear w"
definition wii_ang :: "wiimote \<Rightarrow> rat" where "wii_ang w = wm_angular w"
definition wii_state :: "wiimote \<Rightarrow> u8" where "wii_state w = wm_state w"

section \<open>Runs of the module\<close>

text \<open>A run of the loop: what each poll leaves in the devices, and the time of each round.\<close>

fun wii_run :: "fpu \<Rightarrow> wiiuse \<Rightarrow> (wii_device list option \<times> int) list \<Rightarrow> wiimote \<Rightarrow> wiimote res" where
  "wii_run F W [] w = Inr w"
| "wii_run F W ((polled, now) # rounds) w = bindR (wii_loop F W polled now w) (wii_run F W rounds)"

definition within_limits :: "wiimote \<Rightarrow> bool" where
  "within_limits w \<longleftrightarrow>
     \<bar>wm_linear w\<bar> \<le> bc_linear_max (wm_constants w) \<and>
     \<bar>wm_angular w\<bar> \<le> bc_angular_max (wm_constants w) \<and> wm_state w AND NOT 7 = 0"

lemma clamp_bounds: "0 \<le> m \<Longrightarrow> \<bar>clamp v (- m) m\<bar> \<le> m"
  by (auto simp: clamp_def abs_le_iff)

lemma toggle_is_xor:
  fixes state :: u8
  assumes "toggling \<in> {MINING, DUMPING, DRIVING}"
  shows "(if state AND toggling = 0 then state OR toggling else state - toggling) = state XOR toggling"
proof -
  have "toggling = push_bit 0 1 \<or> toggling = push_bit 1 1 \<or> toggling = push_bit 2 1"
    using assms by (auto simp: const_simps)
  then obtain k where k: "toggling = push_bit k 1" "k < 8" by fastforce
  have b: "bit toggling n \<longleftrightarrow> n = k" for n using k by (auto simp: bit_simps)
  have a: "bit (state AND toggling) n \<longleftrightarrow> n = k \<and> bit state k" for n by (auto simp: bit_and_iff b)
  show ?thesis
  proof (cases "bit state k")
    case False
    then have "state AND toggling = 0" by (intro bit_eqI) (simp add: a)
    moreover have "state OR toggling = state XOR toggling"
      using False by (intro bit_eqI) (auto simp: bit_or_iff bit_xor_iff b)
    ultimately show ?thesis by simp
  next
    case True
    then have "state AND toggling \<noteq> 0" using a [of k] by auto
    moreover have "NOT state AND toggling = 0"
      using True by (intro bit_eqI) (auto simp: bit_and_iff bit_not_iff b)
    then have "state - toggling = state XOR toggling"
      by (simp add: disjunctive_diff_eq_and_not disjunctive_and_not_eq_xor)
    ultimately show ?thesis by simp
  qed
qed

lemma toggle_state_eq:
  assumes "toggling \<in> {MINING, DUMPING, DRIVING}"
  shows "toggle_state W toggling button (state, d) =
    (if wu_just_pressed W d button
     then (state XOR toggling, d\<lparr>wd_btns := wd_btns d AND wu_ONE W\<rparr>) else (state, d))"
  using toggle_is_xor [OF assms, of state] by (simp add: toggle_state_def)

lemma xor_low_bits:
  fixes state :: u8
  assumes "state AND NOT 7 = 0" and "t AND NOT 7 = 0"
  shows "(state XOR t) AND NOT 7 = 0"
proof -
  have "(state XOR t) AND NOT 7 = (state AND NOT 7) XOR (t AND NOT 7)"
    by (rule bit_eqI) (auto simp: bit_simps)
  with assms show ?thesis by simp
qed

lemma toggle_state_low:
  assumes "toggling \<in> {MINING, DUMPING, DRIVING}" and "fst s AND NOT 7 = 0"
  shows "fst (toggle_state W toggling button s) AND NOT 7 = 0"
proof -
  have "toggling AND NOT 7 = 0" using assms(1) by (auto simp: const_simps)
  with assms(2) xor_low_bits show ?thesis
    by (cases s) (simp add: toggle_state_eq [OF assms(1)])
qed

lemma control_limits:
  assumes "0 \<le> bc_linear_max (wm_constants w)" and "0 \<le> bc_angular_max (wm_constants w)"
    and "wm_state w AND NOT 7 = 0" and "control F W now w = Inr w'"
  shows "within_limits w'" and "wm_constants w' = wm_constants w"
proof -
  obtain d devs where d: "wm_data w = Some (d # devs)"
    using assms(4) by (auto simp: control_def split: option.splits list.splits)
  define s where "s = toggle_state W DUMPING (wu_MINUS W) (toggle_state W MINING (wu_PLUS W)
    (toggle_state W DRIVING (wu_HOME W) (wm_state w, d)))"
  have "fst s AND NOT 7 = 0"
    using assms(3) unfolding s_def by (intro toggle_state_low) simp_all
  moreover have "wm_state w' = fst s" "wm_constants w' = wm_constants w"
    "\<bar>wm_linear w'\<bar> \<le> bc_linear_max (wm_constants w)" "\<bar>wm_angular w'\<bar> \<le> bc_angular_max (wm_constants w)"
    using assms(4) clamp_bounds [OF assms(1)] clamp_bounds [OF assms(2)]
    by (auto simp: control_def d Let_def s_def [symmetric] split: prod.splits)
  ultimately show "within_limits w'" and "wm_constants w' = wm_constants w"
    by (simp_all add: within_limits_def)
qed

lemma control_ok:
  assumes "wm_data w = Some (d # devs)"
  shows "\<exists>w' d'. control F W now w = Inr w' \<and> wm_data w' = Some (d' # devs) \<and>
    wm_connected w' = wm_connected w \<and> wd_connected d' = wd_connected d"
proof -
  have "wd_connected (snd (toggle_state W t b s)) = wd_connected (snd s)" for t b s
    by (cases s) (simp add: toggle_state_def)
  then show ?thesis
    using assms by (simp add: control_def Let_def case_prod_beta)
qed

text \<open>A round in which the library has nothing new.\<close>

lemma quiet_loop_ok:
  assumes "wm_data w = Some (d # devs)" and "wm_connected w \<le> 1"
  shows "wii_loop F W None now w = control F W now w"
proof -
  have "nat (wm_connected w) = 0 \<or> nat (wm_connected w) = Suc 0" using assms(2) by linarith
  then show ?thesis using assms by (auto simp: wii_loop_def poll_def heartbeat_def)
qed

lemma poll_keeps:
  assumes "poll polled w = Inr w'"
  shows "wm_constants w' = wm_constants w" and "wm_linear w' = wm_linear w"
    and "wm_angular w' = wm_angular w" and "wm_state w' = wm_state w"
    and "wm_previous w' = wm_previous w" and "wm_connected w' = wm_connected w"
  using assms by (auto simp: poll_def bindR_eq_Inr split: if_splits option.splits)

lemma wii_start_keeps:
  assumes "wii_start nfound nconn w = Inr (r, w')"
  shows "wm_constants w' = wm_constants w" and "wm_linear w' = wm_linear w"
    and "wm_angular w' = wm_angular w" and "wm_state w' = wm_state w"
  using assms by (auto simp: wii_start_def connect_def Let_def bindR_eq_Inr split: if_splits option.splits)

text \<open>
  Rounds of a remote with one device never fail: where it is connected a poll may replace it,
  where it is not the polls are skipped.
\<close>

definition one_device :: "(wii_device list option \<times> int) list \<Rightarrow> bool" where
  "one_device rounds \<longleftrightarrow> (\<forall>(polled, now) \<in> set rounds. \<forall>ds. polled = Some ds \<longrightarrow> length ds = MAXWIIMOTES)"

lemma wii_run_ok:
  "wm_data w = Some [d] \<Longrightarrow> wm_connected w \<le> int MAXWIIMOTES \<Longrightarrow> one_device rounds \<Longrightarrow>
    \<exists>w'. wii_run F W rounds w = Inr w'"
proof (induction rounds arbitrary: w d)
  case (Cons r rounds)
  obtain polled now where r: "r = (polled, now)" by fastforce
  have n: "nat (wm_connected w) = 0 \<or> nat (wm_connected w) = Suc 0"
    using Cons.prems(2) by (auto simp: const_simps)
  then have "\<exists>beats. heartbeat w = Inr beats"
    using Cons.prems(1) by (cases "wd_connected d") (auto simp: heartbeat_def ex_bool_eq)
  then obtain beats where h: "heartbeat w = Inr beats" by blast
  have one: "\<And>ds. polled = Some ds \<Longrightarrow> \<exists>d'. ds = [d']"
    using Cons.prems(3) r by (auto simp: one_device_def const_simps length_Suc_conv)
  obtain w1 d1 where w1: "poll polled w = Inr w1" "wm_data w1 = Some [d1]" "wm_connected w1 = wm_connected w"
  proof (cases "beats \<and> polled \<noteq> None")
    case True
    then obtain d' where "polled = Some [d']" using one by auto
    with True h show thesis by (intro that [of "w\<lparr>wm_data := Some [d']\<rparr>" d']) (simp_all add: poll_def)
  next
    case False
    with h Cons.prems(1) show thesis by (intro that [of w d]) (auto simp: poll_def)
  qed
  from control_ok [OF w1(2), of F W now] obtain w2 d2 where
    w2: "control F W now w1 = Inr w2" "wm_data w2 = Some [d2]" "wm_connected w2 = wm_connected w1" by blast
  have "one_device rounds" using Cons.prems(3) by (simp add: one_device_def)
  with Cons.IH [OF w2(2)] w1 w2 Cons.prems(2) r show ?case by (simp add: wii_loop_def)
qed simp

text \<open>No number of rounds leaves the limits.\<close>

lemma wii_run_limits:
  assumes "within_limits v" and "0 \<le> bc_linear_max (wm_constants v)" and "0 \<le> bc_angular_max (wm_constants v)"
    and "wii_run F W rounds v = Inr w"
  shows "within_limits w" and "wm_constants w = wm_constants v"
proof -
  have "within_limits w \<and> wm_constants w = wm_constants v"
    using assms
  proof (induction rounds arbitrary: v)
    case (Cons r rounds)
    obtain polled now where r: "r = (polled, now)" by fastforce
    obtain v1 v2 where v: "poll polled v = Inr v1" "control F W now v1 = Inr v2" "wii_run F W rounds v2 = Inr w"
      using Cons.prems(4) r by (auto simp: wii_loop_def bindR_eq_Inr)
    note p = poll_keeps [OF v(1)]
    have "wm_state v1 AND NOT 7 = 0" using Cons.prems(1) p(4) by (simp add: within_limits_def)
    from control_limits [OF _ _ this v(2)] have "within_limits v2" "wm_constants v2 = wm_constants v"
      using p(1) Cons.prems(2,3) by simp_all
    with Cons.IH [OF _ _ _ v(3)] Cons.prems(2,3) show ?case by simp
  qed simp
  then show "within_limits w" and "wm_constants w = wm_constants v" by simp_all
qed

text \<open>
  C33: the velocities never leave their limits.  A remote is built, started and looped: whether
  the library finds and connects it or not, whatever each poll of a connected remote leaves in
  its buttons and whatever the clock says, after any number of rounds the linear and the angular
  velocity are within plus and minus their maxima (which are not negative), and the state has no
  bits but the three of a state.
\<close>

theorem wiimote_stays_within_limits:
  assumes "0 \<le> bc_linear_max constants" and "0 \<le> bc_angular_max constants"
    and "wii_start nfound nconn (new_wiimote constants verbose devs) = Inr (status, w0)"
    and "wii_run F W rounds w0 = Inr w"
  shows "\<bar>wii_lin w\<bar> \<le> bc_linear_max constants \<and> \<bar>wii_ang w\<bar> \<le> bc_angular_max constants \<and>
    wii_state w AND NOT (MINING OR DUMPING OR DRIVING) = 0"
proof -
  note kept = wii_start_keeps [OF assms(3)]
  have "within_limits w0" "wm_constants w0 = constants"
    using assms(1,2) by (simp_all add: within_limits_def kept new_wiimote_def DRIVING_def)
  with wii_run_limits [OF _ _ _ assms(4)] assms(1,2) have "within_limits w" "wm_constants w = constants"
    by simp_all
  moreover have "MINING OR DUMPING OR DRIVING = 7" by (simp add: const_simps)
  ultimately show ?thesis by (simp only: within_limits_def wii_lin_def wii_ang_def wii_state_def simp_thms)
qed

text \<open>
  A remote that is connected, pushed forward for six seconds and switched out of driving, as the
  definitions evaluate it: its buttons are those the polls delivered.
\<close>

lemma connected_run:
  "\<exists>w0 w. wii_start 1 1 (new_default_wiimote exact (Some [\<lparr>wd_btns = 0, wd_btns_held = 0, wd_connected = True\<rparr>])) =
      Inr (1, w0) \<and>
    wii_run exact wii_example
      [(Some [\<lparr>wd_btns = 0x0800, wd_btns_held = 0, wd_connected = True\<rparr>], 1000000000),
       (Some [\<lparr>wd_btns = 0x0880, wd_btns_held = 0x0800, wd_connected = True\<rparr>], 6000000000)] w0 = Inr w \<and>
    heartbeat w = Inr True \<and> wii_lin w = 100 \<and> wii_ang w = 0 \<and> wii_state w = 0"
  by (simp add: wii_start_def connect_def new_default_wiimote_def new_wiimote_def default_constants_def
      wii_loop_def poll_def heartbeat_def control_def incriment_velocity_def toggle_state_def clamp_def
      zero_rounding_def ms_elapsed_def velocity_change_def exact_def wii_example_def wii_lin_def wii_ang_def
      wii_state_def const_simps Let_def)

lemma wiimote_stays_within_limits_witness:
  "\<exists>w0 w. wii_start 1 1 (new_default_wiimote exact (Some [\<lparr>wd_btns = 0, wd_btns_held = 0, wd_connected = True\<rparr>])) =
      Inr (1, w0) \<and>
    wii_run exact wii_example
      [(Some [\<lparr>wd_btns = 0x0800, wd_btns_held = 0, wd_connected = True\<rparr>], 1000000000),
       (Some [\<lparr>wd_btns = 0x0880, wd_btns_held = 0x0800, wd_connected = True\<rparr>], 6000000000)] w0 = Inr w \<and>
    heartbeat w = Inr True \<and> wii_lin w = 100 \<and> \<bar>wii_lin w\<bar> \<le> 100 \<and> \<bar>wii_ang w\<bar> \<le> 180 \<and>
    wii_state w AND NOT (MINING OR DUMPING OR DRIVING) = 0"
proof -
  obtain w0 w where w: "wii_start 1 1 (new_wiimote (default_constants exact) False
      (Some [\<lparr>wd_btns = 0, wd_btns_held = 0, wd_connected = True\<rparr>])) = Inr (1, w0)"
    "wii_run exact wii_example
      [(Some [\<lparr>wd_btns = 0x0800, wd_btns_held = 0, wd_connected = True\<rparr>], 1000000000),
       (Some [\<lparr>wd_btns = 0x0880, wd_btns_held = 0x0800, wd_connected = True\<rparr>], 6000000000)] w0 = Inr w"
    "heartbeat w = Inr True" "wii_lin w = 100"
    using connected_run unfolding new_default_wiimote_def by blast
  have max: "bc_linear_max (default_constants exact) = 100" "bc_angular_max (default_constants exact) = 180"
    by (simp_all add: default_constants_def)
  have pos: "0 \<le> bc_linear_max (default_constants exact)" "0 \<le> bc_angular_max (default_constants exact)"
    by (simp_all add: max)
  note lim = wiimote_stays_within_limits [OF pos w(1,2), unfolded max]
  show ?thesis unfolding new_default_wiimote_def by (intro exI conjI) (rule w lim [THEN conjunct1]
      lim [THEN conjunct2, THEN conjunct1] lim [THEN conjunct2, THEN conjunct2])+
qed

text \<open>
  The state's switches.  In one round at most one of the three bits changes: the first of
  home, plus and minus that has just been pressed flips driving, mining or dumping, and the
  mask laid over the buttons then hides the others (and any held direction) from this and the
  following rounds until the remote reports again.
\<close>

theorem one_switch_per_round:
  assumes "documented W" and "wm_data w = Some (d # devs)" and "control F W now w = Inr w'"
  shows "wii_state w' = wii_state w XOR
      (if wu_just_pressed W d (wu_HOME W) then DRIVING
       else if wu_just_pressed W d (wu_PLUS W) then MINING
       else if wu_just_pressed W d (wu_MINUS W) then DUMPING else 0) \<and>
    wm_data w' = Some (d\<lparr>wd_btns := wd_btns d AND
      (if \<exists>b \<in> {wu_HOME W, wu_PLUS W, wu_MINUS W}. wu_just_pressed W d b then wu_ONE W else - 1)\<rparr> # devs)"
proof -
  have masked: "\<not> wu_just_pressed W (e\<lparr>wd_btns := x AND wu_ONE W\<rparr>) b"
    if "b \<in> {wu_HOME W, wu_PLUS W, wu_MINUS W}" for b e x
  proof
    assume "wu_just_pressed W (e\<lparr>wd_btns := x AND wu_ONE W\<rparr>) b"
    then have "(x AND wu_ONE W) AND b = b" using assms(1) by (auto simp: documented_def)
    moreover have "(x AND wu_ONE W) AND b = x AND (b AND wu_ONE W)" by (simp only: ac_simps)
    moreover have "b AND wu_ONE W = 0" "b \<noteq> 0" using that assms(1) by (auto simp: documented_def)
    ultimately show False by simp
  qed
  have "toggle_state W DUMPING (wu_MINUS W) (toggle_state W MINING (wu_PLUS W)
      (toggle_state W DRIVING (wu_HOME W) (wm_state w, d))) =
    (wm_state w XOR (if wu_just_pressed W d (wu_HOME W) then DRIVING
       else if wu_just_pressed W d (wu_PLUS W) then MINING
       else if wu_just_pressed W d (wu_MINUS W) then DUMPING else 0),
     d\<lparr>wd_btns := wd_btns d AND
      (if \<exists>b \<in> {wu_HOME W, wu_PLUS W, wu_MINUS W}. wu_just_pressed W d b then wu_ONE W else - 1)\<rparr>)"
    using masked by (simp add: toggle_state_eq)
  then show ?thesis
    using assms(2,3) by (auto simp: control_def Let_def wii_state_def)
qed

lemma one_switch_per_round_witness:
  "\<exists>w'. control exact wii_example 5 (new_wiimote (default_constants exact) False
      (Some [\<lparr>wd_btns = 0x1890, wd_btns_held = 0x0080, wd_connected = True\<rparr>])) = Inr w' \<and>
    wii_state w' = MINING OR DRIVING \<and>
    wm_data w' = Some [\<lparr>wd_btns = 0, wd_btns_held = 0x0080, wd_connected = True\<rparr>]"
proof -
  let ?d = "\<lparr>wd_btns = 0x1890, wd_btns_held = 0x0080, wd_connected = True\<rparr>"
  let ?v = "new_wiimote (default_constants exact) False (Some [?d])"
  have d: "wm_data ?v = Some [?d]" by (simp add: new_wiimote_def)
  obtain w' where w': "control exact wii_example 5 ?v = Inr w'"
    using control_ok [OF d, of exact wii_example] by blast
  from one_switch_per_round [OF documented_example d w'] w' show ?thesis
    by (simp add: wii_example_def new_wiimote_def wii_state_def const_simps)
qed

text \<open>
  Letting go of the buttons.  Where nothing needs rounding, a positive velocity is brought
  down by the increment of the round and stops at zero; a negative one is not treated alike:
  it is left at zero one round early when less than two increments remain, and when less than
  one remains it overshoots to a positive velocity.
\<close>

theorem released_velocity:
  assumes "\<not> wu_pressed W d up" and "\<not> wu_pressed W d down" and "0 < i"
    and "fu_single F (v - i) = v - i" and "fu_single F (v - i + i) = v"
    and "fu_single F (v + i) = v + i" and "fu_single F (v + i + i) = v + i + i"
  shows "incriment_velocity F W d v i up down =
    (if 0 \<le> v then max 0 (v - i)
     else if v + i < 0 \<and> 0 < v + i + i then 0
     else v + i)"
  using assms by (auto simp: incriment_velocity_def zero_rounding_def Let_def max_def)

lemma released_velocity_witness:
  "incriment_velocity exact wii_example \<lparr>wd_btns = 0, wd_btns_held = 0, wd_connected = True\<rparr>
      2 3 (wu_UP wii_example) (wu_DOWN wii_example) = 0 \<and>
   incriment_velocity exact wii_example \<lparr>wd_btns = 0, wd_btns_held = 0, wd_connected = True\<rparr>
      (- 2) 3 (wu_UP wii_example) (wu_DOWN wii_example) = 1"
  using released_velocity [of wii_example "\<lparr>wd_btns = 0, wd_btns_held = 0, wd_connected = True\<rparr>"
      "wu_UP wii_example" "wu_DOWN wii_example" 3 exact 2]
    released_velocity [of wii_example "\<lparr>wd_btns = 0, wd_btns_held = 0, wd_connected = True\<rparr>"
      "wu_UP wii_example" "wu_DOWN wii_example" 3 exact "- 2"]
  by (simp add: wii_example_def exact_def)

end
