(* ===== verification/April_Detector.thy ===== *)
theory April_Detector
  imports Complex_Main Kermit_Kernel Localizer
begin

text \<open>
  Model of the AprilTag camera: \<^verbatim>\<open>src/localizer/AprilDetector.cpp\<close> with
  \<^verbatim>\<open>localizer/apriltags/AprilDetector.hpp\<close>.  The apriltag library and OpenCV are not part of
  the program: a call that makes, uses or frees one of the library's objects is an entry in a
  trace, in order; what the camera, the random numbers and the keyboard give is a parameter.
  Coordinates are doubles, which the drawing truncates to integers.
\<close>

section \<open>The tag's resources\<close>

text \<open>The families of the library, each with its own functions to create and destroy one.\<close>

datatype family =
    Tag36h11 | Tag25h9 | Tag16h5 | TagCircle21h7 | TagCircle49h12
  | TagStandard41h12 | TagStandard52h13 | TagCustom48h12

datatype april_call =
    Create family
  | Destroy family
  | Detector_Create
  | Detector_Add_Family family
  | Detector_Destroy
  | Detect
  | Detections_Destroy
  | Draw_Line "int \<times> int" "int \<times> int" "int \<times> int \<times> int"
  | Draw_Text string "int \<times> int"
  | Show_Frame

text \<open>The settings of a detector that the program writes.\<close>

record april_settings =
  quad_decimate :: nat
  quad_sigma :: nat
  td_debug :: bool
  refine_edges :: bool
  nthreads :: nat

text \<open>
  \<^verbatim>\<open>tag\<close>: a family object is what created it; a null pointer is \<open>None\<close>.  \<^verbatim>\<open>detections\<close> is
  only ever null or one list.
\<close>

record tag =
  tag_type :: int
  tag_tf :: "family option"
  tag_td :: "april_settings option"
  tag_detections :: bool

definition no_tag :: tag where
  "no_tag = \<lparr>tag_type = 0, tag_tf = None, tag_td = None, tag_detections = False\<rparr>"

definition initialize_tag :: "string \<Rightarrow> tag \<Rightarrow> bool \<times> tag \<times> april_call list" where
  "initialize_tag type t =
     (let use = (\<lambda>f n.
            let t1 = t\<lparr>tag_tf := Some f, tag_type := n\<rparr>;
                t2 = t1\<lparr>tag_td := Some \<lparr>quad_decimate = 2, quad_sigma = 0, td_debug = False,
                  refine_edges = True, nthreads = 1\<rparr>\<rparr>
            in (True, t2, [Create f, Detector_Create, Detector_Add_Family f]))
      in if type = ''tag36h11'' then use Tag36h11 1
         else if type = ''tag25h9'' then use Tag25h9 2
         else if type = ''tag16h5'' then use Tag16h5 3
         else if type = ''tagCircle21h7'' then use TagCircle21h7 4
         else if type = ''tagCircle49h12'' then use TagCircle49h12 5
         else if type = ''tagStandard41h12'' then use TagStandard41h12 6
         else if type = ''tagStandard52h13'' then use TagStandard52h13 7
         else if type = ''tagCustom48h12'' then use TagCustom48h12 8
         else (False, t, []))"

text \<open>
  \<^verbatim>\<open>destroy_tag\<close>.  The trace says which destroy function is called, which the type decides;
  whether that is the family's own is a question for the properties.
\<close>

definition destroyer :: "int \<Rightarrow> april_call list" where
  "destroyer type =
     (if type = 1 then [Destroy Tag36h11]
      else if type = 2 then [Destroy Tag25h9]
      else if type = 3 then [Destroy Tag16h5]
      else if type = 4 then [Destroy TagCircle21h7]
      else if type = 5 then [Destroy TagCircle49h12]
      else if type = 6 then [Destroy TagStandard41h12]
      else if type = 7 then [Destroy TagStandard52h13]
      else if type = 8 then [Destroy TagCustom48h12]
      else [])"

definition destroy_tag :: "tag \<Rightarrow> tag \<times> april_call list" where
  "destroy_tag t =
     (let calls = (if tag_detections t then [Detections_Destroy] else []) @
            (if tag_td t \<noteq> None then [Detector_Destroy] else []);
          t1 = t\<lparr>tag_detections := False, tag_td := None\<rparr>
      in if tag_tf t1 = None then (t1\<lparr>tag_type := 0\<rparr>, calls)
         else (t1\<lparr>tag_tf := None, tag_type := 0\<rparr>, calls @ destroyer (tag_type t1)))"

section \<open>The detector\<close>

text \<open>
  The object: its camera localizer (a control client and a position), the tag, whether the
  stream is shown, which no constructor sets, and whether the video device is open.
\<close>

record april =
  ap_client :: "unit rmt_client"
  ap_pos :: pos_localizer
  ap_tag :: tag
  ap_show_stream :: "bool option"
  ap_open :: bool
  ap_multithreaded :: int
  ap_verbose :: bool

definition new_april :: "int \<Rightarrow> bool \<Rightarrow> string \<Rightarrow> bool \<Rightarrow> (april \<times> april_call list) res" where
  "new_april threads show_stream' type verbose =
     bindR new_pos_localizer (\<lambda>(c, p).
       let (_, t, calls) = initialize_tag type no_tag
       in Inr (\<lparr>ap_client = c, ap_pos = p, ap_tag = t, ap_show_stream = None, ap_open = False,
         ap_multithreaded = threads, ap_verbose = verbose\<rparr>, calls))"

definition sync_start :: "bool \<Rightarrow> april \<Rightarrow> bool \<times> april" where
  "sync_start opened a = (let a1 = a\<lparr>ap_open := opened\<rparr> in if \<not> opened then (False, a1) else (True, a1))"

definition async_start :: "april \<Rightarrow> bool" where
  "async_start a = False"

text \<open>
  A detection: its id, the corners of the tag and its centre.  What one round meets: three
  random numbers as the floats they convert to, whether there is a frame to convert
  (\<^verbatim>\<open>cvtColor\<close> throws on an empty one), what is detected in it, and what \<^verbatim>\<open>waitKey\<close> answers.
\<close>

record detection =
  dn_id :: int
  dn_p :: "nat \<Rightarrow> rat \<times> rat"
  dn_c :: "rat \<times> rat"

record april_round =
  ar_rand :: "float32 \<times> float32 \<times> float32"
  ar_frame :: bool
  ar_detections :: "detection list"
  ar_key :: int

text \<open>
  What is drawn for a detection: its four edges in their colours (blue, green, red), and its id
  centred on the tag; \<open>text_size\<close> is what \<^verbatim>\<open>getTextSize\<close> answers.
\<close>

definition truncate :: "rat \<Rightarrow> int" where
  "truncate x = (if x < 0 then - \<lfloor>- x\<rfloor> else \<lfloor>x\<rfloor>)"

definition point :: "rat \<times> rat \<Rightarrow> int \<times> int" where
  "point p = (truncate (fst p), truncate (snd p))"

definition decimal :: "int \<Rightarrow> string" where
  "decimal n = (if n < 0 then ''-'' @ digits (nat (- n)) else digits (nat n))"

definition draw_detection :: "(string \<Rightarrow> int \<times> int) \<Rightarrow> detection \<Rightarrow> april_call list" where
  "draw_detection text_size det =
     (let p = (\<lambda>i. point (dn_p det i)); label = decimal (dn_id det); (width, height) = text_size label
      in [Draw_Line (p 0) (p 1) (0, 0xff, 0), Draw_Line (p 0) (p 3) (0, 0, 0xff),
          Draw_Line (p 1) (p 2) (0xff, 0, 0), Draw_Line (p 2) (p 3) (0xff, 0, 0),
          Draw_Text label (point (fst (dn_c det) - of_int (width div 2), snd (dn_c det) + of_int (height div 2)))])"

text \<open>\<^verbatim>\<open>4.5\<close>, \<^verbatim>\<open>5.6\<close> and \<^verbatim>\<open>7.8\<close> as single-precision floats.\<close>

definition set_rand :: "april_round \<Rightarrow> april \<Rightarrow> april" where
  "set_rand r a = (case ar_rand r of (x, y, z) \<Rightarrow> a\<lparr>ap_pos := set_pos x y z (ap_pos a)\<rparr>)"

definition april_loop :: "(string \<Rightarrow> int \<times> int) \<Rightarrow> april_round \<Rightarrow> april \<Rightarrow> (bool \<times> april \<times> april_call list) res" where
  "april_loop text_size r a =
     (let a1 = set_rand r a in
      if \<not> ar_frame r then Inl Terminated
      else case tag_td (ap_tag a1) of
          None \<Rightarrow> Inl Null_Deref
        | Some _ \<Rightarrow>
            (case ap_show_stream a1 of
               None \<Rightarrow> Inl Uninitialised
             | Some show_stream \<Rightarrow>
                 let calls = [Detect] @
                       (if show_stream then concat (map (draw_detection text_size) (ar_detections r)) else []) @
                       [Detections_Destroy] @ (if show_stream then [Show_Frame] else []) in
                 if show_stream \<and> ar_key r \<ge> 0 then Inr (False, a1, calls)
                 else Inr (True, a1\<lparr>ap_pos := set_pos 0x40900000 0x40B33333 0x40F9999A (ap_pos a1)\<rparr>, calls)))"

definition destroy_april :: "april \<Rightarrow> (april \<times> april_call list) res" where
  "destroy_april a =
     bindR (quit (rc_net (ap_client a))) (\<lambda>(_, net).
       let (t, calls) = destroy_tag (ap_tag a)
       in Inr (a\<lparr>ap_client := (ap_client a)\<lparr>rc_net := net\<rparr>, ap_tag := t\<rparr>, calls))"

text \<open>\<^verbatim>\<open>april.cpp\<close>: rounds until one says to stop; the list is the rounds there is time for.\<close>

fun april_spin :: "(string \<Rightarrow> int \<times> int) \<Rightarrow> april_round list \<Rightarrow> april \<Rightarrow> (bool \<times> april \<times> april_call list) res" where
  "april_spin text_size [] a = Inr (True, a, [])"
| "april_spin text_size (r # rs) a =
     bindR (april_loop text_size r a) (\<lambda>(go_on, a1, calls).
       if \<not> go_on then Inr (False, a1, calls)
       else bindR (april_spin text_size rs a1) (\<lambda>(g, a2, calls2). Inr (g, a2, calls @ calls2)))"

section \<open>Properties\<close>

definition family_of :: "string \<Rightarrow> family option" where
  "family_of type = map_of
     [(''tag36h11'', Tag36h11), (''tag25h9'', Tag25h9), (''tag16h5'', Tag16h5),
      (''tagCircle21h7'', TagCircle21h7), (''tagCircle49h12'', TagCircle49h12),
      (''tagStandard41h12'', TagStandard41h12), (''tagStandard52h13'', TagStandard52h13),
      (''tagCustom48h12'', TagCustom48h12)] type"

text \<open>What holds of the tag from its initialisation to its destruction.\<close>

definition tag_inv :: "tag \<Rightarrow> bool" where
  "tag_inv t \<longleftrightarrow> \<not> tag_detections t \<and> (tag_tf t = None \<longleftrightarrow> tag_td t = None) \<and>
     (case tag_tf t of None \<Rightarrow> tag_type t = 0 | Some f \<Rightarrow> destroyer (tag_type t) = [Destroy f])"

fun family_number :: "family \<Rightarrow> int" where
  "family_number Tag36h11 = 1"
| "family_number Tag25h9 = 2"
| "family_number Tag16h5 = 3"
| "family_number TagCircle21h7 = 4"
| "family_number TagCircle49h12 = 5"
| "family_number TagStandard41h12 = 6"
| "family_number TagStandard52h13 = 7"
| "family_number TagCustom48h12 = 8"

lemma destroyer_number: "destroyer (family_number f) = [Destroy f]"
  by (cases f) (simp_all add: destroyer_def)

lemma initialize_tag_eq:
  "initialize_tag type no_tag =
    (case family_of type of
       None \<Rightarrow> (False, no_tag, [])
     | Some f \<Rightarrow>
         (True, \<lparr>tag_type = family_number f, tag_tf = Some f, tag_td = Some \<lparr>quad_decimate = 2,
            quad_sigma = 0, td_debug = False, refine_edges = True, nthreads = 1\<rparr>, tag_detections = False\<rparr>,
          [Create f, Detector_Create, Detector_Add_Family f]))"
  by (simp add: initialize_tag_def family_of_def no_tag_def Let_def)

lemma tag_inv_initialised:
  assumes "initialize_tag type no_tag = (ok, t, calls)"
  shows "tag_inv t"
  using assms unfolding initialize_tag_eq
  by (cases "family_of type") (auto simp: tag_inv_def no_tag_def destroyer_number)

lemma destroy_tag_inv:
  assumes "tag_inv t"
  shows "destroy_tag t = (no_tag,
    case tag_tf t of None \<Rightarrow> [] | Some f \<Rightarrow> [Detector_Destroy, Destroy f])"
  using assms by (cases t) (auto simp: tag_inv_def destroy_tag_def no_tag_def split: option.splits)

lemma new_april_ok:
  assumes "new_april threads shown type verbose = Inr (a, calls)"
  shows "new_pos_localizer = Inr (ap_client a, ap_pos a)" and "pos_inv (ap_pos a)"
    and "initialize_tag type no_tag = (family_of type \<noteq> None, ap_tag a, calls)"
    and "ap_show_stream a = None"
proof -
  obtain c :: "unit rmt_client" and p where p: "new_pos_localizer = Inr (c, p)" "pos_inv p"
    using new_pos_localizer_ok by blast
  obtain t where t: "initialize_tag type no_tag = (family_of type \<noteq> None, t, calls)"
    "a = \<lparr>ap_client = c, ap_pos = p, ap_tag = t, ap_show_stream = None, ap_open = False,
      ap_multithreaded = threads, ap_verbose = verbose\<rparr>"
    using assms unfolding new_april_def p(1) bindR_Inr
    by (auto simp: initialize_tag_eq Let_def split: option.splits)
  with p show "new_pos_localizer = Inr (ap_client a, ap_pos a)" "pos_inv (ap_pos a)"
    "initialize_tag type no_tag = (family_of type \<noteq> None, ap_tag a, calls)" "ap_show_stream a = None"
    by simp_all
qed

lemma camera_client_live:
  assumes "(new_pos_localizer :: ('s rmt_client \<times> pos_localizer) res) = Inr (c, p)"
  shows "wf_client (rc_net c)" and "all_live (rc_net c)"
  using assms
  by (auto simp: new_pos_localizer_def new_rmt_client_def initialize_client_def new_zmq_client_def
      starting_defs start_thread_fresh bindR_eq_Inr Let_def wf_client_def wf_spaces_def all_live_def
      split: option.splits)

text \<open>The calls that make or free an object, other than a list of detections.\<close>

fun owns :: "april_call \<Rightarrow> bool" where
  "owns (Create _) = True"
| "owns (Destroy _) = True"
| "owns Detector_Create = True"
| "owns (Detector_Add_Family _) = True"
| "owns Detector_Destroy = True"
| "owns _ = False"

text \<open>Every list of detections is freed, before the next is asked for.\<close>

definition frees_detections :: "april_call list \<Rightarrow> bool" where
  "frees_detections calls \<longleftrightarrow> (\<exists>n. filter (\<lambda>c. owns c \<or> c = Detect \<or> c = Detections_Destroy) calls =
     concat (replicate n [Detect, Detections_Destroy]))"

lemma frees_detections_append:
  assumes "frees_detections xs" and "frees_detections ys"
  shows "frees_detections (xs @ ys)"
proof -
  let ?f = "filter (\<lambda>c. owns c \<or> c = Detect \<or> c = Detections_Destroy)"
  obtain n m where "?f xs = concat (replicate n [Detect, Detections_Destroy])"
    "?f ys = concat (replicate m [Detect, Detections_Destroy])"
    using assms unfolding frees_detections_def by (elim exE) (rule that)
  then have "?f (xs @ ys) = concat (replicate (n + m) [Detect, Detections_Destroy])"
    unfolding filter_append replicate_add concat_append by (simp only:)
  then show ?thesis unfolding frees_detections_def by (rule exI)
qed

lemma draws_only: "c \<in> set (draw_detection text_size det) \<Longrightarrow> \<not> (owns c \<or> c = Detect \<or> c = Detections_Destroy)"
  by (auto simp: draw_detection_def Let_def split: prod.splits)

lemma round_frees_detections:
  assumes "april_loop text_size r a = Inr (g, b, cs)"
  shows "frees_detections cs"
proof -
  let ?d = "concat (map (draw_detection text_size) (ar_detections r))"
  have "filter (\<lambda>c. owns c \<or> c = Detect \<or> c = Detections_Destroy) ?d = []"
    using draws_only by (auto simp: filter_empty_conv)
  then have "filter (\<lambda>c. owns c \<or> c = Detect \<or> c = Detections_Destroy) cs = concat (replicate 1 [Detect, Detections_Destroy])"
    using assms by (auto simp: april_loop_def set_rand_def Let_def split: if_splits option.splits prod.splits)
  then show ?thesis unfolding frees_detections_def by blast
qed

lemma april_spin_keeps:
  assumes "april_spin text_size rs a = Inr (go, a1, calls)"
  shows "ap_client a1 = ap_client a" and "ap_tag a1 = ap_tag a" and "frees_detections calls"
proof -
  have "ap_client a1 = ap_client a \<and> ap_tag a1 = ap_tag a \<and> frees_detections calls"
    using assms
  proof (induction rs arbitrary: a calls)
    case (Cons r rs)
    obtain g b cs where loop: "april_loop text_size r a = Inr (g, b, cs)" using Cons.prems by (auto simp: bindR_eq_Inr)
    then have b: "ap_client b = ap_client a" "ap_tag b = ap_tag a" "frees_detections cs"
      using round_frees_detections
      by (auto simp: april_loop_def set_rand_def Let_def split: if_splits option.splits prod.splits)
    show ?case
    proof (cases g)
      case False
      with Cons.prems loop b show ?thesis by simp
    next
      case True
      then obtain calls2 where "april_spin text_size rs b = Inr (go, a1, calls2)" "calls = cs @ calls2"
        using Cons.prems loop by (auto simp: bindR_eq_Inr)
      with Cons.IH [OF this(1)] b show ?thesis by (auto intro: frees_detections_append)
    qed
  next
    case Nil
    have "frees_detections []" unfolding frees_detections_def by (rule exI [of _ 0]) simp
    with Nil show ?case by simp
  qed
  then show "ap_client a1 = ap_client a" "ap_tag a1 = ap_tag a" "frees_detections calls"
    by auto
qed

lemma initialised_tag:
  assumes "initialize_tag type no_tag = (ok, t, calls)"
  shows "tag_tf t = family_of type" and "tag_td t = None \<longleftrightarrow> family_of type = None"
    and "calls = (case family_of type of None \<Rightarrow> []
      | Some f \<Rightarrow> [Create f, Detector_Create, Detector_Add_Family f])"
  using assms unfolding initialize_tag_eq by (auto simp: no_tag_def split: option.splits)

text \<open>
  C34: what the detector makes it frees.  For a tag type that names a family, the constructor
  creates one object of that family and one detector; the rounds, however many, make nothing
  but lists of detections, each freed before the next; and the destructor frees the detector and then the family with
  that family's own function, once.  For any other type nothing is made and nothing freed.
  After it a second destruction of the tag frees nothing.
\<close>

theorem april_lifecycle:
  assumes "new_april threads shown type verbose = Inr (a, made)"
    and "april_spin text_size rs (a\<lparr>ap_show_stream := s\<rparr>) = Inr (go, a1, used)"
  shows "\<exists>a2 freed. destroy_april a1 = Inr (a2, freed) \<and>
    (case family_of type of
       None \<Rightarrow> made = [] \<and> freed = []
     | Some f \<Rightarrow> made = [Create f, Detector_Create, Detector_Add_Family f] \<and> freed = [Detector_Destroy, Destroy f]) \<and>
    frees_detections used \<and> destroy_tag (ap_tag a2) = (no_tag, [])"
proof -
  note new = new_april_ok [OF assms(1)]
  note kept = april_spin_keeps [OF assms(2), simplified]
  obtain net where q: "quit (rc_net (ap_client a)) = Inr (True, net)"
    using quit_all_live [OF camera_client_live [OF new(1)]] by blast
  have "tag_inv (ap_tag a)" by (rule tag_inv_initialised [OF new(3)])
  note freed = destroy_tag_inv [OF this]
  have "tag_inv no_tag" by (simp add: tag_inv_def no_tag_def)
  then have again: "destroy_tag no_tag = (no_tag, [])" by (simp add: destroy_tag_inv no_tag_def)
  show ?thesis
    using initialised_tag [OF new(3)] q kept freed again
    by (simp add: destroy_april_def Let_def split: option.split)
qed

lemma april_lifecycle_witness:
  "\<exists>a a1 a2. new_april 0 True ''tag25h9'' True = Inr (a, [Create Tag25h9, Detector_Create, Detector_Add_Family Tag25h9]) \<and>
    april_spin (\<lambda>_. (0, 0)) [\<lparr>ar_rand = (1, 2, 3), ar_frame = True, ar_detections = [], ar_key = -1\<rparr>] (a\<lparr>ap_show_stream := Some True\<rparr>) =
      Inr (True, a1, [Detect, Detections_Destroy, Show_Frame]) \<and>
    destroy_april a1 = Inr (a2, [Detector_Destroy, Destroy Tag25h9])"
proof -
  obtain c :: "unit rmt_client" and p where "new_pos_localizer = Inr (c, p)" using new_pos_localizer_ok by blast
  note p = this
  obtain a where a: "new_april 0 True ''tag25h9'' True =
      Inr (a, [Create Tag25h9, Detector_Create, Detector_Add_Family Tag25h9])" "tag_td (ap_tag a) \<noteq> None"
    unfolding new_april_def p bindR_Inr by (auto simp: initialize_tag_eq family_of_def)
  from a(2) obtain a1 where a1: "april_spin (\<lambda>_. (0, 0)) [\<lparr>ar_rand = (1, 2, 3), ar_frame = True, ar_detections = [], ar_key = -1\<rparr>]
      (a\<lparr>ap_show_stream := Some True\<rparr>) = Inr (True, a1, [Detect, Detections_Destroy, Show_Frame])"
    by (auto simp: april_loop_def set_rand_def)
  have "family_of ''tag25h9'' = Some Tag25h9" by (simp add: family_of_def)
  with april_lifecycle [OF a(1) a1] obtain a2 where "destroy_april a1 = Inr (a2, [Detector_Destroy, Destroy Tag25h9])"
    by auto
  with a(1) a1 show ?thesis by blast
qed

text \<open>
  The position the camera publishes has nothing to do with the tags it detects.  A round
  with a frame fails on the null detector when the type named no family, and otherwise on a
  flag the constructor never sets; whatever value that flag happens to have, the position
  published after the round is the constant one of the source, or, when a key ended the
  round, the random one it began with.
\<close>

theorem april_position_ignores_tags:
  assumes "new_april threads shown type verbose = Inr (a, made)" and "ar_frame r"
  shows "if family_of type = None then \<forall>flag. april_loop text_size r (a\<lparr>ap_show_stream := flag\<rparr>) = Inl Null_Deref
    else april_loop text_size r a = Inl Uninitialised \<and>
      (\<forall>flag. \<exists>go a1 calls m p. april_loop text_size r (a\<lparr>ap_show_stream := Some flag\<rparr>) = Inr (go, a1, calls) \<and>
        get_pos (ap_pos a1) = Inr (m, p) \<and>
        observed m = Some (if flag \<and> 0 \<le> ar_key r then (case ar_rand r of (x, y, z) \<Rightarrow> Position x y z)
          else Position 0x40900000 0x40B33333 0x40F9999A))"
proof (cases "family_of type")
  case None
  then have "tag_td (ap_tag a) = None"
    using initialised_tag(2) [OF new_april_ok(3) [OF assms(1)]] by simp
  with None assms(2) show ?thesis by (simp add: april_loop_def set_rand_def Let_def split: prod.split)
next
  case (Some f)
  note new = new_april_ok [OF assms(1)]
  obtain td where td: "tag_td (ap_tag a) = Some td" using initialised_tag(2) [OF new(3)] Some by auto
  obtain x y z where rand: "ar_rand r = (x, y, z)" by (cases "ar_rand r") auto
  have "\<exists>m p. get_pos (set_pos u v w q) = Inr (m, p) \<and> observed m = Some (Position u v w)"
    if "pos_inv q" for u v w q
    using get_pos_set [of "set_pos u v w q" u v w] that by (auto simp: pos_inv_def set_pos_def)
  moreover have "pos_inv (set_pos x y z (ap_pos a))" using new(2) by (simp add: pos_inv_def set_pos_def)
  ultimately show ?thesis
    using Some td rand assms(2) new(2,4) by (auto simp: april_loop_def set_rand_def Let_def)
qed

lemma april_position_ignores_tags_witness:
  "\<exists>a made. new_april 0 True ''tag36h11'' True = Inr (a, made) \<and>
    april_loop (\<lambda>_. (0, 0)) \<lparr>ar_rand = (1, 2, 3), ar_frame = True, ar_detections = [], ar_key = -1\<rparr> a = Inl Uninitialised"
proof -
  obtain c :: "unit rmt_client" and p where "new_pos_localizer = Inr (c, p)" using new_pos_localizer_ok by blast
  note p = this
  obtain a made where a: "new_april 0 True ''tag36h11'' True = Inr (a, made)"
    unfolding new_april_def p bindR_Inr by (auto simp: initialize_tag_eq family_of_def)
  have "family_of ''tag36h11'' \<noteq> None" by (simp add: family_of_def)
  with april_position_ignores_tags [OF a, of "\<lparr>ar_rand = (1, 2, 3), ar_frame = True, ar_detections = [], ar_key = -1\<rparr>"] a
  show ?thesis by auto
qed

end
