(* ===== verification/Client_Params.thy ===== *)
theory Client_Params
  imports Zmq_Control_Client
begin

text \<open>
  Model of the parameter objects of \<^verbatim>\<open>core/control/ControlClientInterface.hpp\<close> and of the
  operations that take them.  A default callback of a subscription is a closure over the
  object it was made in (\<^verbatim>\<open>[this]\<close>), which copies of the object share: objects live in a
  store, at addresses, and the closure holds an address.  The interface's own virtual
  functions are pure, or answer a constant.
\<close>

section \<open>Parameter objects\<close>

text \<open>What a client's callbacks are: the defaults of this header, or one the caller gave.\<close>

datatype 'c client_callback =
    Echo
  | No_Publisher_Data
  | Log_Received nat
  | Given 'c

record 'c serve_params =
  svp_sock_addr :: address
  svp_callback :: "'c client_callback"

record 'c publish_params =
  pbp_sock_addr :: address
  pbp_topic :: string
  pbp_get_data :: "'c client_callback"
  pbp_period :: microseconds

record 'c subscribe_params =
  sbp_sock_addr :: address
  sbp_topic :: string
  sbp_callback :: "'c client_callback"

definition default_serve_params :: "'c serve_params" where
  "default_serve_params = \<lparr>svp_sock_addr = ''null'', svp_callback = Echo\<rparr>"

definition new_serve_params :: "address \<Rightarrow> 'c client_callback \<Rightarrow> 'c serve_params" where
  "new_serve_params address callback = \<lparr>svp_sock_addr = address, svp_callback = callback\<rparr>"

definition copy_serve_params :: "'c serve_params \<Rightarrow> 'c serve_params" where
  "copy_serve_params params = \<lparr>svp_sock_addr = svp_sock_addr params, svp_callback = svp_callback params\<rparr>"

definition default_publish_params :: "'c publish_params" where
  "default_publish_params = \<lparr>pbp_sock_addr = ''null'', pbp_topic = '''', pbp_get_data = No_Publisher_Data,
     pbp_period = 100\<rparr>"

definition new_publish_params :: "address \<Rightarrow> string \<Rightarrow> 'c publish_params" where
  "new_publish_params broker topic = \<lparr>pbp_sock_addr = broker, pbp_topic = topic,
     pbp_get_data = No_Publisher_Data, pbp_period = 100\<rparr>"

definition copy_publish_params :: "'c publish_params \<Rightarrow> 'c publish_params" where
  "copy_publish_params pub = \<lparr>pbp_sock_addr = pbp_sock_addr pub, pbp_topic = pbp_topic pub,
     pbp_get_data = pbp_get_data pub, pbp_period = pbp_period pub\<rparr>"

text \<open>The constructors of a subscription's parameters, of an object at the address \<open>this\<close>.\<close>

definition default_subscribe_params :: "nat \<Rightarrow> 'c subscribe_params" where
  "default_subscribe_params this = \<lparr>sbp_sock_addr = ''null'', sbp_topic = '''', sbp_callback = Log_Received this\<rparr>"

definition new_subscribe_params :: "nat \<Rightarrow> address \<Rightarrow> string \<Rightarrow> 'c subscribe_params" where
  "new_subscribe_params this sock_backend topic =
     \<lparr>sbp_sock_addr = sock_backend, sbp_topic = topic, sbp_callback = Log_Received this\<rparr>"

definition copy_subscribe_params :: "'c subscribe_params \<Rightarrow> 'c subscribe_params" where
  "copy_subscribe_params params = \<lparr>sbp_sock_addr = sbp_sock_addr params, sbp_topic = sbp_topic params,
     sbp_callback = sbp_callback params\<rparr>"

section \<open>The store of subscription objects\<close>

type_synonym 'c objects = "nat \<Rightarrow> 'c subscribe_params option"

text \<open>
  The steps of a program that handles such objects: making one, copying one to another place,
  assigning its topic or callback, ending its life.
\<close>

datatype 'c object_step =
    Make nat address string
  | Make_Default nat
  | Copy nat nat
  | Set_Topic nat string
  | Set_Callback nat 'c
  | End_Life nat

fun do_step :: "'c object_step \<Rightarrow> 'c objects \<Rightarrow> 'c objects res" where
  "do_step (Make this addr topic) st = Inr (st(this \<mapsto> new_subscribe_params this addr topic))"
| "do_step (Make_Default this) st = Inr (st(this \<mapsto> default_subscribe_params this))"
| "do_step (Copy source this) st =
     (case st source of None \<Rightarrow> Inl Dangling | Some p \<Rightarrow> Inr (st(this \<mapsto> copy_subscribe_params p)))"
| "do_step (Set_Topic this topic) st =
     (case st this of None \<Rightarrow> Inl Dangling | Some p \<Rightarrow> Inr (st(this \<mapsto> p\<lparr>sbp_topic := topic\<rparr>)))"
| "do_step (Set_Callback this f) st =
     (case st this of None \<Rightarrow> Inl Dangling | Some p \<Rightarrow> Inr (st(this \<mapsto> p\<lparr>sbp_callback := Given f\<rparr>)))"
| "do_step (End_Life this) st = Inr (st(this := None))"

fun object_run :: "'c object_step list \<Rightarrow> 'c objects \<Rightarrow> 'c objects res" where
  "object_run [] st = Inr st"
| "object_run (x # xs) st = bindR (do_step x st) (object_run xs)"

text \<open>
  Running a subscription's callback on a message: the default one reads the topic of the
  object its closure holds and logs it with the message; a given one is the caller's.
\<close>

definition run_callback :: "'c objects \<Rightarrow> 'c client_callback \<Rightarrow> message \<Rightarrow> ((string \<times> message) list \<times> 'c list) res" where
  "run_callback st cb msg =
     (case cb of
        Log_Received this \<Rightarrow> (case st this of None \<Rightarrow> Inl Dangling | Some p \<Rightarrow> Inr ([(sbp_topic p, msg)], []))
      | Given f \<Rightarrow> Inr ([], [f])
      | _ \<Rightarrow> Inr ([], []))"

section \<open>The operations that take parameters\<close>

definition publish_params_of :: "'c publish_params \<Rightarrow> 'c client_callback zmq_client \<Rightarrow>
    (bool \<times> 'c client_callback zmq_client) res" where
  "publish_params_of params c =
     publish_periodic (pbp_sock_addr params) (pbp_topic params) (pbp_get_data params) (pbp_period params) c"

definition subscribe_params_of :: "'c subscribe_params \<Rightarrow> 'c client_callback zmq_client \<Rightarrow>
    (bool \<times> 'c client_callback zmq_client) res" where
  "subscribe_params_of params c =
     subscribe (sbp_sock_addr params) (sbp_topic params) (sbp_callback params) c"

definition serve_params_of :: "'c serve_params \<Rightarrow> 'c client_callback zmq_client \<Rightarrow>
    (bool \<times> 'c client_callback zmq_client) res" where
  "serve_params_of params c = serve (svp_sock_addr params) (svp_callback params) c"

text \<open>\<^verbatim>\<open>spin\<close>, by the kind of parameters.\<close>

definition spin_publish :: "'c publish_params \<Rightarrow> 'c client_callback zmq_client \<Rightarrow>
    (bool \<times> 'c client_callback zmq_client) res" where
  "spin_publish = publish_params_of"

definition spin_subscribe :: "'c subscribe_params \<Rightarrow> 'c client_callback zmq_client \<Rightarrow>
    (bool \<times> 'c client_callback zmq_client) res" where
  "spin_subscribe = subscribe_params_of"

definition spin_serve :: "'c serve_params \<Rightarrow> 'c client_callback zmq_client \<Rightarrow>
    (bool \<times> 'c client_callback zmq_client) res" where
  "spin_serve = serve_params_of"

text \<open>What the interface answers where a client does not override it.\<close>

definition interface_flag :: "int \<Rightarrow> int" where "interface_flag flag = flag"

definition interface_initialize_publisher :: "address \<Rightarrow> bool" where
  "interface_initialize_publisher sock_addr = (sock_addr = ''default'')"

definition interface_initialize_client :: bool where "interface_initialize_client = False"

section \<open>Whose topic a default callback logs\<close>

text \<open>
  The object a subscription's callback was made in, followed through copies: \<open>None\<close> once a
  callback of the caller's has replaced it.
\<close>

fun maker_step :: "'c object_step \<Rightarrow> (nat \<Rightarrow> nat option) \<Rightarrow> nat \<Rightarrow> nat option" where
  "maker_step (Make this _ _) mk = mk(this \<mapsto> this)"
| "maker_step (Make_Default this) mk = mk(this \<mapsto> this)"
| "maker_step (Copy source this) mk = mk(this := mk source)"
| "maker_step (Set_Callback this _) mk = mk(this := None)"
| "maker_step _ mk = mk"

fun comes_from :: "'c client_callback \<Rightarrow> nat option \<Rightarrow> bool" where
  "comes_from (Log_Received m) (Some m') \<longleftrightarrow> m = m'"
| "comes_from (Given f) None \<longleftrightarrow> True"
| "comes_from _ _ \<longleftrightarrow> False"

lemma comes_from_cases:
  "comes_from cb None \<longleftrightarrow> (\<exists>f. cb = Given f)"
  "comes_from cb (Some m) \<longleftrightarrow> cb = Log_Received m"
  by (cases cb; simp)+

definition made_in :: "'c objects \<Rightarrow> (nat \<Rightarrow> nat option) \<Rightarrow> bool" where
  "made_in st makers \<longleftrightarrow> (\<forall>this p. st this = Some p \<longrightarrow> comes_from (sbp_callback p) (makers this))"

lemma made_in_run:
  "made_in st makers \<Longrightarrow> object_run xs st = Inr st' \<Longrightarrow> made_in st' (fold maker_step xs makers)"
proof (induction xs arbitrary: st makers)
  case (Cons x xs)
  then obtain st1 where st1: "do_step x st = Inr st1" "object_run xs st1 = Inr st'"
    by (auto simp: bindR_eq_Inr)
  have "made_in st1 (maker_step x makers)"
    using Cons.prems(1) st1(1)
    by (cases x) (auto simp: made_in_def new_subscribe_params_def default_subscribe_params_def
        copy_subscribe_params_def split: option.splits if_splits)
  with Cons.IH [OF _ st1(2)] show ?case by simp
qed simp

text \<open>
  C36: the default callback of a subscription.  However a program makes, copies, changes and
  ends its parameter objects, the callback of an object subscribed with logs under the topic
  its maker has when a message comes, not under the topic subscribed to, and reads an object
  that is gone once the maker's life has ended; only a callback the caller assigned is free of
  that.
\<close>

theorem default_callback_reads_its_maker:
  assumes "object_run xs (\<lambda>_. None) = Inr st" and "st this = Some p"
    and "zc_subscribers c = []"
  shows "\<exists>c'. spin_subscribe p c = Inr (True, c') \<and>
    zc_subscribers c' = [(sbp_sock_addr p, running (subscriber_task (sbp_sock_addr p) (sbp_topic p) (sbp_callback p)
      True (Some ZMQ_SUB)))] \<and>
    (case fold maker_step xs (\<lambda>_. None) this of
       None \<Rightarrow> \<exists>f. \<forall>later msg. run_callback later (sbp_callback p) msg = Inr ([], [f])
     | Some maker \<Rightarrow> \<forall>later msg. run_callback later (sbp_callback p) msg =
         (case later maker of None \<Rightarrow> Inl Dangling | Some q \<Rightarrow> Inr ([(sbp_topic q, msg)], [])))"
proof -
  have "made_in (\<lambda>_. None :: 'a subscribe_params option) (\<lambda>_. None)" by (simp add: made_in_def)
  from made_in_run [OF this assms(1)] assms(2)
  have "comes_from (sbp_callback p) (fold maker_step xs (\<lambda>_. None) this)" by (simp add: made_in_def)
  then show ?thesis
    using assms(3)
    by (cases "fold maker_step xs (\<lambda>_. None) this")
      (auto simp: comes_from_cases spin_subscribe_def subscribe_params_of_def subscribe_def start_thread_fresh
        run_callback_def)
qed

lemma default_callback_reads_its_maker_witness:
  "\<exists>st :: string objects. \<exists>p c'.
    object_run [Make 7 ''tcp://localhost:5452'' ''pose'', Copy 7 9, Set_Topic 9 ''speed'', End_Life 7] (\<lambda>_. None) =
      Inr st \<and> st 9 = Some p \<and> sbp_topic p = ''speed'' \<and>
    spin_subscribe p new_zmq_client = Inr (True, c') \<and>
    run_callback st (sbp_callback p) [1, 2] = Inl Dangling"
proof -
  let ?xs = "[Make 7 ''tcp://localhost:5452'' ''pose'', Copy 7 9, Set_Topic 9 ''speed'', End_Life 7] ::
    string object_step list"
  obtain st p where st: "object_run ?xs (\<lambda>_. None) = Inr st" "st 9 = Some p" "sbp_topic p = ''speed''" "st 7 = None"
    by (simp add: copy_subscribe_params_def)
  have new: "zc_subscribers (new_zmq_client :: string client_callback zmq_client) = []"
    by (simp add: new_zmq_client_def)
  from default_callback_reads_its_maker [OF st(1,2) new] st show ?thesis by auto
qed

end
