(* ===== verification/Kernel_Threads.thy ===== *)
theory Kernel_Threads
  imports Kermit_Kernel
begin

text \<open>
  The threads of the robot's kernel, one memory access at a time: the subscriber that runs the
  drive callback and the server that runs the ping handler, both under \<^verbatim>\<open>mutex_lock\<close> of
  \<^verbatim>\<open>src/control/NetworkPatterns.cpp\<close>, the sender of \<^verbatim>\<open>src/kernel/KermitNetworkInterface.cpp\<close>,
  which takes no lock, and the publisher, which takes \<^verbatim>\<open>guard\<close> only.  A thread is the list of the
  actions it still has to do; an access to a float is one action, as on the target.  Between
  two actions of a thread the others may do any number of theirs.  \<open>Kermit_Kernel\<close> has the
  same callbacks as single steps; the theorems here say how far the two views agree.
\<close>

section \<open>Actions, threads and jobs\<close>

datatype field = V | W | W_Err | Dt

datatype thread = Subscriber | Server | Sender | Publisher

text \<open>
  A job is one round of a thread's loop: a drive message, already decoded, a state request, a
  frame to the motor controller (with the order in which the two arguments are read, which
  C++ leaves open, and the response), a publication.
\<close>

datatype job =
    Drive_Job float32 float32
  | Ping_Job u16 u64
  | Send_Job bool "state_resp option"
  | Publish_Job

datatype action =
    Lock_Callbacks job
  | Unlock_Callbacks
  | Lock_Guard
  | Unlock_Guard
  | Set_Receiving bool
  | Test_Receiving float32 float32
  | Write_Lin float32
  | Write_Ang float32
  | Read_Lin
  | Read_Ang
  | Send_Frame
  | Write_Measured field float32
  | Read_Measured field

fun thread_of :: "job \<Rightarrow> thread" where
  "thread_of (Drive_Job lin ang) = Subscriber"
| "thread_of (Ping_Job code excess) = Server"
| "thread_of (Send_Job ang_first response) = Sender"
| "thread_of Publish_Job = Publisher"

section \<open>The code of a job\<close>

definition update_code :: "float32 \<Rightarrow> float32 \<Rightarrow> action list" where
  "update_code lin ang = [Lock_Guard, Write_Lin lin, Write_Ang ang, Unlock_Guard]"

text \<open>The tests of a handler, each with the value it writes to \<^verbatim>\<open>receiving_cvels\<close>.\<close>

definition flag_code :: "u64 \<Rightarrow> (nat \<times> bool) list \<Rightarrow> action list" where
  "flag_code excess tests = map (\<lambda>(n, b). Set_Receiving b) (filter (\<lambda>(n, b). has_flag excess n) tests)"

definition handler_code :: "u16 \<Rightarrow> u64 \<Rightarrow> action list" where
  "handler_code code excess =
     (if code = STOP_EVERYTHING then Set_Receiving False # update_code 0 0
      else flag_code excess
        (if code = DUMP then
           [(ENTERING_STATE, False), (START_DUMPING, False), (CLEAN_END_DUMPING, False),
            (ABORT_DUMPING, False), (EXITING_STATE, False)]
         else if code = MINE then
           [(ENTERING_STATE, False), (START_MINING, False), (CLEAN_END_MINING, False),
            (ABORT_MINING, False), (EXITING_STATE, False)]
         else if code = MOVE_TO_DUMP \<or> code = MOVE_TO_MINE then
           [(ENTERING_STATE, False), (START_DRIVING, True), (STOP_DRIVING, False), (EXITING_STATE, False)]
         else if code = INIT_STATE then
           [(ENTERING_STATE, False), (SYS_ON, False), (ZERO_ALL, False), (DEPLOY_CAMERA, False)]
         else if code = CLEAN_EXIT then
           [(ENTERING_STATE, False), (RETRACT_ALL, True), (SYS_OFF, False)]
         else []))"

definition sender_code :: "bool \<Rightarrow> state_resp option \<Rightarrow> action list" where
  "sender_code ang_first response =
     (if ang_first then [Read_Ang, Read_Lin] else [Read_Lin, Read_Ang]) @ [Send_Frame] @
     (case response of
        None \<Rightarrow> []
      | Some r \<Rightarrow> [Write_Measured V (sr_v r), Write_Measured W (sr_w r),
          Write_Measured W_Err (sr_w_err r), Write_Measured Dt (sr_dt r)])"

definition publisher_code :: "action list" where
  "publisher_code =
     [Lock_Guard, Read_Measured V, Read_Measured W, Read_Measured W_Err, Read_Measured Dt, Unlock_Guard]"

fun code_of :: "job \<Rightarrow> action list" where
  "code_of (Drive_Job lin ang) =
     [Lock_Callbacks (Drive_Job lin ang), Test_Receiving lin ang, Unlock_Callbacks]"
| "code_of (Ping_Job code excess) =
     Lock_Callbacks (Ping_Job code excess) # handler_code code excess @ [Unlock_Callbacks]"
| "code_of (Send_Job ang_first response) = sender_code ang_first response"
| "code_of Publish_Job = publisher_code"

section \<open>States and steps\<close>

text \<open>
  The shared variables, the owners of the two mutexes, the sender's arguments, the publisher's
  copy, and as history the callbacks in the order in which they got the mutex and the frames sent.
\<close>

record threads =
  th_code :: "thread \<Rightarrow> action list"
  th_callbacks :: "thread option"
  th_guard :: "thread option"
  th_receiving :: bool
  th_lin :: float32
  th_ang :: float32
  th_arg_lin :: float32
  th_arg_ang :: float32
  th_measured :: "field \<Rightarrow> float32 option"
  th_copy :: "field \<Rightarrow> float32 option"
  th_log :: "job list"
  th_frames :: "(float32 \<times> float32) list"

definition initial :: "kermit \<Rightarrow> threads" where
  "initial k =
     \<lparr>th_code = (\<lambda>_. []), th_callbacks = None, th_guard = None,
      th_receiving = ke_receiving_cvels k, th_lin = tn_lin (ke_teensy k), th_ang = tn_ang (ke_teensy k),
      th_arg_lin = 0, th_arg_ang = 0, th_measured = (\<lambda>_. None), th_copy = (\<lambda>_. None),
      th_log = [], th_frames = []\<rparr>"

text \<open>
  \<open>perform t a as s\<close>: thread \<open>t\<close> does \<open>a\<close> and has \<open>as\<close> left.  A mutex that is taken blocks; the
  test of \<^verbatim>\<open>receiving_cvels\<close> goes on with one of the two calls of \<^verbatim>\<open>update_teensy_message\<close>.
\<close>

fun perform :: "thread \<Rightarrow> action \<Rightarrow> action list \<Rightarrow> threads \<Rightarrow> threads option" where
  "perform t (Lock_Callbacks j) as s =
     (if th_callbacks s = None
      then Some (s\<lparr>th_code := (th_code s)(t := as), th_callbacks := Some t, th_log := th_log s @ [j]\<rparr>)
      else None)"
| "perform t Unlock_Callbacks as s = Some (s\<lparr>th_code := (th_code s)(t := as), th_callbacks := None\<rparr>)"
| "perform t Lock_Guard as s =
     (if th_guard s = None then Some (s\<lparr>th_code := (th_code s)(t := as), th_guard := Some t\<rparr>) else None)"
| "perform t Unlock_Guard as s = Some (s\<lparr>th_code := (th_code s)(t := as), th_guard := None\<rparr>)"
| "perform t (Set_Receiving b) as s = Some (s\<lparr>th_code := (th_code s)(t := as), th_receiving := b\<rparr>)"
| "perform t (Test_Receiving lin ang) as s =
     Some (s\<lparr>th_code := (th_code s)(t :=
       (if \<not> th_receiving s then update_code 0 0 else update_code lin ang) @ as)\<rparr>)"
| "perform t (Write_Lin x) as s = Some (s\<lparr>th_code := (th_code s)(t := as), th_lin := x\<rparr>)"
| "perform t (Write_Ang x) as s = Some (s\<lparr>th_code := (th_code s)(t := as), th_ang := x\<rparr>)"
| "perform t Read_Lin as s = Some (s\<lparr>th_code := (th_code s)(t := as), th_arg_lin := th_lin s\<rparr>)"
| "perform t Read_Ang as s = Some (s\<lparr>th_code := (th_code s)(t := as), th_arg_ang := th_ang s\<rparr>)"
| "perform t Send_Frame as s = Some (s\<lparr>th_code := (th_code s)(t := as),
     th_frames := th_frames s @ [(th_arg_lin s, th_arg_ang s)]\<rparr>)"
| "perform t (Write_Measured f x) as s =
     Some (s\<lparr>th_code := (th_code s)(t := as), th_measured := (th_measured s)(f \<mapsto> x)\<rparr>)"
| "perform t (Read_Measured f) as s =
     Some (s\<lparr>th_code := (th_code s)(t := as), th_copy := (th_copy s)(f := th_measured s f)\<rparr>)"

text \<open>A thread that is through with a job takes up the next, or does its next action.\<close>

datatype happening = Begin job | Act thread

fun happen :: "happening \<Rightarrow> threads \<Rightarrow> threads option" where
  "happen (Begin j) s =
     (if th_code s (thread_of j) = []
      then Some (s\<lparr>th_code := (th_code s)(thread_of j := code_of j)\<rparr>) else None)"
| "happen (Act t) s = (case th_code s t of [] \<Rightarrow> None | a # as \<Rightarrow> perform t a as s)"

fun run_threads :: "happening list \<Rightarrow> threads \<Rightarrow> threads option" where
  "run_threads [] s = Some s"
| "run_threads (e # es) s = Option.bind (happen e s) (run_threads es)"

lemma run_threads_append:
  "run_threads (es @ fs) s = Option.bind (run_threads es s) (run_threads fs)"
  by (induction es arbitrary: s) (auto split: option.split bind_split)

text \<open>Invariants of runs, once for all.\<close>

lemma run_threads_invariant:
  assumes "run_threads es s = Some s'" and "P s"
    and "\<And>s j. P s \<Longrightarrow> th_code s (thread_of j) = [] \<Longrightarrow>
      P (s\<lparr>th_code := (th_code s)(thread_of j := code_of j)\<rparr>)"
    and "\<And>s s1 t a as. P s \<Longrightarrow> th_code s t = a # as \<Longrightarrow> perform t a as s = Some s1 \<Longrightarrow> P s1"
  shows "P s'"
  using assms(1,2)
proof (induction es arbitrary: s)
  case Nil
  then show ?case by simp
next
  case (Cons e es)
  then obtain s1 where h: "happen e s = Some s1" "run_threads es s1 = Some s'"
    by (auto simp: bind_eq_Some_conv)
  then have "P s1"
    using Cons.prems assms(3,4) by (cases e) (auto split: if_splits list.splits)
  with Cons.IH h(2) show ?case by blast
qed

section \<open>What is left of a callback\<close>

text \<open>The flag and the two values, and what a callback does to them when it is one step.\<close>

type_synonym view = "bool \<times> float32 \<times> float32"

definition kermit_view :: "kermit \<Rightarrow> view" where
  "kermit_view k = (ke_receiving_cvels k, tn_lin (ke_teensy k), tn_ang (ke_teensy k))"

definition view_of :: "threads \<Rightarrow> view" where
  "view_of s = (th_receiving s, th_lin s, th_ang s)"

text \<open>A job as one step of the kernel, by the handlers of \<open>Kermit_Kernel\<close>.\<close>

fun whole :: "job \<Rightarrow> kermit \<Rightarrow> kermit" where
  "whole (Drive_Job lin ang) k =
     (if \<not> ke_receiving_cvels k then update_teensy_message 0 0 k else update_teensy_message lin ang k)"
| "whole (Ping_Job code excess) k =
     (case robot_ping_handler \<lparr>pg_type = STATE_REQUEST, pg_code = code, pg_excess = excess\<rparr> k of
        Inr (_, k') \<Rightarrow> k' | Inl _ \<Rightarrow> k)"
| "whole _ k = k"

fun serial :: "job \<Rightarrow> view \<Rightarrow> view" where
  "serial (Drive_Job lin ang) (r, _, _) = (if r then (r, lin, ang) else (r, 0, 0))"
| "serial (Ping_Job code excess) (r, l, a) =
     (if code = STOP_EVERYTHING then (False, 0, 0)
      else (case drive_effect code excess of None \<Rightarrow> r | Some b \<Rightarrow> b, l, a))"
| "serial _ v = v"

lemma kermit_view_whole: "kermit_view (whole j k) = serial j (kermit_view k)"
  by (cases j) (auto simp: kermit_view_def update_teensy_message_def robot_ping_handler_eq
      apply_effect_def set_receiving_def drive_effect_def Let_def split: option.split)

lemma kermit_view_fold: "kermit_view (fold whole js k) = fold serial js (kermit_view k)"
  by (induction js arbitrary: k) (simp_all add: kermit_view_whole)

text \<open>What the rest of a callback will do to the view, up to the release of its mutex.\<close>

fun effect :: "action list \<Rightarrow> view \<Rightarrow> view" where
  "effect [] v = v"
| "effect (Unlock_Callbacks # as) v = v"
| "effect (Set_Receiving b # as) (r, l, a) = effect as (b, l, a)"
| "effect (Test_Receiving lin ang # as) (r, l, a) = effect as (if r then (r, lin, ang) else (r, 0, 0))"
| "effect (Write_Lin x # as) (r, l, a) = effect as (r, x, a)"
| "effect (Write_Ang x # as) (r, l, a) = effect as (r, l, x)"
| "effect (_ # as) v = effect as v"

lemma effect_update_code [simp]: "effect (update_code lin ang @ as) (r, l, a) = effect as (r, lin, ang)"
  by (simp add: update_code_def)

lemma effect_flag_code:
  "effect (flag_code excess tests @ as) (r, l, a) =
    effect as (fold (\<lambda>(n, b) r. if has_flag excess n then b else r) tests r, l, a)"
  by (induction tests arbitrary: r) (auto simp: flag_code_def)

lemma effect_handler_code:
  "effect (handler_code code excess @ [Unlock_Callbacks]) v = serial (Ping_Job code excess) v"
proof -
  obtain r l a where v: "v = (r, l, a)" by (cases v) auto
  consider "code = STOP_EVERYTHING" | "code = DUMP" | "code = MINE" | "code = MOVE_TO_DUMP"
    | "code = MOVE_TO_MINE" | "code = INIT_STATE" | "code = CLEAN_EXIT"
    | "code \<notin> {STOP_EVERYTHING, DUMP, MINE, MOVE_TO_DUMP, MOVE_TO_MINE, INIT_STATE, CLEAN_EXIT}"
    by blast
  then show ?thesis
    by cases (simp_all add: v handler_code_def drive_effect_def effect_flag_code const_simps)
qed

text \<open>
  \<open>harmless r as\<close>: with the flag at \<open>r\<close>, the rest \<open>as\<close> of a callback writes no velocity but
  zero and releases the mutex with the flag down.
\<close>

fun harmless :: "bool \<Rightarrow> action list \<Rightarrow> bool" where
  "harmless r [] \<longleftrightarrow> True"
| "harmless r (Lock_Callbacks j # as) \<longleftrightarrow> harmless r as"
| "harmless r (Unlock_Callbacks # as) \<longleftrightarrow> \<not> r"
| "harmless r (Set_Receiving b # as) \<longleftrightarrow> harmless b as"
| "harmless r (Test_Receiving lin ang # as) \<longleftrightarrow> \<not> r \<and> harmless r as"
| "harmless r (Write_Lin x # as) \<longleftrightarrow> x = 0 \<and> harmless r as"
| "harmless r (Write_Ang x # as) \<longleftrightarrow> x = 0 \<and> harmless r as"
| "harmless r (_ # as) \<longleftrightarrow> harmless r as"

fun switches_on :: "job \<Rightarrow> bool" where
  "switches_on (Ping_Job code excess) \<longleftrightarrow> drive_effect code excess = Some True"
| "switches_on _ \<longleftrightarrow> False"

lemma harmless_update_code [simp]: "harmless r (update_code 0 0 @ as) \<longleftrightarrow> harmless r as"
  by (simp add: update_code_def)

lemma harmless_flag_code [simp]:
  "harmless r (flag_code excess tests @ as) \<longleftrightarrow>
    harmless (fold (\<lambda>(n, b) r. if has_flag excess n then b else r) tests r) as"
proof (induction tests arbitrary: r)
  case (Cons x tests)
  then show ?case by (cases x) (simp add: flag_code_def)
qed (simp add: flag_code_def)

lemma harmless_handler_code:
  assumes "drive_effect code excess \<noteq> Some True"
  shows "harmless False (handler_code code excess @ [Unlock_Callbacks])"
proof (cases "code = STOP_EVERYTHING")
  case True
  then show ?thesis by (simp add: handler_code_def)
next
  case False
  then obtain tests where h: "handler_code code excess = flag_code excess tests"
    by (simp add: handler_code_def)
  have "effect (handler_code code excess @ [Unlock_Callbacks]) (False, 0, 0) =
      (case drive_effect code excess of None \<Rightarrow> False | Some b \<Rightarrow> b, 0, 0)"
    using False by (simp add: effect_handler_code)
  with assms show ?thesis
    by (simp add: h effect_flag_code split: option.splits)
qed

text \<open>
  The discipline of the callback mutex: what is locked is released, the shared variables are
  touched in between only, and the code after a lock does what its job does and, if the job
  does not switch driving on, is harmless.  \<open>guarded\<close> is
  the same for \<^verbatim>\<open>guard\<close>, which is taken last.
\<close>

fun disciplined :: "bool \<Rightarrow> action list \<Rightarrow> bool" where
  "disciplined held [] \<longleftrightarrow> \<not> held"
| "disciplined held (Lock_Callbacks j # as) \<longleftrightarrow> \<not> held \<and> disciplined True as \<and>
     effect as = serial j \<and> (switches_on j \<or> harmless False as)"
| "disciplined held (Unlock_Callbacks # as) \<longleftrightarrow> held \<and> disciplined False as"
| "disciplined held (Set_Receiving b # as) \<longleftrightarrow> held \<and> disciplined held as"
| "disciplined held (Test_Receiving lin ang # as) \<longleftrightarrow> held \<and> disciplined held as"
| "disciplined held (Write_Lin x # as) \<longleftrightarrow> held \<and> disciplined held as"
| "disciplined held (Write_Ang x # as) \<longleftrightarrow> held \<and> disciplined held as"
| "disciplined held (_ # as) \<longleftrightarrow> disciplined held as"

fun guarded :: "bool \<Rightarrow> action list \<Rightarrow> bool" where
  "guarded held [] \<longleftrightarrow> \<not> held"
| "guarded held (Lock_Guard # as) \<longleftrightarrow> \<not> held \<and> guarded True as"
| "guarded held (Unlock_Guard # as) \<longleftrightarrow> held \<and> guarded False as"
| "guarded held (Lock_Callbacks j # as) \<longleftrightarrow> \<not> held \<and> guarded held as"
| "guarded held (Test_Receiving lin ang # as) \<longleftrightarrow> \<not> held \<and> guarded held as"
| "guarded held (_ # as) \<longleftrightarrow> guarded held as"

lemma disciplined_update_code [simp]:
  "disciplined held (update_code lin ang @ as) \<longleftrightarrow> held \<and> disciplined held as"
  by (auto simp: update_code_def)

lemma guarded_update_code [simp]: "guarded held (update_code lin ang @ as) \<longleftrightarrow> \<not> held \<and> guarded held as"
  by (auto simp: update_code_def)

lemma disciplined_flag_code [simp]:
  "disciplined True (flag_code excess tests @ as) \<longleftrightarrow> disciplined True as"
  by (induction tests) (auto simp: flag_code_def)

lemma guarded_flag_code [simp]: "guarded held (flag_code excess tests @ as) \<longleftrightarrow> guarded held as"
  by (induction tests) (auto simp: flag_code_def)

lemma disciplined_handler_code [simp]:
  "disciplined True (handler_code code excess @ as) \<longleftrightarrow> disciplined True as"
  by (simp add: handler_code_def)

lemma guarded_handler_code [simp]:
  "guarded False (handler_code code excess @ as) \<longleftrightarrow> guarded False as"
  by (simp add: handler_code_def)

lemma disciplined_code_of: "disciplined False (code_of j)"
proof (cases j)
  case (Ping_Job code excess)
  then show ?thesis
    using harmless_handler_code [of code excess] by (auto simp: effect_handler_code fun_eq_iff simp del: serial.simps)
qed (auto simp: sender_code_def publisher_code_def fun_eq_iff split: option.split)

lemma guarded_code_of: "guarded False (code_of j)"
  by (cases j) (auto simp: sender_code_def publisher_code_def split: option.split)

section \<open>The invariant of the threads\<close>

definition threads_inv :: "view \<Rightarrow> threads \<Rightarrow> bool" where
  "threads_inv v0 s \<longleftrightarrow>
     (\<forall>t. disciplined (th_callbacks s = Some t) (th_code s t)) \<and>
     (\<forall>t. guarded (th_guard s = Some t) (th_code s t)) \<and>
     (case th_callbacks s of None \<Rightarrow> view_of s | Some t \<Rightarrow> effect (th_code s t) (view_of s)) =
       fold serial (th_log s) v0"

lemma threads_invD:
  assumes "threads_inv v0 s"
  shows "disciplined (th_callbacks s = Some t) (th_code s t)"
    and "guarded (th_guard s = Some t) (th_code s t)"
    and "th_callbacks s = None \<Longrightarrow> view_of s = fold serial (th_log s) v0"
    and "th_callbacks s = Some u \<Longrightarrow> effect (th_code s u) (view_of s) = fold serial (th_log s) v0"
  using assms by (auto simp: threads_inv_def)

lemma threads_inv_begin:
  assumes "threads_inv v0 s" and "th_code s (thread_of j) = []"
  shows "threads_inv v0 (s\<lparr>th_code := (th_code s)(thread_of j := code_of j)\<rparr>)"
proof -
  have "th_callbacks s \<noteq> Some (thread_of j)" "th_guard s \<noteq> Some (thread_of j)"
    using threads_invD(1,2) [OF assms(1), of "thread_of j"] assms(2) by auto
  with assms disciplined_code_of [of j] guarded_code_of [of j] show ?thesis
    by (auto simp: threads_inv_def view_of_def split: option.splits)
qed

lemma threads_inv_perform:
  assumes inv: "threads_inv v0 s" and code: "th_code s t = a # as" and p: "perform t a as s = Some s'"
  shows "threads_inv v0 s'"
proof -
  note d = threads_invD(1) [OF inv] and g = threads_invD(2) [OF inv]
  have dt: "disciplined (th_callbacks s = Some t) (a # as)" and gt: "guarded (th_guard s = Some t) (a # as)"
    using d [of t] g [of t] code by simp_all
  have do: "u \<noteq> t \<Longrightarrow> disciplined False (th_code s u)" if "th_callbacks s = Some t" for u
    using d [of u] that by simp
  have go: "u \<noteq> t \<Longrightarrow> guarded False (th_code s u)" if "th_guard s = Some t" for u
    using g [of u] that by simp
  show ?thesis
    using inv code p dt gt do go
    by (cases a) (auto simp: threads_inv_def view_of_def split: if_splits option.splits)
qed

lemma threads_inv_run:
  assumes "run_threads es s = Some s'" and "threads_inv v0 s"
  shows "threads_inv v0 s'"
  by (rule run_threads_invariant [where P = "threads_inv v0", OF assms])
    (auto intro: threads_inv_begin threads_inv_perform)

lemma threads_inv_initial: "threads_inv (kermit_view k) (initial k)"
  by (simp add: threads_inv_def initial_def view_of_def kermit_view_def)

section \<open>After a stop\<close>

text \<open>
  What the sender's rest has read when it sends: \<open>sends_zero l a as\<close> with the arguments known
  to be zero where \<open>l\<close> and \<open>a\<close> say so.
\<close>

fun sends_zero :: "bool \<Rightarrow> bool \<Rightarrow> action list \<Rightarrow> bool" where
  "sends_zero l a [] \<longleftrightarrow> True"
| "sends_zero l a (Read_Lin # as) \<longleftrightarrow> sends_zero True a as"
| "sends_zero l a (Read_Ang # as) \<longleftrightarrow> sends_zero l True as"
| "sends_zero l a (Send_Frame # as) \<longleftrightarrow> l \<and> a \<and> sends_zero l a as"
| "sends_zero l a (_ # as) \<longleftrightarrow> sends_zero l a as"

lemma sends_zero_sender_code: "sends_zero l a (sender_code ang_first response)"
  by (simp add: sender_code_def split: option.split)

text \<open>Only the sender touches its arguments and sends; the callbacks' code is theirs.\<close>

fun sends :: "action \<Rightarrow> bool" where
  "sends Send_Frame \<longleftrightarrow> True" | "sends Read_Lin \<longleftrightarrow> True" | "sends Read_Ang \<longleftrightarrow> True" | "sends _ \<longleftrightarrow> False"

definition roles :: "threads \<Rightarrow> bool" where
  "roles s \<longleftrightarrow> (\<forall>t. t \<noteq> Sender \<longrightarrow> (\<forall>a \<in> set (th_code s t). \<not> sends a)) \<and>
     length (filter (\<lambda>a. a = Send_Frame) (th_code s Sender)) \<le> 1"

lemma sends_update_code [simp]: "a \<in> set (update_code x y) \<Longrightarrow> \<not> sends a"
  by (auto simp: update_code_def)

lemma no_frame_in_update_code [simp]: "filter (\<lambda>a. a = Send_Frame) (update_code x y) = []"
  by (simp add: update_code_def)

lemma sends_flag_code: "a \<in> set (flag_code excess tests) \<Longrightarrow> \<not> sends a"
  by (auto simp: flag_code_def)

lemma sends_handler_code: "a \<in> set (handler_code code excess) \<Longrightarrow> \<not> sends a"
  using sends_flag_code [of a excess] by (cases "code = STOP_EVERYTHING") (auto simp: handler_code_def)

lemma sends_code_of: "thread_of j \<noteq> Sender \<Longrightarrow> a \<in> set (code_of j) \<Longrightarrow> \<not> sends a"
  by (cases j) (auto simp: publisher_code_def sends_handler_code)

lemma one_frame: "thread_of j = Sender \<Longrightarrow> length (filter (\<lambda>a. a = Send_Frame) (code_of j)) \<le> 1"
  by (cases j) (auto simp: sender_code_def split: option.split)

lemma roles_begin:
  "roles s \<Longrightarrow> roles (s\<lparr>th_code := (th_code s)(thread_of j := code_of j)\<rparr>)"
  using sends_code_of [of j] one_frame [of j] by (auto simp: roles_def)

lemma roles_perform:
  "roles s \<Longrightarrow> th_code s t = a # as \<Longrightarrow> perform t a as s = Some s' \<Longrightarrow> roles s'"
  by (cases a) (auto simp: roles_def split: if_splits)

lemma roles_initial: "roles (initial k)"
  by (simp add: roles_def initial_def)

text \<open>The log and the frames only grow.\<close>

lemma perform_grows:
  "perform t a as s = Some s' \<Longrightarrow>
    (\<exists>js. th_log s' = th_log s @ js) \<and> (\<exists>fs. th_frames s' = th_frames s @ fs)"
  by (cases a) (auto split: if_splits)

definition still :: "threads \<Rightarrow> bool" where
  "still s \<longleftrightarrow> th_lin s = 0 \<and> th_ang s = 0 \<and>
     (case th_callbacks s of None \<Rightarrow> \<not> th_receiving s | Some t \<Rightarrow> harmless (th_receiving s) (th_code s t))"

lemma still_begin:
  assumes "threads_inv v0 s" and "still s" and "th_code s (thread_of j) = []"
  shows "still (s\<lparr>th_code := (th_code s)(thread_of j := code_of j)\<rparr>)"
proof -
  have "th_callbacks s \<noteq> Some (thread_of j)"
    using threads_invD(1) [OF assms(1), of "thread_of j"] assms(3) by auto
  with assms(2) show ?thesis by (auto simp: still_def split: option.splits)
qed

lemma still_perform:
  assumes inv: "threads_inv v0 s" and "still s" and code: "th_code s t = a # as"
    and "perform t a as s = Some s'" and "\<forall>j. a = Lock_Callbacks j \<longrightarrow> \<not> switches_on j"
  shows "still s'"
proof -
  have "disciplined (th_callbacks s = Some t) (a # as)"
    using threads_invD(1) [OF inv, of t] code by simp
  with assms(2-) show ?thesis
    by (cases a) (auto simp: still_def split: if_splits option.splits)
qed

text \<open>
  The frames sent since \<open>fs0\<close>: all zero but the first, and that too if the sender had
  nothing in hand (\<open>idle\<close>).
\<close>

definition quiet :: "bool \<Rightarrow> (float32 \<times> float32) list \<Rightarrow> threads \<Rightarrow> bool" where
  "quiet idle fs0 s \<longleftrightarrow> (\<exists>fs. th_frames s = fs0 @ fs \<and> (\<forall>f \<in> set (tl fs). f = (0, 0)) \<and>
     (idle \<longrightarrow> (\<forall>f \<in> set fs. f = (0, 0))) \<and>
     (idle \<or> fs \<noteq> [] \<longrightarrow> sends_zero (th_arg_lin s = 0) (th_arg_ang s = 0) (th_code s Sender)))"

lemma sends_zero_no_frame: "filter (\<lambda>a. a = Send_Frame) as = [] \<Longrightarrow> sends_zero l a as"
  by (induction l a as rule: sends_zero.induct) (auto split: if_splits)

lemma quiet_begin:
  assumes "quiet idle fs0 s"
  shows "quiet idle fs0 (s\<lparr>th_code := (th_code s)(thread_of j := code_of j)\<rparr>)"
  using assms by (cases j) (auto simp: quiet_def sends_zero_sender_code)

lemma quiet_send:
  assumes "quiet idle fs0 s" and "roles s" and "th_code s Sender = Send_Frame # as"
  shows "quiet idle fs0 (s\<lparr>th_code := (th_code s)(Sender := as),
    th_frames := th_frames s @ [(th_arg_lin s, th_arg_ang s)]\<rparr>)"
proof -
  from assms(1) obtain fs where fs: "th_frames s = fs0 @ fs" "\<forall>f \<in> set (tl fs). f = (0, 0)"
    "idle \<longrightarrow> (\<forall>f \<in> set fs. f = (0, 0))"
    "idle \<or> fs \<noteq> [] \<longrightarrow> sends_zero (th_arg_lin s = 0) (th_arg_ang s = 0) (Send_Frame # as)"
    by (auto simp: quiet_def assms(3))
  have rest: "sends_zero l a as" for l a
    using assms(2,3) by (intro sends_zero_no_frame) (auto simp: roles_def)
  show ?thesis
    unfolding quiet_def
    by (rule exI [of _ "fs @ [(th_arg_lin s, th_arg_ang s)]"])
      (use fs rest in \<open>cases fs; auto\<close>)
qed

lemma perform_other:
  "\<not> sends a \<Longrightarrow> th_code s t = a # as \<Longrightarrow> perform t a as s = Some s' \<Longrightarrow>
    th_frames s' = th_frames s \<and> th_arg_lin s' = th_arg_lin s \<and> th_arg_ang s' = th_arg_ang s \<and>
    sends_zero x y (th_code s' Sender) = sends_zero x y (th_code s Sender)"
  by (cases a) (auto simp: update_code_def split: if_splits)

lemma quiet_perform:
  assumes "quiet idle fs0 s" and "roles s" and "still s"
    and "th_code s t = a # as" and "perform t a as s = Some s'"
  shows "quiet idle fs0 s'"
proof (cases "sends a")
  case True
  with assms(2,4) have t: "t = Sender" by (auto simp: roles_def)
  show ?thesis
  proof (cases "a = Send_Frame")
    case True
    with assms t quiet_send [of idle fs0 s as] show ?thesis by auto
  next
    case False
    with True assms t show ?thesis by (cases a) (auto simp: quiet_def still_def)
  qed
next
  case False
  with assms(1,4,5) perform_other [OF False, of s t as s'] show ?thesis
    by (simp add: quiet_def)
qed

text \<open>All of it together, as long as no callback that switches driving on gets the mutex.\<close>

definition calm :: "view \<Rightarrow> bool \<Rightarrow> (float32 \<times> float32) list \<Rightarrow> job list \<Rightarrow> threads \<Rightarrow> bool" where
  "calm v0 idle fs0 log s \<longleftrightarrow> threads_inv v0 s \<and> roles s \<and> (\<exists>js. th_log s = log @ js \<and>
     ((\<forall>j \<in> set js. \<not> switches_on j) \<longrightarrow> still s \<and> quiet idle fs0 s))"

lemma perform_log:
  "perform t a as s = Some s' \<Longrightarrow>
    th_log s' = th_log s @ (case a of Lock_Callbacks j \<Rightarrow> [j] | _ \<Rightarrow> [])"
  by (cases a) (auto split: if_splits)

lemma calm_run:
  assumes "run_threads es s = Some s'" and "calm v0 idle fs0 log s"
  shows "calm v0 idle fs0 log s'"
proof (rule run_threads_invariant [where P = "calm v0 idle fs0 log", OF assms])
  fix s j
  assume "calm v0 idle fs0 log s" "th_code s (thread_of j) = []"
  then show "calm v0 idle fs0 log (s\<lparr>th_code := (th_code s)(thread_of j := code_of j)\<rparr>)"
    using threads_inv_begin [of v0 s j] still_begin [of v0 s j] quiet_begin [of idle fs0 s j]
      roles_begin [of s j] by (auto simp: calm_def)
next
  fix s s1 t a as
  assume c: "calm v0 idle fs0 log s" and step: "th_code s t = a # as" "perform t a as s = Some s1"
  then obtain js where js: "th_log s = log @ js"
    "(\<forall>j \<in> set js. \<not> switches_on j) \<Longrightarrow> still s \<and> quiet idle fs0 s"
    by (auto simp: calm_def)
  let ?l = "case a of Lock_Callbacks j \<Rightarrow> [j] | _ \<Rightarrow> []"
  have inv: "threads_inv v0 s" "roles s" using c by (auto simp: calm_def)
  have "still s1 \<and> quiet idle fs0 s1" if off: "\<forall>j \<in> set (js @ ?l). \<not> switches_on j"
  proof -
    have "still s" "quiet idle fs0 s" using off js(2) by auto
    moreover have "\<forall>j. a = Lock_Callbacks j \<longrightarrow> \<not> switches_on j" using off by auto
    ultimately show ?thesis using still_perform quiet_perform inv step by blast
  qed
  then show "calm v0 idle fs0 log s1"
    using threads_inv_perform [OF inv(1) step] roles_perform [OF inv(2) step] perform_log [OF step(2)] js(1)
    by (auto simp: calm_def)
qed

section \<open>Every thread gets on\<close>

fun weight :: "action \<Rightarrow> nat" where
  "weight (Test_Receiving lin ang) = 5"
| "weight _ = 1"

definition work :: "threads \<Rightarrow> nat" where
  "work s = (\<Sum>t \<leftarrow> [Subscriber, Server, Sender, Publisher]. sum_list (map weight (th_code s t)))"

lemma perform_work:
  "th_code s t = a # as \<Longrightarrow> perform t a as s = Some s' \<Longrightarrow> work s' < work s"
  by (cases a; cases t) (auto simp: work_def update_code_def split: if_splits)

lemma threads_move:
  assumes inv: "threads_inv v0 s" and busy: "th_code s u \<noteq> []"
  shows "\<exists>t s'. happen (Act t) s = Some s'"
proof (cases "th_guard s")
  case (Some t)
  then have "guarded True (th_code s t)" using threads_invD(2) [OF inv, of t] by simp
  then obtain a as where c: "th_code s t = a # as" "guarded True (a # as)" by (cases "th_code s t") auto
  then have "perform t a as s \<noteq> None" by (cases a) auto
  with c(1) show ?thesis by (intro exI [of _ t]) auto
next
  case None
  show ?thesis
  proof (cases "th_callbacks s")
    case (Some t)
    then have "disciplined True (th_code s t)" using threads_invD(1) [OF inv, of t] by simp
    then obtain a as where c: "th_code s t = a # as" "disciplined True (a # as)" by (cases "th_code s t") auto
    then have "perform t a as s \<noteq> None" using None by (cases a) auto
    with c(1) show ?thesis by (intro exI [of _ t]) auto
  next
    case free: None
    from busy obtain a as where c: "th_code s u = a # as" by (cases "th_code s u") auto
    then have "perform u a as s \<noteq> None" using None free by (cases a) auto
    with c show ?thesis by (intro exI [of _ u]) auto
  qed
qed

lemma idle_unlocked:
  assumes "threads_inv v0 s" and "\<forall>t. th_code s t = []"
  shows "th_callbacks s = None \<and> th_guard s = None"
proof (rule conjI; rule ccontr)
  assume "th_callbacks s \<noteq> None"
  then obtain t where "th_callbacks s = Some t" by auto
  then show False using threads_invD(1) [OF assms(1), of t] assms(2) by simp
next
  assume "th_guard s \<noteq> None"
  then obtain t where "th_guard s = Some t" by auto
  then show False using threads_invD(2) [OF assms(1), of t] assms(2) by simp
qed

lemma acts_bounded:
  "run_threads (map Act ts) s = Some s' \<Longrightarrow> length ts + work s' \<le> work s"
proof (induction ts arbitrary: s)
  case (Cons t ts)
  then obtain a as s1 where "th_code s t = a # as" "perform t a as s = Some s1"
    "run_threads (map Act ts) s1 = Some s'"
    by (auto simp: bind_eq_Some_conv split: list.splits)
  with Cons.IH perform_work [of s t a as s1] show ?case by fastforce
qed simp

section \<open>Where the values of a frame come from\<close>

text \<open>The values a code may write, tested or not.\<close>

fun writes_in :: "float32 set \<Rightarrow> float32 set \<Rightarrow> action \<Rightarrow> bool" where
  "writes_in L A (Write_Lin x) \<longleftrightarrow> x \<in> L"
| "writes_in L A (Write_Ang x) \<longleftrightarrow> x \<in> A"
| "writes_in L A (Test_Receiving x y) \<longleftrightarrow> x \<in> L \<and> y \<in> A"
| "writes_in L A _ \<longleftrightarrow> True"

definition values_in :: "float32 set \<Rightarrow> float32 set \<Rightarrow> threads \<Rightarrow> bool" where
  "values_in L A s \<longleftrightarrow> (\<forall>t. \<forall>a \<in> set (th_code s t). writes_in L A a) \<and>
     th_lin s \<in> L \<and> th_ang s \<in> A \<and> th_arg_lin s \<in> L \<and> th_arg_ang s \<in> A \<and>
     set (th_frames s) \<subseteq> L \<times> A"

lemma writes_in_update_code:
  "0 \<in> L \<Longrightarrow> 0 \<in> A \<Longrightarrow> x \<in> L \<Longrightarrow> y \<in> A \<Longrightarrow>
    \<forall>a \<in> set (if b then update_code 0 0 else update_code x y). writes_in L A a"
  by (simp add: update_code_def)

lemma values_in_code:
  "values_in L A s \<Longrightarrow> \<forall>a \<in> set as. writes_in L A a \<Longrightarrow>
    values_in L A (s\<lparr>th_code := (th_code s)(t := as)\<rparr>)"
  by (simp add: values_in_def)

lemma values_in_perform:
  assumes "values_in L A s" and "0 \<in> L" and "0 \<in> A" and "th_code s t = a # as" and "perform t a as s = Some s'"
  shows "values_in L A s'"
proof -
  have "\<forall>b \<in> set (th_code s t). writes_in L A b" using assms(1) by (simp add: values_in_def)
  then have w: "writes_in L A a" "\<forall>b \<in> set as. writes_in L A b" by (simp_all add: assms(4))
  note step = values_in_code [OF assms(1) w(2), of t]
  have v: "th_lin s \<in> L" "th_ang s \<in> A" "th_arg_lin s \<in> L" "th_arg_ang s \<in> A"
    "set (th_frames s) \<subseteq> L \<times> A" using assms(1) by (simp_all add: values_in_def)
  show ?thesis
  proof (cases "\<exists>x y. a = Test_Receiving x y")
    case True
    then obtain x y where a: "a = Test_Receiving x y" by blast
    have "\<forall>b \<in> set ((if \<not> th_receiving s then update_code 0 0 else update_code x y) @ as). writes_in L A b"
      using writes_in_update_code [OF assms(2,3), of x y "\<not> th_receiving s"] w a by auto
    from values_in_code [OF assms(1) this, of t] assms(5) a show ?thesis by simp
  next
    case False
    then have "th_code s' = (th_code s)(t := as)" using assms(5) by (cases a) (auto split: if_splits)
    with step have "\<forall>u. \<forall>b \<in> set (th_code s' u). writes_in L A b" by (simp add: values_in_def)
    moreover have "th_lin s' \<in> L \<and> th_ang s' \<in> A \<and> th_arg_lin s' \<in> L \<and> th_arg_ang s' \<in> A \<and>
        set (th_frames s') \<subseteq> L \<times> A"
      using False w(1) v assms(5) by (cases a) (auto split: if_splits)
    ultimately show ?thesis by (simp add: values_in_def)
  qed
qed

lemma writes_in_code_of:
  assumes "0 \<in> L" and "0 \<in> A" and "\<And>x y. j = Drive_Job x y \<Longrightarrow> x \<in> L \<and> y \<in> A" and "a \<in> set (code_of j)"
  shows "writes_in L A a"
proof (cases j)
  case (Ping_Job code excess)
  have "\<forall>a \<in> set (flag_code excess tests). writes_in L A a" for tests
    by (auto simp: flag_code_def)
  then show ?thesis using assms Ping_Job
    by (cases "code = STOP_EVERYTHING") (auto simp: handler_code_def update_code_def)
qed (use assms in \<open>auto simp: sender_code_def publisher_code_def split: option.splits if_splits\<close>)

lemma values_in_run:
  assumes "0 \<in> L" and "0 \<in> A"
  shows "run_threads es s = Some s' \<Longrightarrow> values_in L A s \<Longrightarrow>
    (\<And>x y. Begin (Drive_Job x y) \<in> set es \<Longrightarrow> x \<in> L \<and> y \<in> A) \<Longrightarrow> values_in L A s'"
proof (induction es arbitrary: s)
  case (Cons e es)
  then obtain s1 where h: "happen e s = Some s1" "run_threads es s1 = Some s'"
    by (auto simp: bind_eq_Some_conv)
  have "values_in L A s1"
  proof (cases e)
    case (Begin j)
    with Cons.prems(3) have "\<And>x y. j = Drive_Job x y \<Longrightarrow> x \<in> L \<and> y \<in> A" by auto
    from writes_in_code_of [OF assms this] h(1) Begin Cons.prems(2) show ?thesis
      by (auto simp: values_in_def split: if_splits)
  next
    case (Act t)
    with h(1) Cons.prems(2) assms values_in_perform show ?thesis
      by (auto split: list.splits)
  qed
  with Cons.IH [OF h(2)] Cons.prems(3) show ?case by auto
qed simp

section \<open>Properties\<close>

text \<open>
  C5: The callbacks take effect one after the other: run the four threads of the kernel in any
  interleaving of their single accesses; whenever no callback is inside, the drive flag and the
  two velocities are what the whole callbacks (the handlers of the kernel, each as one step)
  leave, done in the order in which they got the mutex.
\<close>

theorem callbacks_serialize:
  assumes "run_threads es (initial k) = Some s" and "th_callbacks s = None"
  shows "kermit_view (fold whole (th_log s) k) = (th_receiving s, th_lin s, th_ang s)"
  using threads_invD(3) [OF threads_inv_run [OF assms(1) threads_inv_initial] assms(2)]
  by (simp add: kermit_view_fold view_of_def)

text \<open>Two runs the witnesses share: driving switched on and a drive message; then a stop.\<close>

definition drive_run :: "happening list" where
  "drive_run =
     Begin (Ping_Job MOVE_TO_MINE 2) # Begin (Drive_Job 5 7) # replicate 3 (Act Server) @
     replicate 7 (Act Subscriber)"

definition stop_run :: "happening list" where
  "stop_run = Begin (Ping_Job STOP_EVERYTHING 0) # replicate 7 (Act Server)"

lemmas run_simps = Let_def initial_def handler_code_def flag_code_def update_code_def sender_code_def
  has_flag_def numeral_eq_Suc kermit_view_def

lemma drive_run_result:
  "run_threads drive_run (initial k) = Some ((initial k)\<lparr>th_receiving := True, th_lin := 5, th_ang := 7,
     th_log := [Ping_Job MOVE_TO_MINE 2, Drive_Job 5 7]\<rparr>)"
proof -
  have "handler_code MOVE_TO_MINE 2 = [Set_Receiving True]"
    by (simp add: handler_code_def flag_code_def const_simps has_flag_def)
  then show ?thesis
    by (simp add: drive_run_def initial_def update_code_def numeral_eq_Suc fun_upd_twist fun_upd_idem)
qed

lemma stop_run_result:
  "th_code s = (\<lambda>_. []) \<Longrightarrow> th_callbacks s = None \<Longrightarrow> th_guard s = None \<Longrightarrow>
    run_threads stop_run s = Some (s\<lparr>th_receiving := False, th_lin := 0, th_ang := 0,
      th_log := th_log s @ [Ping_Job STOP_EVERYTHING 0]\<rparr>)"
  by (simp add: stop_run_def handler_code_def update_code_def numeral_eq_Suc fun_upd_idem)

lemma callbacks_serialize_witness:
  "\<forall>k. \<exists>s. run_threads drive_run (initial k) = Some s \<and> th_callbacks s = None \<and>
    kermit_view (fold whole (th_log s) k) = (True, 5, 7)" (is "\<forall>k. ?P k")
proof
  fix k :: kermit
  let ?s = "(initial k)\<lparr>th_receiving := True, th_lin := 5, th_ang := 7,
     th_log := [Ping_Job MOVE_TO_MINE 2, Drive_Job 5 7]\<rparr>"
  have "th_callbacks ?s = None" by (simp add: initial_def)
  with callbacks_serialize [OF drive_run_result] drive_run_result [of k] show "?P k"
    by (intro exI [of _ ?s]) simp
qed

text \<open>
  C6: A stop holds although the sender takes no lock.  Once \<^verbatim>\<open>STOP_EVERYTHING\<close> has been handled,
  and until the mutex is given to a request that switches driving on, every further frame
  carries two zeros, whatever drive messages and requests the other threads work on and
  however their accesses interleave with the sender's.  Only the frame the sender was
  putting together at that moment may be different, and only if there was one.
\<close>

theorem stop_holds_under_interleaving:
  assumes "run_threads es (initial k) = Some s" and "th_callbacks s = None"
    and "th_log s = js @ [Ping_Job STOP_EVERYTHING e]"
    and "run_threads es' s = Some s'"
    and "th_log s' = th_log s @ js'" and "\<forall>j \<in> set js'. \<not> switches_on j"
  shows "\<exists>fs. th_frames s' = th_frames s @ fs \<and> (\<forall>f \<in> set (tl fs). f = (0, 0)) \<and>
    (th_code s Sender = [] \<longrightarrow> (\<forall>f \<in> set fs. f = (0, 0)))"
proof -
  let ?v = "kermit_view k" and ?idle = "th_code s Sender = []"
  have inv: "threads_inv ?v s" by (rule threads_inv_run [OF assms(1) threads_inv_initial])
  have roles: "roles s"
    by (rule run_threads_invariant [where P = roles, OF assms(1) roles_initial])
      (auto intro: roles_begin roles_perform)
  have "view_of s = (False, 0, 0)"
    using threads_invD(3) [OF inv assms(2)] assms(3) by (cases "fold serial js ?v") simp
  then have "still s" by (simp add: still_def view_of_def assms(2))
  moreover have "quiet ?idle (th_frames s) s" by (simp add: quiet_def)
  ultimately have "calm ?v ?idle (th_frames s) (th_log s) s"
    using inv roles by (simp add: calm_def)
  from calm_run [OF assms(4) this] assms(5,6) show ?thesis
    by (auto simp: calm_def quiet_def)
qed

lemma stop_holds_under_interleaving_witness:
  "\<forall>k. \<exists>s s'. run_threads (drive_run @ stop_run) (initial k) = Some s \<and>
    run_threads (Begin (Send_Job True None) # replicate 3 (Act Sender)) s = Some s' \<and>
    (\<exists>fs. th_frames s' = th_frames s @ fs \<and> (\<forall>f \<in> set fs. f = (0, 0)))" (is "\<forall>k. ?P k")
proof
  fix k :: kermit
  let ?d = "(initial k)\<lparr>th_receiving := True, th_lin := 5, th_ang := 7,
     th_log := [Ping_Job MOVE_TO_MINE 2, Drive_Job 5 7]\<rparr>"
  let ?s = "?d\<lparr>th_receiving := False, th_lin := 0, th_ang := 0,
      th_log := th_log ?d @ [Ping_Job STOP_EVERYTHING 0]\<rparr>"
  let ?s' = "?s\<lparr>th_frames := [(0, 0)]\<rparr>"
  have r: "run_threads (drive_run @ stop_run) (initial k) = Some ?s"
  proof -
    have "run_threads stop_run ?d = Some ?s"
      by (rule stop_run_result) (simp_all add: initial_def)
    then show ?thesis by (simp only: run_threads_append drive_run_result Option.bind.simps)
  qed
  have r': "run_threads (Begin (Send_Job True None) # replicate 3 (Act Sender)) ?s = Some ?s'"
    by (simp add: sender_code_def initial_def numeral_eq_Suc fun_upd_idem)
  from stop_holds_under_interleaving [OF r _ _ r', of "[Ping_Job MOVE_TO_MINE 2, Drive_Job 5 7]" 0 "[]"]
  have "\<exists>fs. th_frames ?s' = th_frames ?s @ fs \<and> (\<forall>f \<in> set fs. f = (0, 0))"
    by (auto simp: initial_def)
  with r r' show "?P k" by blast
qed

text \<open>
  C23: No deadlock and no livelock: from every state the threads can reach, a schedule of further
  accesses, with no new job, is never longer than the work in hand; and one that cannot be
  continued has brought all four threads to the end of their jobs and left both mutexes free.
  The kernel's two mutexes are always taken in the same order.
\<close>

theorem threads_always_finish:
  assumes "run_threads es (initial k) = Some s" and "run_threads (map Act ts) s = Some s'"
  shows "length ts \<le> work s \<and>
    ((\<forall>t. happen (Act t) s' = None) \<longrightarrow>
      (\<forall>t. th_code s' t = []) \<and> th_callbacks s' = None \<and> th_guard s' = None)"
proof -
  have inv: "threads_inv (kermit_view k) s'"
    by (rule threads_inv_run [OF assms(2) threads_inv_run [OF assms(1) threads_inv_initial]])
  have "\<forall>t. th_code s' t = []" if "\<forall>t. happen (Act t) s' = None"
    using threads_move [OF inv] that by fastforce
  with idle_unlocked [OF inv] acts_bounded [OF assms(2)] show ?thesis by auto
qed

lemma threads_always_finish_witness:
  "\<forall>k. \<exists>s s'. run_threads [Begin (Drive_Job 5 7), Begin Publish_Job, Begin (Send_Job False None)] (initial k) = Some s \<and>
    run_threads (map Act [Publisher, Subscriber, Subscriber]) s = Some s' \<and> 3 \<le> work s" (is "\<forall>k. ?P k")
proof
  fix k :: kermit
  let ?es = "[Begin (Drive_Job 5 7), Begin Publish_Job, Begin (Send_Job False None)]"
  obtain s where s: "run_threads ?es (initial k) = Some s" by (simp add: initial_def)
  obtain s' where s': "run_threads (map Act [Publisher, Subscriber, Subscriber]) s = Some s'"
    using s by (auto simp: initial_def publisher_code_def)
  have "length [Publisher, Subscriber, Subscriber] \<le> work s"
    using threads_always_finish [OF s s'] by blast
  with s s' show "?P k" by (intro exI [of _ s] exI [of _ s']) simp
qed

text \<open>
  C24: Each half of a frame is zero or was commanded: whatever the interleaving, the linear and the
  angular velocity of every frame are zero or the one of a drive message, though not always of
  the same drive message.
\<close>

theorem frame_halves_were_commanded:
  assumes "run_threads es (initial k) = Some s" and "tn_lin (ke_teensy k) = 0" and "tn_ang (ke_teensy k) = 0"
    and "(lin, ang) \<in> set (th_frames s)"
  shows "(lin = 0 \<or> (\<exists>a. Begin (Drive_Job lin a) \<in> set es)) \<and>
    (ang = 0 \<or> (\<exists>l. Begin (Drive_Job l ang) \<in> set es))"
proof -
  let ?L = "insert 0 {l. \<exists>a. Begin (Drive_Job l a) \<in> set es}"
  let ?A = "insert 0 {a. \<exists>l. Begin (Drive_Job l a) \<in> set es}"
  have "values_in ?L ?A (initial k)" using assms(2,3) by (simp add: values_in_def initial_def)
  then have "values_in ?L ?A s" by (intro values_in_run [OF _ _ assms(1)]) auto
  with assms(4) show ?thesis by (auto simp: values_in_def)
qed

definition torn_run :: "happening list" where
  "torn_run =
     Begin (Ping_Job MOVE_TO_MINE 2) # replicate 3 (Act Server) @
     Begin (Drive_Job 5 0) # replicate 7 (Act Subscriber) @
     [Begin (Send_Job False None), Act Sender, Begin (Drive_Job 0 7)] @ replicate 7 (Act Subscriber) @
     [Act Sender, Act Sender]"

lemma torn_run_result:
  "\<exists>s. run_threads torn_run (initial k) = Some s \<and> th_frames s = [(5, 7)] \<and> (\<forall>t. th_code s t = [])"
proof -
  have "handler_code MOVE_TO_MINE 2 = [Set_Receiving True]"
    by (simp add: handler_code_def flag_code_def const_simps has_flag_def)
  then show ?thesis
    by (simp add: torn_run_def initial_def update_code_def sender_code_def numeral_eq_Suc fun_upd_twist
        fun_upd_idem)
qed

lemma frame_halves_were_commanded_witness:
  "\<forall>k. \<exists>s. run_threads torn_run (initial (k\<lparr>ke_teensy := (ke_teensy k)\<lparr>tn_lin := 0, tn_ang := 0\<rparr>\<rparr>)) = Some s \<and>
    th_frames s = [(5, 7)] \<and> (\<exists>a. Begin (Drive_Job 5 a) \<in> set torn_run)" (is "\<forall>k. ?P k")
proof
  fix k :: kermit
  let ?k = "k\<lparr>ke_teensy := (ke_teensy k)\<lparr>tn_lin := 0, tn_ang := 0\<rparr>\<rparr>"
  obtain s where s: "run_threads torn_run (initial ?k) = Some s" "th_frames s = [(5, 7)]"
    using torn_run_result by blast
  from frame_halves_were_commanded [OF s(1), of 5 7] s(2)
  have "\<exists>a. Begin (Drive_Job 5 a) \<in> set torn_run" by simp
  with s show "?P k" by blast
qed

text \<open>
  A frame can be torn: with driving on and the two commands \<open>(5, 0)\<close> and \<open>(0, 7)\<close>, one after the
  other, the motor controller can get \<open>(5, 7)\<close>, a motion nobody commanded, in a run that goes on
  normally.  The comment at the sender's call asks for the mutexes that are missing.
\<close>

theorem frame_can_be_torn:
  "\<exists>es s. run_threads es (initial k) = Some s \<and> (\<forall>t. th_code s t = []) \<and>
    {j \<in> set (th_log s). thread_of j = Subscriber} = {Drive_Job 5 0, Drive_Job 0 7} \<and>
    th_frames s = [(5, 7)]"
proof -
  have "handler_code MOVE_TO_MINE 2 = [Set_Receiving True]"
    by (simp add: handler_code_def flag_code_def const_simps has_flag_def)
  then show ?thesis
    by (intro exI [of _ torn_run]) (auto simp: torn_run_def initial_def update_code_def sender_code_def
      numeral_eq_Suc fun_upd_twist fun_upd_idem)
qed

end
