(* ===== verification/Camera_Calibration.thy ===== *)
theory Camera_Calibration
  imports Complex_Main Prelude
begin

text \<open>
  Model of \<^verbatim>\<open>.opencv_calibration/camera_calibration.cpp\<close>, the program that calibrates the robot's
  camera, adapted from the sample of OpenCV: reading and judging the settings, the source of the
  images, the state machine of the main loop, the board's corners, what is written in the end.
  OpenCV is a parameter, the record \<open>opencv\<close>: what files hold, what devices open, what images are,
  where a pattern is found, what a calibration gives.  Images, point sets and camera matrices are
  types of that parameter.  Floats of the settings are rationals, rounding is a parameter;
  reprojection errors are real numbers.  Drawing and printing are left out.
\<close>

section \<open>Settings\<close>

datatype pattern = NOT_EXISTING | CHESSBOARD | CIRCLES_GRID | ASYMMETRIC_CIRCLES_GRID

datatype input_type = INVALID | CAMERA | VIDEO_FILE | IMAGE_LIST

datatype calib_flag =
    CALIB_USE_INTRINSIC_GUESS
  | CALIB_FIX_PRINCIPAL_POINT
  | CALIB_ZERO_TANGENT_DIST
  | CALIB_FIX_ASPECT_RATIO
  | CALIB_FIX_K4
  | CALIB_FIX_K5

text \<open>What a file storage holds at its top: a sequence of strings or something else.\<close>

datatype file_node = Seq_Node "string list" | Other_Node

type_synonym size = "int \<times> int"
type_synonym point3 = "rat \<times> rat \<times> rat"

text \<open>
  A configuration: the value under each key, by the type it was written with.  Its key missing, a
  number reads as 0, a flag as false and a text as empty; a value of another type than the one
  asked for is converted by the library (\<open>cv_as_int\<close> and the like below).
\<close>

datatype cfg_value = Int_Value int | Real_Value rat | Bool_Value bool | Str_Value string

type_synonym config = "string \<Rightarrow> cfg_value option"

record ('img, 'pts, 'cam, 'vec) opencv =
  cv_storage :: "string \<Rightarrow> file_node option"
  cv_open_camera :: "int \<Rightarrow> bool"
  cv_open_video :: "string \<Rightarrow> bool"
  cv_imread :: "string \<Rightarrow> 'img option"
  cv_size :: "'img \<Rightarrow> size"
  cv_flip :: "'img \<Rightarrow> 'img"
  cv_find :: "pattern \<Rightarrow> size \<Rightarrow> 'img \<Rightarrow> 'pts option"
  cv_corner_sub_pix :: "'img \<Rightarrow> 'pts \<Rightarrow> 'pts"
  cv_calibrate :: "point3 list list \<Rightarrow> 'pts list \<Rightarrow> size \<Rightarrow> calib_flag set \<Rightarrow>
    ('cam \<times> 'vec list \<times> 'vec list) option"
  cv_check_range :: "'cam \<Rightarrow> bool"
  cv_view_error :: "point3 list \<Rightarrow> 'pts \<Rightarrow> 'vec \<Rightarrow> 'vec \<Rightarrow> 'cam \<Rightarrow> real"
  cv_undistort_maps :: "'cam option \<Rightarrow> size \<Rightarrow> bool"
  cv_float :: "rat \<Rightarrow> rat"
  cv_as_int :: "cfg_value \<Rightarrow> int"
  cv_as_real :: "cfg_value \<Rightarrow> rat"
  cv_as_bool :: "cfg_value \<Rightarrow> bool"
  cv_as_string :: "cfg_value \<Rightarrow> string"

record settings =
  st_board_size :: size
  st_pattern :: pattern
  st_square_size :: rat
  st_nr_frames :: int
  st_aspect_ratio :: rat
  st_delay :: int
  st_write_points :: bool
  st_write_extrinsics :: bool
  st_zero_tangent_dist :: bool
  st_fix_principal_point :: bool
  st_flip_vertical :: bool
  st_output_file_name :: string
  st_show_undistorted :: bool
  st_input :: string
  st_camera_id :: int
  st_image_list :: "string list"
  st_at_image_list :: nat
  st_opened :: bool
  st_input_type :: input_type
  st_good_input :: bool
  st_flag :: "calib_flag set"
  st_pattern_to_use :: string

text \<open>\<^verbatim>\<open>node[key] >> variable\<close>, for the types of the settings.\<close>

definition cfg_int :: "('img, 'pts, 'cam, 'vec) opencv \<Rightarrow> config \<Rightarrow> string \<Rightarrow> int" where
  "cfg_int cv node key = (case node key of None \<Rightarrow> 0 | Some (Int_Value i) \<Rightarrow> i | Some v \<Rightarrow> cv_as_int cv v)"

definition cfg_real :: "('img, 'pts, 'cam, 'vec) opencv \<Rightarrow> config \<Rightarrow> string \<Rightarrow> rat" where
  "cfg_real cv node key = (case node key of None \<Rightarrow> 0 | Some (Real_Value r) \<Rightarrow> r | Some v \<Rightarrow> cv_as_real cv v)"

definition cfg_bool :: "('img, 'pts, 'cam, 'vec) opencv \<Rightarrow> config \<Rightarrow> string \<Rightarrow> bool" where
  "cfg_bool cv node key = (case node key of None \<Rightarrow> False | Some (Bool_Value b) \<Rightarrow> b | Some v \<Rightarrow> cv_as_bool cv v)"

definition cfg_string :: "('img, 'pts, 'cam, 'vec) opencv \<Rightarrow> config \<Rightarrow> string \<Rightarrow> string" where
  "cfg_string cv node key = (case node key of None \<Rightarrow> [] | Some (Str_Value s) \<Rightarrow> s | Some v \<Rightarrow> cv_as_string cv v)"

definition write_settings :: "settings \<Rightarrow> (string \<times> cfg_value) list" where
  "write_settings s =
     [(''BoardSize_Width'', Int_Value (fst (st_board_size s))),
      (''BoardSize_Height'', Int_Value (snd (st_board_size s))),
      (''Square_Size'', Real_Value (st_square_size s)),
      (''Calibrate_Pattern'', Str_Value (st_pattern_to_use s)),
      (''Calibrate_NrOfFrameToUse'', Int_Value (st_nr_frames s)),
      (''Calibrate_FixAspectRatio'', Real_Value (st_aspect_ratio s)),
      (''Calibrate_AssumeZeroTangentialDistortion'', Bool_Value (st_zero_tangent_dist s)),
      (''Calibrate_FixPrincipalPointAtTheCenter'', Bool_Value (st_fix_principal_point s)),
      (''Write_DetectedFeaturePoints'', Bool_Value (st_write_points s)),
      (''Write_extrinsicParameters'', Bool_Value (st_write_extrinsics s)),
      (''Write_outputFileName'', Str_Value (st_output_file_name s)),
      (''Show_UndistortedImage'', Bool_Value (st_show_undistorted s)),
      (''Input_FlipAroundHorizontalAxis'', Bool_Value (st_flip_vertical s)),
      (''Input_Delay'', Int_Value (st_delay s)),
      (''Input'', Str_Value (st_input s))]"

text \<open>\<^verbatim>\<open>readStringList\<close>: the list is cleared first and stays empty when the file is no sequence.\<close>

definition read_string_list :: "('img, 'pts, 'cam, 'vec) opencv \<Rightarrow> string \<Rightarrow> bool \<times> string list" where
  "read_string_list cv filename =
     (case cv_storage cv filename of
        None \<Rightarrow> (False, [])
      | Some Other_Node \<Rightarrow> (False, [])
      | Some (Seq_Node l) \<Rightarrow> (True, l))"

text \<open>\<^verbatim>\<open>ss >> cameraID\<close> on a text that starts with a digit; a number too large for an \<^verbatim>\<open>int\<close> reads as its maximum.\<close>

definition is_digit :: "char \<Rightarrow> bool" where
  "is_digit c \<longleftrightarrow> 48 \<le> (of_char c :: nat) \<and> (of_char c :: nat) \<le> 57"

definition read_camera_id :: "string \<Rightarrow> int" where
  "read_camera_id s =
     min 2147483647 (foldl (\<lambda>n c. 10 * n + (of_char c - 48)) 0 (takeWhile is_digit s))"

text \<open>The part of \<^verbatim>\<open>interprate\<close> that finds the source of the images.\<close>

definition interpret_input :: "('img, 'pts, 'cam, 'vec) opencv \<Rightarrow> settings \<Rightarrow> settings" where
  "interpret_input cv s =
     (case st_input s of
        [] \<Rightarrow> s\<lparr>st_input_type := INVALID\<rparr>
      | c # _ \<Rightarrow>
          let s = (if is_digit c then
                s\<lparr>st_camera_id := read_camera_id (st_input s), st_input_type := CAMERA\<rparr>
              else
                (let (ok, l) = read_string_list cv (st_input s);
                     s = s\<lparr>st_image_list := l\<rparr>
                 in if ok then
                      s\<lparr>st_input_type := IMAGE_LIST,
                        st_nr_frames := (if st_nr_frames s < int (length l) then st_nr_frames s else int (length l))\<rparr>
                    else s\<lparr>st_input_type := VIDEO_FILE\<rparr>));
              s = (if st_input_type s = CAMERA then s\<lparr>st_opened := cv_open_camera cv (st_camera_id s)\<rparr> else s);
              s = (if st_input_type s = VIDEO_FILE then s\<lparr>st_opened := cv_open_video cv (st_input s)\<rparr> else s)
          in if st_input_type s \<noteq> IMAGE_LIST \<and> \<not> st_opened s then s\<lparr>st_input_type := INVALID\<rparr> else s)"

text \<open>The tests of the sizes, the flags and the pattern.\<close>

definition judge_sizes :: "settings \<Rightarrow> settings" where
  "judge_sizes s =
     (let s = s\<lparr>st_good_input := True\<rparr>;
          s = (if fst (st_board_size s) \<le> 0 \<or> snd (st_board_size s) \<le> 0 then s\<lparr>st_good_input := False\<rparr> else s);
          s = (if st_square_size s \<le> 10 / 1000000 then s\<lparr>st_good_input := False\<rparr> else s)
      in (if st_nr_frames s \<le> 0 then s\<lparr>st_good_input := False\<rparr> else s))"

definition interpret_flags :: "settings \<Rightarrow> settings" where
  "interpret_flags s =
     (let s = s\<lparr>st_flag := {}\<rparr>;
          s = (if st_fix_principal_point s then s\<lparr>st_flag := insert CALIB_FIX_PRINCIPAL_POINT (st_flag s)\<rparr> else s);
          s = (if st_zero_tangent_dist s then s\<lparr>st_flag := insert CALIB_ZERO_TANGENT_DIST (st_flag s)\<rparr> else s)
      in (if st_aspect_ratio s \<noteq> 0 then s\<lparr>st_flag := insert CALIB_FIX_ASPECT_RATIO (st_flag s)\<rparr> else s))"

definition interpret_pattern :: "settings \<Rightarrow> settings" where
  "interpret_pattern s =
     (let s = s\<lparr>st_pattern := NOT_EXISTING\<rparr>;
          s = (if st_pattern_to_use s = ''CHESSBOARD'' then s\<lparr>st_pattern := CHESSBOARD\<rparr> else s);
          s = (if st_pattern_to_use s = ''CIRCLES_GRID'' then s\<lparr>st_pattern := CIRCLES_GRID\<rparr> else s);
          s = (if st_pattern_to_use s = ''ASYMMETRIC_CIRCLES_GRID'' then s\<lparr>st_pattern := ASYMMETRIC_CIRCLES_GRID\<rparr> else s)
      in (if st_pattern s = NOT_EXISTING then s\<lparr>st_good_input := False\<rparr> else s))"

definition interprate :: "('img, 'pts, 'cam, 'vec) opencv \<Rightarrow> settings \<Rightarrow> settings" where
  "interprate cv s =
     (let s = judge_sizes s;
          s = interpret_input cv s;
          s = (if st_input_type s = INVALID then s\<lparr>st_good_input := False\<rparr> else s);
          s = interpret_flags s;
          s = interpret_pattern s
      in s\<lparr>st_at_image_list := 0\<rparr>)"

definition read_settings :: "('img, 'pts, 'cam, 'vec) opencv \<Rightarrow> config \<Rightarrow> settings \<Rightarrow> settings" where
  "read_settings cv node s =
     interprate cv (s
       \<lparr>st_board_size := (cfg_int cv node ''BoardSize_Width'', cfg_int cv node ''BoardSize_Height''),
        st_pattern_to_use := cfg_string cv node ''Calibrate_Pattern'',
        st_square_size := cfg_real cv node ''Square_Size'',
        st_nr_frames := cfg_int cv node ''Calibrate_NrOfFrameToUse'',
        st_aspect_ratio := cfg_real cv node ''Calibrate_FixAspectRatio'',
        st_write_points := cfg_bool cv node ''Write_DetectedFeaturePoints'',
        st_write_extrinsics := cfg_bool cv node ''Write_extrinsicParameters'',
        st_output_file_name := cfg_string cv node ''Write_outputFileName'',
        st_zero_tangent_dist := cfg_bool cv node ''Calibrate_AssumeZeroTangentialDistortion'',
        st_fix_principal_point := cfg_bool cv node ''Calibrate_FixPrincipalPointAtTheCenter'',
        st_flip_vertical := cfg_bool cv node ''Input_FlipAroundHorizontalAxis'',
        st_show_undistorted := cfg_bool cv node ''Show_UndistortedImage'',
        st_input := cfg_string cv node ''Input'',
        st_delay := cfg_int cv node ''Input_Delay''\<rparr>)"

text \<open>The \<^verbatim>\<open>read\<close> that the storage calls: an empty node leaves the default, whose input is not good.\<close>

definition read_settings_node :: "('img, 'pts, 'cam, 'vec) opencv \<Rightarrow> config option \<Rightarrow> settings \<Rightarrow> settings \<Rightarrow> settings" where
  "read_settings_node cv node x default_value =
     (case node of None \<Rightarrow> default_value | Some n \<Rightarrow> read_settings cv n x)"

section \<open>Images\<close>

text \<open>
  \<^verbatim>\<open>nextImage\<close>: a device delivers its next frame (\<open>frame\<close>), a list the file at its cursor; \<open>None\<close>
  is an empty image.
\<close>

definition next_image :: "('img, 'pts, 'cam, 'vec) opencv \<Rightarrow> 'img option \<Rightarrow> settings \<Rightarrow> 'img option \<times> settings" where
  "next_image cv frame s =
     (if st_opened s then (frame, s)
      else if st_at_image_list s < length (st_image_list s)
      then (cv_imread cv (st_image_list s ! st_at_image_list s), s\<lparr>st_at_image_list := st_at_image_list s + 1\<rparr>)
      else (None, s))"

section \<open>Calibrating and saving\<close>

text \<open>
  \<^verbatim>\<open>calcBoardCornerPositions\<close>: row by row, each row from left to right.  A board size that is
  not positive has no corners.
\<close>

definition calc_board_corner_positions :: "(rat \<Rightarrow> rat) \<Rightarrow> size \<Rightarrow> rat \<Rightarrow> pattern \<Rightarrow> point3 list" where
  "calc_board_corner_positions fl board_size square_size pattern_type =
     (case pattern_type of
        NOT_EXISTING \<Rightarrow> []
      | ASYMMETRIC_CIRCLES_GRID \<Rightarrow>
          concat (map (\<lambda>i. map (\<lambda>j. (fl (of_int (2 * j + i mod 2) * square_size), fl (of_int i * square_size), 0))
            [0..fst board_size - 1]) [0..snd board_size - 1])
      | _ \<Rightarrow>
          concat (map (\<lambda>i. map (\<lambda>j. (fl (of_int j * square_size), fl (of_int i * square_size), 0))
            [0..fst board_size - 1]) [0..snd board_size - 1]))"

text \<open>
  \<^verbatim>\<open>computeReprojectionErrors\<close>: the error of each view and of all of them together, from the
  distance between the points found and the points projected.
\<close>

fun reprojection_loop :: "('img, 'pts, 'cam, 'vec) opencv \<Rightarrow> 'cam \<Rightarrow> point3 list list \<Rightarrow> 'pts list \<Rightarrow>
    'vec list \<Rightarrow> 'vec list \<Rightarrow> real list \<times> real \<times> nat" where
  "reprojection_loop cv cam (obj # objs) (img # imgs) (r # rs) (t # ts) =
     (let err = cv_view_error cv obj img r t cam; n = length obj;
          (per_view, total_err, total_points) = reprojection_loop cv cam objs imgs rs ts
      in (sqrt (err * err / n) # per_view, err * err + total_err, n + total_points))"
| "reprojection_loop cv cam _ _ _ _ = ([], 0, 0)"

definition compute_reprojection_errors :: "('img, 'pts, 'cam, 'vec) opencv \<Rightarrow> point3 list list \<Rightarrow> 'pts list \<Rightarrow>
    'vec list \<Rightarrow> 'vec list \<Rightarrow> 'cam \<Rightarrow> real list \<times> real" where
  "compute_reprojection_errors cv object_points image_points rvecs tvecs cam =
     (let (per_view, total_err, total_points) = reprojection_loop cv cam object_points image_points rvecs tvecs
      in (per_view, sqrt (total_err / total_points)))"

record ('cam, 'vec) calibration =
  cal_cam :: 'cam
  cal_rvecs :: "'vec list"
  cal_tvecs :: "'vec list"
  cal_errors :: "real list"
  cal_avg_error :: real

text \<open>\<^verbatim>\<open>runCalibration\<close>; \<open>None\<close> is an exception of \<^verbatim>\<open>calibrateCamera\<close>.\<close>

definition run_calibration :: "('img, 'pts, 'cam, 'vec) opencv \<Rightarrow> settings \<Rightarrow> size \<Rightarrow> 'pts list \<Rightarrow>
    (bool \<times> ('cam, 'vec) calibration) option" where
  "run_calibration cv s image_size image_points =
     (let corners = calc_board_corner_positions (cv_float cv) (st_board_size s) (st_square_size s) (st_pattern s);
          object_points = replicate (length image_points) corners
      in case cv_calibrate cv object_points image_points image_size
             (st_flag s \<union> {CALIB_FIX_K4, CALIB_FIX_K5}) of
           None \<Rightarrow> None
         | Some (cam, rvecs, tvecs) \<Rightarrow>
             let ok = cv_check_range cv cam;
                 (errs, avg) = compute_reprojection_errors cv object_points image_points rvecs tvecs cam
             in Some (ok, \<lparr>cal_cam = cam, cal_rvecs = rvecs, cal_tvecs = tvecs, cal_errors = errs, cal_avg_error = avg\<rparr>))"

text \<open>What \<^verbatim>\<open>saveCameraParams\<close> writes, key by key; the time of day is left out.\<close>

datatype ('pts, 'cam, 'vec) saved =
    Save_Int int
  | Save_Real rat
  | Save_Flags "calib_flag set"
  | Save_Camera 'cam
  | Save_Error real
  | Save_Errors "real list"
  | Save_Extrinsics "('vec \<times> 'vec) list"
  | Save_Points "'pts list"

definition save_camera_params :: "settings \<Rightarrow> size \<Rightarrow> ('cam, 'vec) calibration \<Rightarrow> 'pts list \<Rightarrow>
    (string \<times> ('pts, 'cam, 'vec) saved) list" where
  "save_camera_params s image_size cal image_points =
     (if cal_rvecs cal \<noteq> [] \<or> cal_errors cal \<noteq> []
      then [(''nrOfFrames'', Save_Int (int (max (length (cal_rvecs cal)) (length (cal_errors cal)))))] else []) @
     [(''image_Width'', Save_Int (fst image_size)), (''image_Height'', Save_Int (snd image_size)),
      (''board_Width'', Save_Int (fst (st_board_size s))), (''board_Height'', Save_Int (snd (st_board_size s))),
      (''square_Size'', Save_Real (st_square_size s))] @
     (if CALIB_FIX_ASPECT_RATIO \<in> st_flag s then [(''FixAspectRatio'', Save_Real (st_aspect_ratio s))] else []) @
     [(''flagValue'', Save_Flags (st_flag s)), (''Camera_Matrix'', Save_Camera (cal_cam cal)),
      (''Distortion_Coefficients'', Save_Camera (cal_cam cal)), (''Avg_Reprojection_Error'', Save_Error (cal_avg_error cal))] @
     (if cal_errors cal \<noteq> [] then [(''Per_View_Reprojection_Errors'', Save_Errors (cal_errors cal))] else []) @
     (if cal_rvecs cal \<noteq> [] \<and> cal_tvecs cal \<noteq> []
      then [(''Extrinsic_Parameters'', Save_Extrinsics (zip (cal_rvecs cal) (cal_tvecs cal)))] else []) @
     (if image_points \<noteq> [] then [(''Image_points'', Save_Points image_points)] else [])"

section \<open>The main loop\<close>

datatype mode = DETECTION | CAPTURING | CALIBRATED

text \<open>
  The state of the loop.  \<open>ca_saves\<close> is what was saved, with the points it was computed from, the
  newest last; \<open>ca_camera\<close> is the camera matrix, \<open>None\<close> while it is empty.
\<close>

record ('pts, 'cam, 'vec) loop_state =
  ca_settings :: settings
  ca_mode :: mode
  ca_points :: "'pts list"
  ca_camera :: "'cam option"
  ca_image_size :: size
  ca_prev :: int
  ca_saves :: "('pts list \<times> (string \<times> ('pts, 'cam, 'vec) saved) list) list"

text \<open>What a round meets: the device's frame, two readings of the clock, the key pressed.\<close>

record 'img tick =
  ti_frame :: "'img option"
  ti_clock :: int
  ti_clock_after :: int
  ti_key :: char

definition CLOCKS_PER_SEC :: rat where "CLOCKS_PER_SEC = 1000000"

definition ESC_KEY :: char where "ESC_KEY = CHR 0x1B"

text \<open>\<^verbatim>\<open>runCalibrationAndSave\<close>: the camera matrix is assigned whether it is in range or not.\<close>

definition run_calibration_and_save :: "('img, 'pts, 'cam, 'vec) opencv \<Rightarrow> ('pts, 'cam, 'vec) loop_state \<Rightarrow>
    (bool \<times> ('pts, 'cam, 'vec) loop_state) option" where
  "run_calibration_and_save cv st =
     (case run_calibration cv (ca_settings st) (ca_image_size st) (ca_points st) of
        None \<Rightarrow> None
      | Some (ok, cal) \<Rightarrow>
          let st = st\<lparr>ca_camera := Some (cal_cam cal)\<rparr>
          in Some (ok, if ok then st\<lparr>ca_saves := ca_saves st @ [(ca_points st,
               save_camera_params (ca_settings st) (ca_image_size st) cal (ca_points st))]\<rparr> else st))"

text \<open>The first test of a round: enough views, so calibrate.\<close>

definition enough_views :: "('img, 'pts, 'cam, 'vec) opencv \<Rightarrow> ('pts, 'cam, 'vec) loop_state \<Rightarrow>
    ('pts, 'cam, 'vec) loop_state option" where
  "enough_views cv st =
     (if ca_mode st = CAPTURING \<and> int (length (ca_points st)) \<ge> st_nr_frames (ca_settings st)
      then map_option (\<lambda>(ok, st). st\<lparr>ca_mode := (if ok then CALIBRATED else DETECTION)\<rparr>)
        (run_calibration_and_save cv st)
      else Some st)"

text \<open>The end of the images: calibrate with what there is.\<close>

definition no_more_images :: "('img, 'pts, 'cam, 'vec) opencv \<Rightarrow> ('pts, 'cam, 'vec) loop_state \<Rightarrow>
    ('pts, 'cam, 'vec) loop_state option" where
  "no_more_images cv st =
     (if length (ca_points st) > 0 then map_option snd (run_calibration_and_save cv st) else Some st)"

definition find_pattern :: "('img, 'pts, 'cam, 'vec) opencv \<Rightarrow> settings \<Rightarrow> 'img \<Rightarrow> 'pts option" where
  "find_pattern cv s view =
     (let view = (if st_flip_vertical s then cv_flip cv view else view)
      in if st_pattern s = NOT_EXISTING then None
         else map_option (\<lambda>p. if st_pattern s = CHESSBOARD then cv_corner_sub_pix cv view p else p)
           (cv_find cv (st_pattern s) (st_board_size s) view))"

text \<open>A view with the pattern on it is kept when capturing, from a device only after the delay.\<close>

definition keep_view :: "'img tick \<Rightarrow> 'pts option \<Rightarrow> ('pts, 'cam, 'vec) loop_state \<Rightarrow> ('pts, 'cam, 'vec) loop_state" where
  "keep_view tick found st =
     (case found of
        None \<Rightarrow> st
      | Some p \<Rightarrow>
          if ca_mode st = CAPTURING \<and> (\<not> st_opened (ca_settings st) \<or>
            of_int (ti_clock tick - ca_prev st) > of_int (st_delay (ca_settings st)) * (1 / 1000) * CLOCKS_PER_SEC)
          then st\<lparr>ca_points := ca_points st @ [p], ca_prev := ti_clock_after tick\<rparr> else st)"

text \<open>The key: \<open>None\<close> is the way out of the loop.\<close>

definition obey_key :: "char \<Rightarrow> ('pts, 'cam, 'vec) loop_state \<Rightarrow> ('pts, 'cam, 'vec) loop_state option" where
  "obey_key key st =
     (if key = ESC_KEY then None
      else
        let s = ca_settings st;
            st = (if key = CHR ''u'' \<and> ca_mode st = CALIBRATED
              then st\<lparr>ca_settings := s\<lparr>st_show_undistorted := \<not> st_show_undistorted s\<rparr>\<rparr> else st)
        in Some (if st_opened (ca_settings st) \<and> key = CHR ''g''
          then st\<lparr>ca_mode := CAPTURING, ca_points := []\<rparr> else st))"

text \<open>A round goes on, leaves the loop, or ends the program with an exception.\<close>

datatype 'st outcome = Next 'st | Left 'st | Thrown

definition calib_round :: "('img, 'pts, 'cam, 'vec) opencv \<Rightarrow> 'img tick \<Rightarrow> ('pts, 'cam, 'vec) loop_state \<Rightarrow>
    ('pts, 'cam, 'vec) loop_state outcome" where
  "calib_round cv tick st =
     (let (view, s) = next_image cv (ti_frame tick) (ca_settings st)
      in case enough_views cv (st\<lparr>ca_settings := s\<rparr>) of
        None \<Rightarrow> Thrown
      | Some st \<Rightarrow>
          (case view of
             None \<Rightarrow> (case no_more_images cv st of None \<Rightarrow> Thrown | Some st \<Rightarrow> Left st)
           | Some img \<Rightarrow>
               let st = st\<lparr>ca_image_size := cv_size cv img\<rparr>;
                   st = keep_view tick (find_pattern cv (ca_settings st) img) st
               in case obey_key (ti_key tick) st of None \<Rightarrow> Left st | Some st \<Rightarrow> Next st))"

fun calib_loop :: "('img, 'pts, 'cam, 'vec) opencv \<Rightarrow> 'img tick list \<Rightarrow> ('pts, 'cam, 'vec) loop_state \<Rightarrow>
    ('pts, 'cam, 'vec) loop_state outcome" where
  "calib_loop cv [] st = Next st"
| "calib_loop cv (tick # ticks) st =
     (case calib_round cv tick st of Next st \<Rightarrow> calib_loop cv ticks st | r \<Rightarrow> r)"

section \<open>The program\<close>

text \<open>
  The constructor clears what has a constructor of its own and the flag; the rest, \<open>junk\<close>, is not
  initialised.
\<close>

definition new_settings :: "settings \<Rightarrow> settings" where
  "new_settings junk = junk\<lparr>st_good_input := False, st_board_size := (0, 0), st_output_file_name := [],
     st_input := [], st_image_list := [], st_opened := False, st_pattern_to_use := []\<rparr>"

text \<open>
  The images of a list, undistorted, in the end: an image that cannot be read is passed over,
  \<^verbatim>\<open>ESC\<close>, \<^verbatim>\<open>q\<close> and \<^verbatim>\<open>Q\<close> stop.  The files shown are returned.
\<close>

fun show_undistorted :: "('img, 'pts, 'cam, 'vec) opencv \<Rightarrow> string list \<Rightarrow> char list \<Rightarrow> string list" where
  "show_undistorted cv (f # fs) (c # cs) =
     (case cv_imread cv f of
        None \<Rightarrow> show_undistorted cv fs (c # cs)
      | Some view \<Rightarrow>
          if c = ESC_KEY \<or> c = CHR ''q'' \<or> c = CHR ''Q'' then [f] else f # show_undistorted cv fs cs)"
| "show_undistorted cv _ _ = []"

datatype 'st program_end =
    Returned int "'st option" "string list"
  | Uncaught
  | Running 'st

definition start_state :: "settings \<Rightarrow> size \<Rightarrow> ('pts, 'cam, 'vec) loop_state" where
  "start_state s size0 =
     \<lparr>ca_settings = s, ca_mode = (if st_input_type s = IMAGE_LIST then CAPTURING else DETECTION),
      ca_points = [], ca_camera = None, ca_image_size = size0, ca_prev = 0, ca_saves = []\<rparr>"

text \<open>
  \<^verbatim>\<open>main\<close>.  \<open>storages\<close> is what opening a file gives, the \<^verbatim>\<open>Settings\<close> node or none; \<open>ticks\<close> and
  \<open>keys\<close> what the loop and the show in the end meet.
\<close>

definition calib_main :: "('img, 'pts, 'cam, 'vec) opencv \<Rightarrow> settings \<Rightarrow> (string \<Rightarrow> config option option) \<Rightarrow>
    string list \<Rightarrow> 'img tick list \<Rightarrow> char list \<Rightarrow> ('pts, 'cam, 'vec) loop_state program_end" where
  "calib_main cv junk storages args ticks keys =
     (case storages (case args of a # _ \<Rightarrow> a | [] \<Rightarrow> ''default.xml'') of
        None \<Rightarrow> Returned (- 1) None []
      | Some node \<Rightarrow>
          let s = read_settings_node cv node (new_settings junk) (new_settings junk)
          in if \<not> st_good_input s then Returned (- 1) None []
             else
               (case calib_loop cv ticks (start_state s (0, 0)) of
                  Thrown \<Rightarrow> Uncaught
                | Next st \<Rightarrow> Running st
                | Left st \<Rightarrow>
                    let s = ca_settings st
                    in if st_input_type s = IMAGE_LIST \<and> st_show_undistorted s then
                         (if cv_undistort_maps cv (ca_camera st) (ca_image_size st)
                          then Returned 0 (Some st) (show_undistorted cv (st_image_list s) keys)
                          else Uncaught)
                       else Returned 0 (Some st) []))"

section \<open>What the settings come to\<close>

text \<open>The device or list an input names, and whether it is there.\<close>

definition input_usable :: "('img, 'pts, 'cam, 'vec) opencv \<Rightarrow> settings \<Rightarrow> bool" where
  "input_usable cv s \<longleftrightarrow>
     (case st_input s of
        [] \<Rightarrow> False
      | c # _ \<Rightarrow>
          if is_digit c then cv_open_camera cv (read_camera_id (st_input s))
          else fst (read_string_list cv (st_input s)) \<or> cv_open_video cv (st_input s))"

definition pattern_named :: "string \<Rightarrow> pattern" where
  "pattern_named name =
     (if name = ''ASYMMETRIC_CIRCLES_GRID'' then ASYMMETRIC_CIRCLES_GRID
      else if name = ''CIRCLES_GRID'' then CIRCLES_GRID
      else if name = ''CHESSBOARD'' then CHESSBOARD
      else NOT_EXISTING)"

definition flags_of :: "settings \<Rightarrow> calib_flag set" where
  "flags_of s =
     (if st_aspect_ratio s \<noteq> 0 then {CALIB_FIX_ASPECT_RATIO} else {}) \<union>
     (if st_zero_tangent_dist s then {CALIB_ZERO_TANGENT_DIST} else {}) \<union>
     (if st_fix_principal_point s then {CALIB_FIX_PRINCIPAL_POINT} else {})"

definition sizes_good :: "settings \<Rightarrow> bool" where
  "sizes_good s \<longleftrightarrow> 0 < fst (st_board_size s) \<and> 0 < snd (st_board_size s) \<and>
     10 / 1000000 < st_square_size s \<and> 0 < st_nr_frames s"

text \<open>\<^verbatim>\<open>interpret_input\<close>, case by case.\<close>

definition input_found :: "('img, 'pts, 'cam, 'vec) opencv \<Rightarrow> settings \<Rightarrow> settings" where
  "input_found cv s =
     (if st_input s = [] then s\<lparr>st_input_type := INVALID\<rparr>
      else if is_digit (hd (st_input s)) then
        s\<lparr>st_camera_id := read_camera_id (st_input s), st_opened := cv_open_camera cv (read_camera_id (st_input s)),
          st_input_type := (if cv_open_camera cv (read_camera_id (st_input s)) then CAMERA else INVALID)\<rparr>
      else if fst (read_string_list cv (st_input s)) then
        s\<lparr>st_image_list := snd (read_string_list cv (st_input s)), st_input_type := IMAGE_LIST,
          st_nr_frames := min (st_nr_frames s) (int (length (snd (read_string_list cv (st_input s)))))\<rparr>
      else
        s\<lparr>st_image_list := snd (read_string_list cv (st_input s)), st_opened := cv_open_video cv (st_input s),
          st_input_type := (if cv_open_video cv (st_input s) then VIDEO_FILE else INVALID)\<rparr>)"

lemma interpret_input_eq: "interpret_input cv s = input_found cv s"
proof (cases "st_input s")
  case Nil
  then show ?thesis by (simp add: interpret_input_def input_found_def)
next
  case (Cons c cs)
  obtain ok l where r: "read_string_list cv (c # cs) = (ok, l)" by fastforce
  show ?thesis
  proof (cases "is_digit c")
    case True
    then show ?thesis using Cons
      by (cases "cv_open_camera cv (read_camera_id (c # cs))") (simp_all add: interpret_input_def input_found_def)
  next
    case False
    then show ?thesis using Cons r
      by (cases ok; cases "cv_open_video cv (c # cs)"; cases "st_nr_frames s < int (length l)")
        (simp_all add: interpret_input_def input_found_def Let_def)
  qed
qed

lemma interpret_input_keeps [simp]:
  "st_board_size (interpret_input cv s) = st_board_size s"
  "st_square_size (interpret_input cv s) = st_square_size s"
  "st_aspect_ratio (interpret_input cv s) = st_aspect_ratio s"
  "st_delay (interpret_input cv s) = st_delay s"
  "st_write_points (interpret_input cv s) = st_write_points s"
  "st_write_extrinsics (interpret_input cv s) = st_write_extrinsics s"
  "st_zero_tangent_dist (interpret_input cv s) = st_zero_tangent_dist s"
  "st_fix_principal_point (interpret_input cv s) = st_fix_principal_point s"
  "st_flip_vertical (interpret_input cv s) = st_flip_vertical s"
  "st_output_file_name (interpret_input cv s) = st_output_file_name s"
  "st_show_undistorted (interpret_input cv s) = st_show_undistorted s"
  "st_input (interpret_input cv s) = st_input s"
  "st_good_input (interpret_input cv s) = st_good_input s"
  "st_pattern_to_use (interpret_input cv s) = st_pattern_to_use s"
  by (simp_all add: interpret_input_eq input_found_def)

lemma interpret_input_good [simp]:
  "interpret_input cv (s\<lparr>st_good_input := b\<rparr>) = (interpret_input cv s)\<lparr>st_good_input := b\<rparr>"
  by (simp add: interpret_input_eq input_found_def)

lemma interpret_input_type:
  assumes "\<not> st_opened s"
  shows "st_input_type (interpret_input cv s) = INVALID \<longleftrightarrow> \<not> input_usable cv s"
  using assms by (simp add: interpret_input_eq input_found_def input_usable_def split: list.split)

lemma judge_sizes_eq: "judge_sizes s = s\<lparr>st_good_input := sizes_good s\<rparr>"
  by (auto simp: judge_sizes_def sizes_good_def Let_def)

lemma interpret_flags_eq: "interpret_flags s = s\<lparr>st_flag := flags_of s\<rparr>"
  by (simp add: interpret_flags_def flags_of_def Let_def insert_commute)

lemma interpret_pattern_eq:
  "interpret_pattern s = s\<lparr>st_pattern := pattern_named (st_pattern_to_use s),
    st_good_input := (st_good_input s \<and> pattern_named (st_pattern_to_use s) \<noteq> NOT_EXISTING)\<rparr>"
proof -
  have "interpret_pattern s = (let p = pattern_named (st_pattern_to_use s);
      s = s\<lparr>st_pattern := p\<rparr> in if p = NOT_EXISTING then s\<lparr>st_good_input := False\<rparr> else s)"
    by (cases "st_pattern_to_use s = ''ASYMMETRIC_CIRCLES_GRID''"; cases "st_pattern_to_use s = ''CIRCLES_GRID''";
        cases "st_pattern_to_use s = ''CHESSBOARD''")
      (simp_all only: interpret_pattern_def pattern_named_def Let_def if_True if_False, simp_all)
  then show ?thesis by (simp add: Let_def)
qed

text \<open>\<^verbatim>\<open>interprate\<close> in one expression.\<close>

lemma interprate_eq:
  "interprate cv s = (interpret_input cv s)
    \<lparr>st_good_input := sizes_good s \<and> st_input_type (interpret_input cv s) \<noteq> INVALID \<and>
       pattern_named (st_pattern_to_use s) \<noteq> NOT_EXISTING,
     st_flag := flags_of s, st_pattern := pattern_named (st_pattern_to_use s), st_at_image_list := 0\<rparr>"
  by (simp add: interprate_def judge_sizes_eq interpret_flags_eq interpret_pattern_eq Let_def flags_of_def)

lemma accepted_nr_frames: "st_good_input (interprate cv s) \<Longrightarrow> 0 \<le> st_nr_frames (interprate cv s)"
  by (auto simp: interprate_eq interpret_input_eq input_found_def sizes_good_def)

section \<open>The loop, round by round\<close>

definition frames_wanted :: "('pts, 'cam, 'vec) loop_state \<Rightarrow> int" where
  "frames_wanted st = st_nr_frames (ca_settings st)"

lemma next_image_keeps:
  "next_image cv frame s = (view, s') \<Longrightarrow> st_nr_frames s' = st_nr_frames s \<and> st_opened s' = st_opened s \<and>
    st_image_list s' = st_image_list s \<and> st_pattern s' = st_pattern s \<and> st_board_size s' = st_board_size s \<and>
    st_flip_vertical s' = st_flip_vertical s"
  by (auto simp: next_image_def split: if_splits)

text \<open>
  Between the rounds: never more views than wanted; calibrated means that the last thing saved
  comes from the very views that are kept, as many as wanted; nothing was ever saved from more
  views than wanted, or from none.
\<close>

definition loop_inv :: "int \<Rightarrow> ('pts, 'cam, 'vec) loop_state \<Rightarrow> bool" where
  "loop_inv n st \<longleftrightarrow> frames_wanted st = n \<and> int (length (ca_points st)) \<le> n \<and>
     (ca_mode st = CALIBRATED \<longrightarrow> ca_saves st \<noteq> [] \<and> fst (last (ca_saves st)) = ca_points st \<and>
       int (length (ca_points st)) = n) \<and>
     (\<forall>(pts, _) \<in> set (ca_saves st). pts \<noteq> [] \<and> int (length pts) \<le> n)"

lemma loop_inv_settings:
  "loop_inv n st \<Longrightarrow> st_nr_frames s = frames_wanted st \<Longrightarrow> loop_inv n (st\<lparr>ca_settings := s\<rparr>)"
  by (simp add: loop_inv_def frames_wanted_def)

lemma run_calibration_and_save_inv:
  assumes "run_calibration_and_save cv st = Some (ok, st')" and "loop_inv n st" and "ca_points st \<noteq> []"
  shows "loop_inv n st'" and "ca_points st' = ca_points st" and "ca_mode st' = ca_mode st"
    and "ca_settings st' = ca_settings st"
    and "ok \<Longrightarrow> ca_saves st' \<noteq> [] \<and> fst (last (ca_saves st')) = ca_points st"
proof -
  obtain cal where "run_calibration cv (ca_settings st) (ca_image_size st) (ca_points st) = Some (ok, cal)"
    using assms(1) by (auto simp: run_calibration_and_save_def Let_def split: option.splits)
  with assms(1) have "st' = (if ok then st\<lparr>ca_camera := Some (cal_cam cal), ca_saves := ca_saves st @ [(ca_points st,
      save_camera_params (ca_settings st) (ca_image_size st) cal (ca_points st))]\<rparr>
    else st\<lparr>ca_camera := Some (cal_cam cal)\<rparr>)"
    by (auto simp: run_calibration_and_save_def Let_def)
  then show "loop_inv n st'" and "ca_points st' = ca_points st" and "ca_mode st' = ca_mode st"
    and "ca_settings st' = ca_settings st"
    and "ok \<Longrightarrow> ca_saves st' \<noteq> [] \<and> fst (last (ca_saves st')) = ca_points st"
    using assms(2,3) by (cases ok; auto simp: loop_inv_def frames_wanted_def)+
qed

text \<open>
  What OpenCV's manual says of \<^verbatim>\<open>calibrateCamera\<close>: it throws when it gets no view.  An accepted
  configuration wants 0 views when its list of images is empty.
\<close>

definition refuses_no_views :: "('img, 'pts, 'cam, 'vec) opencv \<Rightarrow> bool" where
  "refuses_no_views cv \<longleftrightarrow> (\<forall>objs size flags. cv_calibrate cv objs [] size flags = None)"

lemma refused: "refuses_no_views cv \<Longrightarrow> cv_calibrate cv objs [] sz flags = None"
  unfolding refuses_no_views_def by blast

lemma no_views_throw: "refuses_no_views cv \<Longrightarrow> ca_points st = [] \<Longrightarrow> run_calibration_and_save cv st = None"
  by (simp add: refused run_calibration_and_save_def run_calibration_def)

lemma enough_views_inv:
  assumes "enough_views cv st = Some st'" and "loop_inv n st" and "0 < n \<or> refuses_no_views cv"
  shows "loop_inv n st' \<and> (ca_mode st' = CAPTURING \<longrightarrow> int (length (ca_points st')) < n) \<and>
    ca_points st' = ca_points st \<and> ca_settings st' = ca_settings st"
proof (cases "ca_mode st = CAPTURING \<and> int (length (ca_points st)) \<ge> st_nr_frames (ca_settings st)")
  case True
  then obtain ok st1 where s: "run_calibration_and_save cv st = Some (ok, st1)"
    "st' = st1\<lparr>ca_mode := (if ok then CALIBRATED else DETECTION)\<rparr>"
    using assms(1) by (auto simp: enough_views_def)
  have n: "int (length (ca_points st)) = n"
    using True assms(2) by (auto simp: loop_inv_def frames_wanted_def)
  have ne: "ca_points st \<noteq> []" using n assms(3) s(1) no_views_throw [of cv st] by auto
  note r = run_calibration_and_save_inv [OF s(1) assms(2) ne]
  have keep: "frames_wanted st1 = n" "\<forall>(pts, _) \<in> set (ca_saves st1). pts \<noteq> [] \<and> int (length pts) \<le> n"
    using r(1) by (simp_all add: loop_inv_def)
  have "loop_inv n st'"
    using keep r(2,5) n s(2) by (cases ok) (simp_all add: loop_inv_def frames_wanted_def)
  with r(2,4) s(2) show ?thesis by (cases ok) simp_all
next
  case False
  with assms(1) have "st' = st" by (auto simp: enough_views_def)
  with False assms(2) show ?thesis by (auto simp: loop_inv_def frames_wanted_def)
qed

lemma no_more_images_inv:
  "no_more_images cv st = Some st' \<Longrightarrow> loop_inv n st \<Longrightarrow> loop_inv n st'"
  by (auto simp: no_more_images_def dest: run_calibration_and_save_inv(1) split: if_splits)

lemma keep_view_inv:
  "loop_inv n st \<Longrightarrow> (ca_mode st = CAPTURING \<Longrightarrow> int (length (ca_points st)) < n) \<Longrightarrow>
    loop_inv n (keep_view tick found st)"
  by (auto simp: keep_view_def loop_inv_def frames_wanted_def split: option.split)

lemma obey_key_inv: "obey_key key st = Some st' \<Longrightarrow> loop_inv n st \<Longrightarrow> loop_inv n st'"
  by (auto simp: obey_key_def loop_inv_def frames_wanted_def Let_def split: if_splits)

lemma calib_round_inv:
  assumes "loop_inv n st" and "0 < n \<or> refuses_no_views cv"
    and "calib_round cv tick st = Next st' \<or> calib_round cv tick st = Left st'"
  shows "loop_inv n st'"
proof -
  obtain view s where ni: "next_image cv (ti_frame tick) (ca_settings st) = (view, s)" by fastforce
  let ?st = "st\<lparr>ca_settings := s\<rparr>"
  have "loop_inv n ?st"
    using assms(1) next_image_keeps [OF ni] by (simp add: loop_inv_settings frames_wanted_def)
  moreover obtain st1 where e: "enough_views cv ?st = Some st1"
    using assms(3) ni by (cases "enough_views cv ?st") (auto simp: calib_round_def)
  ultimately have i1: "loop_inv n st1" "ca_mode st1 = CAPTURING \<Longrightarrow> int (length (ca_points st1)) < n"
    using enough_views_inv [OF e _ assms(2)] by auto
  show ?thesis
  proof (cases view)
    case None
    with assms(3) ni e show ?thesis
      by (auto simp: calib_round_def intro: no_more_images_inv [OF _ i1(1)] split: option.splits)
  next
    case (Some img)
    let ?k = "keep_view tick (find_pattern cv (ca_settings st1) img) (st1\<lparr>ca_image_size := cv_size cv img\<rparr>)"
    have "loop_inv n (st1\<lparr>ca_image_size := cv_size cv img\<rparr>)"
      using i1(1) by (simp add: loop_inv_def frames_wanted_def)
    then have "loop_inv n ?k" using i1(2) by (intro keep_view_inv) auto
    with Some assms(3) ni e show ?thesis
      by (auto simp: calib_round_def Let_def intro: obey_key_inv split: option.splits)
  qed
qed

lemma calib_loop_inv:
  "calib_loop cv ticks st = Next st' \<or> calib_loop cv ticks st = Left st' \<Longrightarrow> loop_inv n st \<Longrightarrow>
    0 < n \<or> refuses_no_views cv \<Longrightarrow> loop_inv n st'"
proof (induction ticks arbitrary: st)
  case (Cons tick ticks)
  then show ?case
    by (cases "calib_round cv tick st") (auto dest: calib_round_inv [where cv = cv and tick = tick])
qed simp

lemma start_state_settings [simp]: "ca_settings (start_state s size0) = s"
  by (simp add: start_state_def)

text \<open>With an OpenCV that calibrates whatever views it gets, no round throws.\<close>

definition always_calibrates :: "('img, 'pts, 'cam, 'vec) opencv \<Rightarrow> bool" where
  "always_calibrates cv \<longleftrightarrow> (\<forall>objs pts size flags. pts \<noteq> [] \<longrightarrow> cv_calibrate cv objs pts size flags \<noteq> None) \<and>
     (\<forall>cam. cv_check_range cv cam)"

lemma run_calibration_and_save_ok:
  assumes "always_calibrates cv" and "ca_points st \<noteq> []"
  shows "\<exists>st'. run_calibration_and_save cv st = Some (True, st') \<and> ca_saves st' \<noteq> []"
proof -
  let ?s = "ca_settings st"
  let ?o = "replicate (length (ca_points st)) (calc_board_corner_positions (cv_float cv)
      (st_board_size ?s) (st_square_size ?s) (st_pattern ?s))"
  obtain r where "cv_calibrate cv ?o (ca_points st) (ca_image_size st) (st_flag ?s \<union> {CALIB_FIX_K4, CALIB_FIX_K5}) = Some r"
    using assms unfolding always_calibrates_def not_None_eq by blast
  moreover obtain cam rv tv where "r = (cam, rv, tv)" by (cases r) auto
  moreover obtain errs avg where "compute_reprojection_errors cv ?o (ca_points st) rv tv cam = (errs, avg)" by fastforce
  moreover have "cv_check_range cv cam" using assms(1) by (simp add: always_calibrates_def)
  ultimately show ?thesis by (simp add: run_calibration_and_save_def run_calibration_def)
qed

lemma enough_views_ok:
  assumes "always_calibrates cv" and "loop_inv n st" and "0 < n"
  shows "\<exists>st'. enough_views cv st = Some st'"
proof (cases "ca_mode st = CAPTURING \<and> int (length (ca_points st)) \<ge> st_nr_frames (ca_settings st)")
  case True
  with assms(2,3) have "ca_points st \<noteq> []" by (auto simp: loop_inv_def frames_wanted_def)
  then obtain st1 where "run_calibration_and_save cv st = Some (True, st1)"
    using run_calibration_and_save_ok [OF assms(1)] by blast
  then show ?thesis by (simp add: enough_views_def)
next
  case False
  then show ?thesis by (simp only: enough_views_def if_False) simp
qed

lemma calib_round_ok:
  assumes cv: "always_calibrates cv" and "loop_inv n st" and "0 < n"
  shows "calib_round cv tick st \<noteq> Thrown"
    and "calib_round cv tick st = Left st' \<Longrightarrow> ti_key tick \<noteq> ESC_KEY \<Longrightarrow> ca_points st' \<noteq> [] \<Longrightarrow> ca_saves st' \<noteq> []"
proof -
  obtain view s where ni: "next_image cv (ti_frame tick) (ca_settings st) = (view, s)" by fastforce
  have "loop_inv n (st\<lparr>ca_settings := s\<rparr>)"
    using assms(2) next_image_keeps [OF ni] by (simp add: loop_inv_settings frames_wanted_def)
  from enough_views_ok [OF cv this assms(3)] obtain st1 where e: "enough_views cv (st\<lparr>ca_settings := s\<rparr>) = Some st1"
    by blast
  have m: "\<exists>st2. no_more_images cv st1 = Some st2 \<and> (ca_points st2 \<noteq> [] \<longrightarrow> ca_saves st2 \<noteq> [])"
    using run_calibration_and_save_ok [OF cv, of st1] by (cases "ca_points st1 = []") (auto simp: no_more_images_def)
  show "calib_round cv tick st \<noteq> Thrown"
    using ni e m by (auto simp: calib_round_def Let_def split: option.split)
  assume "calib_round cv tick st = Left st'" "ti_key tick \<noteq> ESC_KEY" "ca_points st' \<noteq> []"
  then show "ca_saves st' \<noteq> []"
    using ni e m by (auto simp: calib_round_def obey_key_def Let_def split: option.splits if_splits)
qed

lemma calib_loop_ok:
  assumes "always_calibrates cv" and "0 < n"
  shows "loop_inv n st \<Longrightarrow> calib_loop cv ticks st \<noteq> Thrown"
    and "loop_inv n st \<Longrightarrow> calib_loop cv ticks st = Left st' \<Longrightarrow> \<forall>tick \<in> set ticks. ti_key tick \<noteq> ESC_KEY \<Longrightarrow>
      ca_points st' \<noteq> [] \<Longrightarrow> ca_saves st' \<noteq> []"
proof (induction ticks arbitrary: st)
  case (Cons tick ticks)
  {
    case 1
    then show ?case
      using calib_round_ok(1) [OF assms(1) 1 assms(2), of tick] calib_round_inv [OF 1 disjI1 [OF assms(2)], of cv tick] Cons.IH(1)
      by (cases "calib_round cv tick st") auto
  next
    case 2
    then show ?case
      using calib_round_ok(2) [OF assms(1) 2(1) assms(2), of tick] calib_round_inv [OF 2(1) disjI1 [OF assms(2)], of cv tick]
        Cons.IH(2)
      by (cases "calib_round cv tick st") auto
  }
qed simp_all

lemma start_state_inv: "0 \<le> st_nr_frames s \<Longrightarrow> loop_inv (st_nr_frames s) (start_state s size0)"
  by (simp add: loop_inv_def frames_wanted_def start_state_def)

section \<open>Runs over a list of images\<close>

text \<open>The views of a list on which the pattern is found: the reference for the loop.\<close>

definition detections :: "('img, 'pts, 'cam, 'vec) opencv \<Rightarrow> settings \<Rightarrow> string list \<Rightarrow> 'pts list" where
  "detections cv s files = List.map_filter (\<lambda>f. Option.bind (cv_imread cv f) (find_pattern cv s)) files"

lemma detections_append: "detections cv s (xs @ ys) = detections cv s xs @ detections cv s ys"
  by (simp add: detections_def map_filter_def)

lemma find_pattern_cong:
  "find_pattern cv (s\<lparr>st_at_image_list := k, st_show_undistorted := sh\<rparr>) = find_pattern cv s"
  by (simp add: find_pattern_def fun_eq_iff)

lemma find_pattern_cursor [simp]:
  "find_pattern cv (s\<lparr>st_at_image_list := k\<rparr>) = find_pattern cv s"
  "find_pattern cv (s\<lparr>st_show_undistorted := sh\<rparr>) = find_pattern cv s"
  by (simp_all add: find_pattern_def fun_eq_iff)

text \<open>Every round but the last moves the cursor: the loop ends, whatever is found, pressed or calibrated.\<close>

lemma run_calibration_and_save_settings:
  "run_calibration_and_save cv st = Some (ok, st') \<Longrightarrow> ca_settings st' = ca_settings st"
  by (auto simp: run_calibration_and_save_def Let_def split: option.splits if_splits)

lemma enough_views_settings: "enough_views cv st = Some st' \<Longrightarrow> ca_settings st' = ca_settings st"
  by (auto simp: enough_views_def dest: run_calibration_and_save_settings split: if_splits)

lemma keep_view_settings [simp]: "ca_settings (keep_view tick found st) = ca_settings st"
  by (simp add: keep_view_def split: option.split)

lemma obey_key_settings:
  "obey_key key st = Some st' \<Longrightarrow> \<exists>sh. ca_settings st' = (ca_settings st)\<lparr>st_show_undistorted := sh\<rparr>"
  by (cases "ca_settings st") (auto simp: obey_key_def Let_def split: if_splits)

lemma calib_round_cursor:
  assumes "calib_round cv tick st = Next st'" and "\<not> st_opened (ca_settings st)"
  shows "st_at_image_list (ca_settings st) < length (st_image_list (ca_settings st)) \<and>
    (\<exists>sh. ca_settings st' = (ca_settings st)\<lparr>st_at_image_list := st_at_image_list (ca_settings st) + 1,
      st_show_undistorted := sh\<rparr>)"
proof -
  obtain view s where ni: "next_image cv (ti_frame tick) (ca_settings st) = (view, s)" by fastforce
  obtain img st1 where r: "view = Some img" "enough_views cv (st\<lparr>ca_settings := s\<rparr>) = Some st1"
    "obey_key (ti_key tick) (keep_view tick (find_pattern cv (ca_settings st1) img)
      (st1\<lparr>ca_image_size := cv_size cv img\<rparr>)) = Some st'"
    using assms(1) ni by (auto simp: calib_round_def Let_def split: option.splits)
  from enough_views_settings [OF r(2)] obey_key_settings [OF r(3)] have
    "\<exists>sh. ca_settings st' = s\<lparr>st_show_undistorted := sh\<rparr>" by simp
  with ni r(1) assms(2) show ?thesis by (auto simp: next_image_def split: if_splits)
qed

lemma calib_loop_ends:
  "\<not> st_opened (ca_settings st) \<Longrightarrow>
    length (st_image_list (ca_settings st)) < length ticks + st_at_image_list (ca_settings st) \<Longrightarrow>
    calib_loop cv ticks st = Next st' \<Longrightarrow> ticks = []"
proof (induction ticks arbitrary: st)
  case (Cons tick ticks)
  then obtain st1 where r: "calib_round cv tick st = Next st1" "calib_loop cv ticks st1 = Next st'"
    by (cases "calib_round cv tick st") auto
  note c = calib_round_cursor [OF r(1) Cons.prems(1)]
  then have "ticks = []"
    using Cons.prems(1,2) r(2) by (intro Cons.IH [of st1]) auto
  with c Cons.prems(2) show ?case by auto
qed simp

text \<open>
  The state when \<open>d\<close> are the views found so far and \<open>n\<close> are wanted: the first \<open>n\<close> of them are kept,
  and everything saved was computed from \<open>n\<close> views, the ones that are kept.
\<close>

definition collected :: "nat \<Rightarrow> 'pts list \<Rightarrow> ('pts, 'cam, 'vec) loop_state \<Rightarrow> bool" where
  "collected n d st \<longleftrightarrow> frames_wanted st = int n \<and> ca_points st = take n d \<and>
     (length d < n \<longrightarrow> ca_mode st = CAPTURING) \<and>
     (\<forall>(pts, _) \<in> set (ca_saves st). pts = take n d \<and> n \<le> length d)"

lemma run_calibration_and_save_saves:
  assumes "run_calibration_and_save cv st = Some (ok, st')"
  shows "ca_points st' = ca_points st \<and> ca_settings st' = ca_settings st \<and> ca_mode st' = ca_mode st \<and>
    (\<exists>e. ca_saves st' = ca_saves st @ (if ok then [(ca_points st, e)] else []))"
  using assms by (auto simp: run_calibration_and_save_def Let_def split: option.splits if_splits)

lemma enough_views_collected:
  assumes "enough_views cv st = Some st'" and "collected n d st" and "0 < n"
  shows "collected n d st' \<and> (ca_mode st' = CAPTURING \<longleftrightarrow> length d < n)"
proof (cases "ca_mode st = CAPTURING \<and> int (length (ca_points st)) \<ge> st_nr_frames (ca_settings st)")
  case True
  then obtain ok st1 where r: "run_calibration_and_save cv st = Some (ok, st1)"
    "st' = st1\<lparr>ca_mode := (if ok then CALIBRATED else DETECTION)\<rparr>"
    using assms(1) by (auto simp: enough_views_def)
  have "n \<le> length d" using True assms(2) by (auto simp: collected_def frames_wanted_def)
  with run_calibration_and_save_saves [OF r(1)] assms(2) r(2) show ?thesis
    by (cases ok) (auto simp: collected_def frames_wanted_def)
next
  case False
  moreover have "st' = st" using False assms(1) by (auto simp: enough_views_def)
  ultimately show ?thesis using assms(2,3) by (auto simp: collected_def frames_wanted_def)
qed

lemma keep_view_collected:
  assumes "collected n d st" and "ca_mode st = CAPTURING \<longleftrightarrow> length d < n" and "\<not> st_opened (ca_settings st)"
  shows "collected n (d @ (case found of None \<Rightarrow> [] | Some p \<Rightarrow> [p])) (keep_view tick found st)"
proof (cases "length d < n")
  case True
  then have "ca_saves st = []" using assms(1) by (cases "ca_saves st") (auto simp: collected_def)
  with True assms show ?thesis
    by (auto simp: collected_def keep_view_def frames_wanted_def split: option.split)
next
  case False
  with assms show ?thesis
    by (auto simp: collected_def keep_view_def frames_wanted_def split: option.split)
qed

lemma obey_key_collected:
  assumes "obey_key key st = Some st'" and "collected n d st" and "\<not> st_opened (ca_settings st)"
  shows "collected n d st'"
  using assms by (auto simp: obey_key_def collected_def frames_wanted_def Let_def split: if_splits)

definition list_inv :: "('img, 'pts, 'cam, 'vec) opencv \<Rightarrow> settings \<Rightarrow> nat \<Rightarrow> nat \<Rightarrow> ('pts, 'cam, 'vec) loop_state \<Rightarrow> bool" where
  "list_inv cv s n k st \<longleftrightarrow>
     (\<exists>sh. ca_settings st = s\<lparr>st_at_image_list := k, st_show_undistorted := sh\<rparr>) \<and>
     collected n (detections cv s (take k (st_image_list s))) st"

lemma detections_Suc:
  assumes "k < length files" and "cv_imread cv (files ! k) = Some img"
  shows "detections cv s (take (Suc k) files) =
    detections cv s (take k files) @ (case find_pattern cv s img of None \<Rightarrow> [] | Some p \<Rightarrow> [p])"
  using assms by (simp add: take_Suc_conv_app_nth detections_append)
    (simp add: detections_def map_filter_def split: option.split)

lemma list_round:
  assumes inv: "list_inv cv s n k st" and s: "0 < n" "\<not> st_opened s"
    and k: "k < length (st_image_list s)" "cv_imread cv (st_image_list s ! k) = Some img"
    and key: "ti_key tick \<noteq> ESC_KEY"
  shows "calib_round cv tick st = Thrown \<or> (\<exists>st'. calib_round cv tick st = Next st' \<and> list_inv cv s n (Suc k) st')"
proof -
  let ?d = "detections cv s (take k (st_image_list s))"
  obtain sh where set: "ca_settings st = s\<lparr>st_at_image_list := k, st_show_undistorted := sh\<rparr>"
    and c: "collected n ?d st" using inv by (auto simp: list_inv_def)
  let ?s1 = "s\<lparr>st_at_image_list := Suc k, st_show_undistorted := sh\<rparr>"
  have ni: "next_image cv (ti_frame tick) (ca_settings st) = (Some img, ?s1)"
    using s(2) k by (simp add: next_image_def set)
  show ?thesis
  proof (cases "enough_views cv (st\<lparr>ca_settings := ?s1\<rparr>)")
    case None
    then show ?thesis by (simp add: calib_round_def ni)
  next
    case (Some st1)
    have "collected n ?d (st\<lparr>ca_settings := ?s1\<rparr>)"
      using c set by (simp add: collected_def frames_wanted_def)
    note e = enough_views_collected [OF Some this s(1)]
    have s1: "ca_settings st1 = ?s1" using enough_views_settings [OF Some] by simp
    let ?st2 = "st1\<lparr>ca_image_size := cv_size cv img\<rparr>"
    let ?k = "keep_view tick (find_pattern cv (ca_settings st1) img) ?st2"
    have "collected n ?d ?st2" "ca_mode ?st2 = CAPTURING \<longleftrightarrow> length ?d < n"
      using e by (simp_all add: collected_def frames_wanted_def)
    moreover have "\<not> st_opened (ca_settings ?st2)" using s(2) s1 by simp
    ultimately have "collected n (?d @ (case find_pattern cv s img of None \<Rightarrow> [] | Some p \<Rightarrow> [p]))
        (keep_view tick (find_pattern cv s img) ?st2)"
      by (rule keep_view_collected)
    then
    have kc: "collected n (detections cv s (take (Suc k) (st_image_list s))) ?k"
      by (simp add: detections_Suc [where s = s, OF k] s1)
    have ks: "ca_settings ?k = ?s1" by (simp add: s1)
    obtain st' where key': "obey_key (ti_key tick) ?k = Some st'"
      using key by (auto simp: obey_key_def Let_def)
    have "collected n (detections cv s (take (Suc k) (st_image_list s))) st'"
      by (rule obey_key_collected [OF key' kc]) (simp add: s1 s(2))
    moreover have "\<exists>sh. ca_settings st' = s\<lparr>st_at_image_list := Suc k, st_show_undistorted := sh\<rparr>"
      using obey_key_settings [OF key'] unfolding ks by auto
    ultimately have "list_inv cv s n (Suc k) st'" by (simp add: list_inv_def)
    with Some key' show ?thesis by (simp add: calib_round_def ni Let_def)
  qed
qed

lemma list_end:
  assumes inv: "list_inv cv s n (length (st_image_list s)) st" and s: "0 < n" "\<not> st_opened s"
  shows "calib_round cv tick st = Thrown \<or>
    (\<exists>st'. calib_round cv tick st = Left st' \<and>
      ca_points st' = take n (detections cv s (st_image_list s)) \<and>
      (\<forall>(pts, _) \<in> set (ca_saves st'). pts = take n (detections cv s (st_image_list s)) \<and> pts \<noteq> []))"
proof -
  let ?d = "detections cv s (st_image_list s)"
  obtain sh where set: "ca_settings st = s\<lparr>st_at_image_list := length (st_image_list s), st_show_undistorted := sh\<rparr>"
    and c: "collected n ?d st" using inv by (auto simp: list_inv_def)
  have ni: "next_image cv (ti_frame tick) (ca_settings st) = (None, ca_settings st)"
    using s(2) by (simp add: next_image_def set)
  show ?thesis
  proof (cases "enough_views cv st")
    case None
    then show ?thesis by (simp add: calib_round_def ni)
  next
    case (Some st1)
    have c1: "collected n ?d st1" using enough_views_collected [OF Some c s(1)] by blast
    then have ne: "\<forall>(pts, _) \<in> set (ca_saves st1). pts = take n ?d \<and> pts \<noteq> []"
      using s(1) by (auto simp: collected_def)
    show ?thesis
    proof (cases "no_more_images cv st1")
      case None
      with Some show ?thesis by (simp add: calib_round_def ni)
    next
      case (Some st2)
      have "ca_points st2 = take n ?d \<and> (\<forall>(pts, _) \<in> set (ca_saves st2). pts = take n ?d \<and> pts \<noteq> [])"
        using Some c1 ne
        by (auto simp: no_more_images_def collected_def dest!: run_calibration_and_save_saves split: if_splits)
      with \<open>enough_views cv st = Some st1\<close> Some show ?thesis by (simp add: calib_round_def ni)
    qed
  qed
qed

lemma list_run:
  assumes s: "0 < n" "\<not> st_opened s"
    and readable: "\<forall>f \<in> set (st_image_list s). cv_imread cv f \<noteq> None"
  shows "list_inv cv s n k st \<Longrightarrow> k \<le> length (st_image_list s) \<Longrightarrow> \<forall>tick \<in> set ticks. ti_key tick \<noteq> ESC_KEY \<Longrightarrow>
    calib_loop cv ticks st = Left st' \<Longrightarrow>
    ca_points st' = take n (detections cv s (st_image_list s)) \<and>
      (\<forall>(pts, _) \<in> set (ca_saves st'). pts = take n (detections cv s (st_image_list s)) \<and> pts \<noteq> [])"
proof (induction ticks arbitrary: k st)
  case (Cons tick ticks)
  show ?case
  proof (cases "k < length (st_image_list s)")
    case True
    then obtain img where img: "cv_imread cv (st_image_list s ! k) = Some img" using readable by force
    have "ti_key tick \<noteq> ESC_KEY" using Cons.prems(3) by simp
    from list_round [OF Cons.prems(1) s True img this] Cons.prems(4) obtain st1 where
      "calib_round cv tick st = Next st1" "list_inv cv s n (Suc k) st1" by auto
    with Cons.IH [of "Suc k" st1] Cons.prems(3,4) True show ?thesis by simp
  next
    case False
    then have "list_inv cv s n (length (st_image_list s)) st" using Cons.prems(1,2) by simp
    from list_end [OF this s, of tick] Cons.prems(4) show ?thesis by auto
  qed
qed simp

lemma start_state_list:
  "st_at_image_list s = 0 \<Longrightarrow> st_input_type s = IMAGE_LIST \<Longrightarrow> st_nr_frames s = int n \<Longrightarrow>
    list_inv cv s n 0 (start_state s size0)"
  by (cases s) (auto simp: list_inv_def collected_def frames_wanted_def start_state_def detections_def map_filter_def)

section \<open>Settings written and read back\<close>

lemma read_write_fields:
  assumes "interprate cv (junk\<lparr>st_board_size := st_board_size s, st_pattern_to_use := st_pattern_to_use s,
      st_square_size := st_square_size s, st_nr_frames := st_nr_frames s, st_aspect_ratio := st_aspect_ratio s,
      st_write_points := st_write_points s, st_write_extrinsics := st_write_extrinsics s,
      st_output_file_name := st_output_file_name s, st_zero_tangent_dist := st_zero_tangent_dist s,
      st_fix_principal_point := st_fix_principal_point s, st_flip_vertical := st_flip_vertical s,
      st_show_undistorted := st_show_undistorted s, st_input := st_input s, st_delay := st_delay s\<rparr>) = s'"
  shows "read_settings cv (map_of (write_settings s)) junk = s'"
proof -
  have "map_of (write_settings s) ''BoardSize_Width'' = Some (Int_Value (fst (st_board_size s)))"
    "map_of (write_settings s) ''BoardSize_Height'' = Some (Int_Value (snd (st_board_size s)))"
    "map_of (write_settings s) ''Calibrate_Pattern'' = Some (Str_Value (st_pattern_to_use s))"
    "map_of (write_settings s) ''Square_Size'' = Some (Real_Value (st_square_size s))"
    "map_of (write_settings s) ''Calibrate_NrOfFrameToUse'' = Some (Int_Value (st_nr_frames s))"
    "map_of (write_settings s) ''Calibrate_FixAspectRatio'' = Some (Real_Value (st_aspect_ratio s))"
    "map_of (write_settings s) ''Write_DetectedFeaturePoints'' = Some (Bool_Value (st_write_points s))"
    "map_of (write_settings s) ''Write_extrinsicParameters'' = Some (Bool_Value (st_write_extrinsics s))"
    "map_of (write_settings s) ''Write_outputFileName'' = Some (Str_Value (st_output_file_name s))"
    "map_of (write_settings s) ''Calibrate_AssumeZeroTangentialDistortion'' = Some (Bool_Value (st_zero_tangent_dist s))"
    "map_of (write_settings s) ''Calibrate_FixPrincipalPointAtTheCenter'' = Some (Bool_Value (st_fix_principal_point s))"
    "map_of (write_settings s) ''Input_FlipAroundHorizontalAxis'' = Some (Bool_Value (st_flip_vertical s))"
    "map_of (write_settings s) ''Show_UndistortedImage'' = Some (Bool_Value (st_show_undistorted s))"
    "map_of (write_settings s) ''Input'' = Some (Str_Value (st_input s))"
    "map_of (write_settings s) ''Input_Delay'' = Some (Int_Value (st_delay s))"
    by (simp_all add: write_settings_def)
  then show ?thesis
    using assms by (simp add: read_settings_def cfg_int_def cfg_real_def cfg_bool_def cfg_string_def)
qed

lemma interpret_input_again:
  assumes "n = st_nr_frames (interpret_input cv s)"
  shows "interpret_input cv (s\<lparr>st_nr_frames := n\<rparr>) = interpret_input cv s"
  using assms by (simp add: interpret_input_eq input_found_def)

lemma interpret_input_nr_frames:
  "\<not> st_opened s \<Longrightarrow> (st_input_type (interpret_input cv s) = IMAGE_LIST \<longrightarrow> st_image_list (interpret_input cv s) \<noteq> []) \<Longrightarrow>
    0 < st_nr_frames (interpret_input cv s) \<longleftrightarrow> 0 < st_nr_frames s"
  by (auto simp: interpret_input_eq input_found_def split: if_splits)

lemma interprate_again:
  assumes "\<not> st_opened s"
    and "st_input_type (interprate cv s) = IMAGE_LIST \<longrightarrow> st_image_list (interprate cv s) \<noteq> []"
  shows "interprate cv (s\<lparr>st_nr_frames := st_nr_frames (interprate cv s)\<rparr>) = interprate cv s"
proof -
  let ?n = "st_nr_frames (interpret_input cv s)"
  have n: "st_nr_frames (interprate cv s) = ?n" by (simp add: interprate_eq)
  have "0 < ?n \<longleftrightarrow> 0 < st_nr_frames s"
    using assms by (intro interpret_input_nr_frames) (simp_all add: interprate_eq)
  then have "sizes_good (s\<lparr>st_nr_frames := ?n\<rparr>) = sizes_good s" by (simp add: sizes_good_def)
  then show ?thesis
    unfolding n by (simp add: interprate_eq interpret_input_again flags_of_def)
qed

section \<open>Properties\<close>

text \<open>A parameter for the witnesses: images are numbers, the pattern is on the odd ones.\<close>

definition toy_cv :: "(nat, nat, nat, nat) opencv" where
  "toy_cv =
     \<lparr>cv_storage = (\<lambda>f. if f = ''list'' then Some (Seq_Node [''a'', ''bb'', ''ccc'', ''ddddd'']) else None),
      cv_open_camera = (\<lambda>i. i = 0), cv_open_video = (\<lambda>_. False), cv_imread = (\<lambda>f. Some (length f)),
      cv_size = (\<lambda>_. (640, 480)), cv_flip = (\<lambda>i. i),
      cv_find = (\<lambda>_ _ i. if i mod 2 = 1 then Some i else None), cv_corner_sub_pix = (\<lambda>_ p. p),
      cv_calibrate = (\<lambda>objs pts _ _. if pts = [] then None else Some (length pts, pts, pts)),
      cv_check_range = (\<lambda>_. True), cv_view_error = (\<lambda>_ _ _ _ _. 0), cv_undistort_maps = (\<lambda>c _. c \<noteq> None),
      cv_float = (\<lambda>r. r), cv_as_int = (\<lambda>_. 0), cv_as_real = (\<lambda>_. 0), cv_as_bool = (\<lambda>_. False),
      cv_as_string = (\<lambda>_. [])\<rparr>"

definition toy_settings :: settings where
  "toy_settings =
     \<lparr>st_board_size = (9, 6), st_pattern = CIRCLES_GRID, st_square_size = 50, st_nr_frames = 2,
      st_aspect_ratio = 1, st_delay = 100, st_write_points = True, st_write_extrinsics = True,
      st_zero_tangent_dist = False, st_fix_principal_point = False, st_flip_vertical = False,
      st_output_file_name = ''out.xml'', st_show_undistorted = False, st_input = ''list'', st_camera_id = 0,
      st_image_list = [''a'', ''bb'', ''ccc'', ''ddddd''], st_at_image_list = 0, st_opened = False,
      st_input_type = IMAGE_LIST, st_good_input = True, st_flag = {CALIB_FIX_ASPECT_RATIO},
      st_pattern_to_use = ''CIRCLES_GRID''\<rparr>"

definition toy_tick :: "nat tick" where
  "toy_tick = \<lparr>ti_frame = None, ti_clock = 0, ti_clock_after = 0, ti_key = CHR ''x''\<rparr>"

text \<open>
  C21: Which settings the program accepts: exactly those with a positive board, a square larger than
  a hundred thousandth, a positive number of frames, an input that opens and one of the three
  patterns.  The flags are the three options, the pattern is the one named, and the cursor
  is at the start.
\<close>

theorem interprate_accepts:
  assumes "\<not> st_opened s"
  shows "(st_good_input (interprate cv s) \<longleftrightarrow>
      sizes_good s \<and> input_usable cv s \<and> pattern_named (st_pattern_to_use s) \<noteq> NOT_EXISTING) \<and>
    st_flag (interprate cv s) = flags_of s \<and>
    st_pattern (interprate cv s) = pattern_named (st_pattern_to_use s) \<and>
    st_at_image_list (interprate cv s) = 0"
  using interpret_input_type [OF assms, of cv] by (simp add: interprate_eq)

lemma interprate_accepts_witness:
  "st_good_input (interprate toy_cv toy_settings)"
proof -
  have "\<not> st_opened toy_settings" "sizes_good toy_settings" "input_usable toy_cv toy_settings"
    "pattern_named (st_pattern_to_use toy_settings) = CIRCLES_GRID"
    by (simp_all add: toy_settings_def toy_cv_def sizes_good_def input_usable_def is_digit_def
        read_string_list_def pattern_named_def)
  with interprate_accepts [of toy_settings toy_cv] show ?thesis by simp
qed

text \<open>
  C22: The settings that were written are the settings that are read: whatever configuration gave
  them, what \<^verbatim>\<open>write\<close> puts in a file is read back by \<^verbatim>\<open>read\<close> as the same settings, the source of
  images, the flags and the verdict on the input included.  An empty list of images is
  the exception: it sets the number of frames to 0, and what was accepted is then refused.
\<close>

theorem settings_roundtrip:
  assumes "s = read_settings cv node (new_settings junk)"
    and "st_input_type s = IMAGE_LIST \<longrightarrow> st_image_list s \<noteq> []"
  shows "read_settings cv (map_of (write_settings s)) (new_settings junk) = s"
proof (rule read_write_fields)
  obtain b where b: "s = interprate cv b" "\<not> st_opened b" and
    fields: "b = (new_settings junk)
       \<lparr>st_board_size := st_board_size b, st_pattern_to_use := st_pattern_to_use b,
        st_square_size := st_square_size b, st_nr_frames := st_nr_frames b, st_aspect_ratio := st_aspect_ratio b,
        st_write_points := st_write_points b, st_write_extrinsics := st_write_extrinsics b,
        st_output_file_name := st_output_file_name b, st_zero_tangent_dist := st_zero_tangent_dist b,
        st_fix_principal_point := st_fix_principal_point b, st_flip_vertical := st_flip_vertical b,
        st_show_undistorted := st_show_undistorted b, st_input := st_input b, st_delay := st_delay b\<rparr>"
    using assms(1) by (simp add: read_settings_def new_settings_def)
  have "(new_settings junk)
       \<lparr>st_board_size := st_board_size s, st_pattern_to_use := st_pattern_to_use s,
        st_square_size := st_square_size s, st_nr_frames := st_nr_frames s, st_aspect_ratio := st_aspect_ratio s,
        st_write_points := st_write_points s, st_write_extrinsics := st_write_extrinsics s,
        st_output_file_name := st_output_file_name s, st_zero_tangent_dist := st_zero_tangent_dist s,
        st_fix_principal_point := st_fix_principal_point s, st_flip_vertical := st_flip_vertical s,
        st_show_undistorted := st_show_undistorted s, st_input := st_input s, st_delay := st_delay s\<rparr> =
      b\<lparr>st_nr_frames := st_nr_frames s\<rparr>"
    unfolding b(1) by (subst (15) fields) (simp add: interprate_eq)
  then show "interprate cv ((new_settings junk)
       \<lparr>st_board_size := st_board_size s, st_pattern_to_use := st_pattern_to_use s,
        st_square_size := st_square_size s, st_nr_frames := st_nr_frames s, st_aspect_ratio := st_aspect_ratio s,
        st_write_points := st_write_points s, st_write_extrinsics := st_write_extrinsics s,
        st_output_file_name := st_output_file_name s, st_zero_tangent_dist := st_zero_tangent_dist s,
        st_fix_principal_point := st_fix_principal_point s, st_flip_vertical := st_flip_vertical s,
        st_show_undistorted := st_show_undistorted s, st_input := st_input s, st_delay := st_delay s\<rparr>) = s"
    using interprate_again [OF b(2), of cv] assms(2) by (simp add: b(1))
qed

lemma settings_roundtrip_witness:
  "\<exists>s. s = read_settings toy_cv (map_of (write_settings toy_settings)) (new_settings toy_settings) \<and>
    read_settings toy_cv (map_of (write_settings s)) (new_settings toy_settings) = s"
proof -
  let ?s = "read_settings toy_cv (map_of (write_settings toy_settings)) (new_settings toy_settings)"
  let ?b = "(new_settings toy_settings)
       \<lparr>st_board_size := (9, 6), st_pattern_to_use := ''CIRCLES_GRID'', st_square_size := 50, st_nr_frames := 2,
        st_aspect_ratio := 1, st_write_points := True, st_write_extrinsics := True,
        st_output_file_name := ''out.xml'', st_zero_tangent_dist := False, st_fix_principal_point := False,
        st_flip_vertical := False, st_show_undistorted := False, st_input := ''list'', st_delay := 100\<rparr>"
  have s: "?s = interprate toy_cv ?b"
    by (rule read_write_fields) (simp add: toy_settings_def)
  have "st_image_list (interprate toy_cv ?b) \<noteq> []"
    by (simp add: interprate_eq interpret_input_eq input_found_def is_digit_def toy_cv_def read_string_list_def)
  with settings_roundtrip [OF refl, of toy_cv "map_of (write_settings toy_settings)" toy_settings] show ?thesis
    unfolding s by blast
qed

text \<open>
  C20: Round by round, for every configuration the program accepts, a file of camera parameters is
  never computed from more views than the settings want, nor from none, and the views kept never
  exceed them; when the program says it is calibrated, the last file it wrote comes from exactly
  the views it keeps, and these are as many as wanted.  This holds for devices and lists, an
  empty list included, any keys and any failures of a calibration; of OpenCV it uses that
  \<^verbatim>\<open>calibrateCamera\<close> throws when it gets no view.
\<close>

theorem calibrated_from_wanted_views:
  assumes "refuses_no_views cv"
    and "s = read_settings cv node (new_settings junk)" and "st_good_input s"
    and "calib_loop cv ticks (start_state s size0) = Next st \<or> calib_loop cv ticks (start_state s size0) = Left st"
  shows "int (length (ca_points st)) \<le> st_nr_frames s \<and>
    (\<forall>(pts, _) \<in> set (ca_saves st). 1 \<le> length pts \<and> int (length pts) \<le> st_nr_frames s) \<and>
    (ca_mode st = CALIBRATED \<longrightarrow> ca_saves st \<noteq> [] \<and> fst (last (ca_saves st)) = ca_points st \<and>
      int (length (ca_points st)) = st_nr_frames s)"
proof -
  have "0 \<le> st_nr_frames s"
    using assms(2,3) accepted_nr_frames by (simp add: read_settings_def)
  from calib_loop_inv [OF assms(4) start_state_inv [OF this]] assms(1) show ?thesis
    by (auto simp: loop_inv_def Suc_le_eq)
qed

lemma toy_config:
  "read_settings toy_cv (map_of (write_settings toy_settings)) (new_settings toy_settings) = toy_settings"
  by (rule read_write_fields)
    (simp add: interprate_eq interpret_input_eq input_found_def is_digit_def toy_cv_def read_string_list_def
      toy_settings_def new_settings_def sizes_good_def flags_of_def pattern_named_def)

lemma toy_four_rounds:
  "\<exists>st. calib_loop toy_cv [toy_tick, toy_tick, toy_tick, toy_tick] (start_state toy_settings (0, 0)) = Next st \<and>
    ca_mode st = CALIBRATED"
  by (simp add: calib_round_def next_image_def enough_views_def start_state_def toy_settings_def toy_cv_def
      toy_tick_def obey_key_def ESC_KEY_def find_pattern_def keep_view_def run_calibration_and_save_def
      run_calibration_def compute_reprojection_errors_def calc_board_corner_positions_def Let_def)

lemma calibrated_from_wanted_views_witness:
  "\<exists>st. calib_loop toy_cv [toy_tick, toy_tick, toy_tick, toy_tick] (start_state toy_settings (0, 0)) = Next st \<and>
    ca_saves st \<noteq> [] \<and> fst (last (ca_saves st)) = ca_points st \<and> int (length (ca_points st)) = 2"
proof -
  obtain st where st: "calib_loop toy_cv [toy_tick, toy_tick, toy_tick, toy_tick] (start_state toy_settings (0, 0)) = Next st"
    "ca_mode st = CALIBRATED"
    using toy_four_rounds by blast
  have "refuses_no_views toy_cv" by (simp add: refuses_no_views_def toy_cv_def)
  moreover have "st_good_input toy_settings" "st_nr_frames toy_settings = 2" by (simp_all add: toy_settings_def)
  ultimately show ?thesis
    using calibrated_from_wanted_views [OF _ toy_config [symmetric] _ disjI1 [OF st(1)]] st by auto
qed

text \<open>
  C19: A run over a list of images, read from its start, ends after at most one round more than
  there are images, whatever can be read of them, is found on them, pressed or calibrated.  If all
  of them can be read, at least one view is wanted (an accepted configuration wants none only from
  an empty list) and \<^verbatim>\<open>ESC\<close> is not pressed, what is kept in the end are the first views with the
  pattern on them, as many as wanted, and every file written was computed from exactly these, in
  this order; if moreover calibrating always succeeds and there was any such view, a file was
  written.
\<close>

theorem image_list_calibration:
  assumes "st_input_type s = IMAGE_LIST" and "\<not> st_opened s" and "st_at_image_list s = 0"
    and "length (st_image_list s) < length ticks"
  shows "(\<forall>st. calib_loop cv ticks (start_state s size0) \<noteq> Next st) \<and>
    (0 < st_nr_frames s \<and> (\<forall>f \<in> set (st_image_list s). cv_imread cv f \<noteq> None) \<and>
      (\<forall>tick \<in> set ticks. ti_key tick \<noteq> ESC_KEY) \<longrightarrow>
     (\<forall>st. calib_loop cv ticks (start_state s size0) = Left st \<longrightarrow>
       ca_points st = take (nat (st_nr_frames s)) (detections cv s (st_image_list s)) \<and>
       (\<forall>(pts, _) \<in> set (ca_saves st). pts = ca_points st \<and> pts \<noteq> [])) \<and>
     (always_calibrates cv \<longrightarrow> (\<exists>st. calib_loop cv ticks (start_state s size0) = Left st \<and>
       (detections cv s (st_image_list s) \<noteq> [] \<longrightarrow> ca_saves st \<noteq> []))))"
proof (intro conjI impI)
  show ends: "\<forall>st. calib_loop cv ticks (start_state s size0) \<noteq> Next st"
    using calib_loop_ends [of "start_state s size0" ticks cv] assms(2-4) by auto
  let ?d = "detections cv s (st_image_list s)" and ?n = "nat (st_nr_frames s)"
  assume g: "0 < st_nr_frames s \<and> (\<forall>f \<in> set (st_image_list s). cv_imread cv f \<noteq> None) \<and>
      (\<forall>tick \<in> set ticks. ti_key tick \<noteq> ESC_KEY)"
  then have "list_inv cv s ?n 0 (start_state s size0)"
    using assms(1,3) by (intro start_state_list) simp_all
  then have left: "ca_points st = take ?n ?d \<and> (\<forall>(pts, _) \<in> set (ca_saves st). pts = take ?n ?d \<and> pts \<noteq> [])"
    if "calib_loop cv ticks (start_state s size0) = Left st" for st
    using that list_run [where s = s and cv = cv and n = ?n and k = 0 and ticks = ticks] assms(2) g by simp
  then show "\<forall>st. calib_loop cv ticks (start_state s size0) = Left st \<longrightarrow>
      ca_points st = take ?n ?d \<and> (\<forall>(pts, _) \<in> set (ca_saves st). pts = ca_points st \<and> pts \<noteq> [])"
    by fastforce
  assume cv: "always_calibrates cv"
  have n: "0 < st_nr_frames s" and esc: "\<forall>tick \<in> set ticks. ti_key tick \<noteq> ESC_KEY" using g by blast+
  have inv: "loop_inv (st_nr_frames s) (start_state s size0)" using n by (intro start_state_inv) simp
  obtain st where l: "calib_loop cv ticks (start_state s size0) = Left st"
    using calib_loop_ok(1) [OF cv n inv, of ticks] ends
    by (cases "calib_loop cv ticks (start_state s size0)") auto
  with left [OF l] calib_loop_ok(2) [OF cv n inv l esc] n
  show "\<exists>st. calib_loop cv ticks (start_state s size0) = Left st \<and> (?d \<noteq> [] \<longrightarrow> ca_saves st \<noteq> [])" by auto
qed

lemma image_list_calibration_witness:
  "detections toy_cv toy_settings (st_image_list toy_settings) = [1, 3, 5] \<and>
    (\<exists>st. calib_loop toy_cv (replicate 5 toy_tick) (start_state toy_settings (0, 0)) = Left st \<and>
      ca_points st = [1, 3] \<and> ca_saves st \<noteq> [])"
proof -
  have d: "detections toy_cv toy_settings (st_image_list toy_settings) = [1, 3, 5]"
    by (simp add: detections_def map_filter_def toy_cv_def toy_settings_def find_pattern_def)
  have p: "st_input_type toy_settings = IMAGE_LIST" "\<not> st_opened toy_settings" "st_at_image_list toy_settings = 0"
    "st_nr_frames toy_settings = 2" "length (st_image_list toy_settings) = 4" by (simp_all add: toy_settings_def)
  have r: "cv_imread toy_cv f \<noteq> None" for f by (simp add: toy_cv_def)
  have k: "ti_key toy_tick \<noteq> ESC_KEY" by (simp add: toy_tick_def ESC_KEY_def)
  have c: "always_calibrates toy_cv" by (simp add: always_calibrates_def toy_cv_def)
  from image_list_calibration [of toy_settings "replicate 5 toy_tick" toy_cv "(0, 0)"]
  have "(\<forall>st. calib_loop toy_cv (replicate 5 toy_tick) (start_state toy_settings (0, 0)) = Left st \<longrightarrow>
      ca_points st = [1, 3]) \<and>
    (\<exists>st. calib_loop toy_cv (replicate 5 toy_tick) (start_state toy_settings (0, 0)) = Left st \<and> ca_saves st \<noteq> [])"
    by (simp add: d p r k c numeral_2_eq_2)
  with d show ?thesis by blast
qed

text \<open>
  An empty list of images is accepted and ends the program with an exception: the number of
  frames becomes 0 after it was judged, so the first round calibrates from no view at all,
  which OpenCV refuses.
\<close>

theorem empty_list_throws:
  assumes "st_input s = c # cs" and "\<not> is_digit c" and "cv_storage cv (c # cs) = Some (Seq_Node [])"
    and "sizes_good s" and "pattern_named (st_pattern_to_use s) \<noteq> NOT_EXISTING" and "\<not> st_opened s"
    and "refuses_no_views cv"
  shows "st_good_input (interprate cv s) \<and>
    calib_loop cv (tick # ticks) (start_state (interprate cv s) size0) = Thrown"
proof -
  have i: "interpret_input cv s = s\<lparr>st_image_list := [], st_input_type := IMAGE_LIST, st_nr_frames := 0\<rparr>"
    using assms(1-4)
    by (simp add: interpret_input_eq input_found_def read_string_list_def sizes_good_def min_def)
  have "calib_round cv tick (start_state (interprate cv s) size0) = Thrown"
    using assms(6) refused [OF assms(7)]
    by (simp add: calib_round_def next_image_def start_state_def interprate_eq i enough_views_def
        run_calibration_and_save_def run_calibration_def Let_def)
  with assms(4,5) show ?thesis by (simp add: interprate_eq i)
qed

lemma empty_list_throws_witness:
  "calib_loop (toy_cv\<lparr>cv_storage := \<lambda>_. Some (Seq_Node [])\<rparr>) [toy_tick]
    (start_state (interprate (toy_cv\<lparr>cv_storage := \<lambda>_. Some (Seq_Node [])\<rparr>) toy_settings) (0, 0)) = Thrown"
  using empty_list_throws [of toy_settings "CHR ''l''" "''ist''" "toy_cv\<lparr>cv_storage := \<lambda>_. Some (Seq_Node [])\<rparr>"
      toy_tick "[]" "(0, 0)"]
  by (simp add: toy_settings_def toy_cv_def sizes_good_def pattern_named_def is_digit_def refuses_no_views_def)

lemma upto_from_zero: "[0..int n - 1] = map int [0..<n]"
  by (induction n) (simp_all add: upto_rec2)

lemma concat_rows:
  "length (concat (map (\<lambda>i. map (f i) [0..<w]) [0..<h])) = w * h \<and>
   (\<forall>i < h. \<forall>j < w. concat (map (\<lambda>i. map (f i) [0..<w]) [0..<h]) ! (i * w + j) = f i j)"
proof (induction h)
  case (Suc h)
  show ?case
  proof (intro conjI allI impI)
    fix i j
    assume i: "i < Suc h" and j: "j < w"
    show "concat (map (\<lambda>i. map (f i) [0..<w]) [0..<Suc h]) ! (i * w + j) = f i j"
    proof (cases "i < h")
      case True
      then have "i * w + j < (i + 1) * w" "(i + 1) * w \<le> h * w"
        using j mult_le_mono1 [of "i + 1" h w] by simp_all
      then show ?thesis using Suc True j by (simp add: nth_append mult.commute)
    next
      case False
      with i have "i = h" by simp
      then show ?thesis using Suc j by (simp add: nth_append mult.commute)
    qed
  qed (use Suc in simp)
qed simp

text \<open>
  The corners of a board: as many as it has fields, and the one in row \<open>i\<close> and column \<open>j\<close> at
  index \<open>i * width + j\<close>, where the pattern puts it; every second row of the asymmetric grid is
  shifted by one square.
\<close>

theorem board_corners:
  assumes "pattern_type \<noteq> NOT_EXISTING"
  shows "length (calc_board_corner_positions fl (int w, int h) sq pattern_type) = w * h \<and>
    (\<forall>i < h. \<forall>j < w. calc_board_corner_positions fl (int w, int h) sq pattern_type ! (i * w + j) =
      (fl (of_nat (if pattern_type = ASYMMETRIC_CIRCLES_GRID then 2 * j + i mod 2 else j) * sq),
       fl (of_nat i * sq), 0))"
proof -
  let ?f = "\<lambda>i j. (fl (of_nat (if pattern_type = ASYMMETRIC_CIRCLES_GRID then 2 * j + i mod 2 else j) * sq),
    fl (of_nat i * sq), 0)"
  have m: "of_int (int i mod 2) = (of_nat (i mod 2) :: rat)" for i
    by (metis of_int_of_nat_eq of_nat_mod of_nat_numeral)
  have "calc_board_corner_positions fl (int w, int h) sq pattern_type =
      concat (map (\<lambda>i. map (?f i) [0..<w]) [0..<h])"
    using assms
    by (cases pattern_type) (simp_all add: calc_board_corner_positions_def upto_from_zero comp_def m)
  with concat_rows [of ?f w h] show ?thesis by (simp only:)
qed

lemma board_corners_witness:
  "calc_board_corner_positions (\<lambda>x. x) (4, 11) 50 ASYMMETRIC_CIRCLES_GRID ! 6 = (250, 50, 0)"
  using board_corners [of ASYMMETRIC_CIRCLES_GRID "\<lambda>x. x" 4 11 50, THEN conjunct2, rule_format, of 1 2]
  by simp

end
