(* ===== verification/Serial_Test.thy ===== *)
theory Serial_Test
  imports Serial
begin

text \<open>
  Model of \<^verbatim>\<open>impl/serial_test.c\<close>, the manual test of the serial line: \<^verbatim>\<open>getLine\<close> over the bytes
  of the standard input, and the rounds of \<^verbatim>\<open>main\<close>, which stops the motors, reads the linear and
  the angular velocity as texts between letters and writes them to two files.
\<close>

section \<open>getLine\<close>

definition OK :: int where [const_simps]: "OK = 0"
definition NO_INPUT :: int where [const_simps]: "NO_INPUT = 1"
definition TOO_LONG :: int where [const_simps]: "TOO_LONG = 2"

text \<open>\<^verbatim>\<open>fgets\<close>: at most \<open>n\<close> bytes, up to a newline, which is kept.\<close>

fun take_line :: "nat \<Rightarrow> bytes \<Rightarrow> bytes \<times> bytes" where
  "take_line 0 inp = ([], inp)"
| "take_line (Suc n) [] = ([], [])"
| "take_line (Suc n) (b # inp) =
     (if b = 10 then ([b], inp) else (let (l, rest) = take_line n inp in (b # l, rest)))"

definition c_fgets :: "bytes \<Rightarrow> nat \<Rightarrow> bytes \<Rightarrow> (bool \<times> bytes \<times> bytes) res" where
  "c_fgets buff sz inp =
     (if sz = 0 \<or> (1 < sz \<and> inp = []) then Inr (False, buff, inp)
      else (let (l, rest) = take_line (sz - 1) inp
            in bindR (store buff 0 (l @ [0])) (\<lambda>buff. Inr (True, buff, rest))))"

text \<open>The loop over \<^verbatim>\<open>getchar\<close>: whether there was an extra byte, and what is left.\<close>

fun skip_line :: "bool \<Rightarrow> bytes \<Rightarrow> bool \<times> bytes" where
  "skip_line extra [] = (extra, [])"
| "skip_line extra (ch # inp) = (if ch \<noteq> 10 then skip_line True inp else (extra, inp))"

definition getLine :: "bytes \<Rightarrow> nat \<Rightarrow> bytes \<Rightarrow> (int \<times> bytes \<times> bytes) res" where
  "getLine buff sz inp =
     bindR (c_fgets buff sz inp) (\<lambda>(found, buff, inp).
     if \<not> found then Inr (NO_INPUT, buff, inp)
     else bindR (c_strlen buff) (\<lambda>n.
       if n = 0 then Inl Out_Of_Bounds
       else if buff ! (n - 1) \<noteq> 10 then
         (let (extra, inp) = skip_line False inp in Inr (if extra then TOO_LONG else OK, buff, inp))
       else bindR (store buff (n - 1) [0]) (\<lambda>buff. Inr (OK, buff, inp))))"

section \<open>The rounds\<close>

text \<open>\<^verbatim>\<open>buffer[a - 2] = 0\<close>, for an \<^verbatim>\<open>a\<close> that may be an error code.\<close>

definition cut_at :: "bytes \<Rightarrow> int \<Rightarrow> bytes res" where
  "cut_at buffer a = (if a - 2 < 0 then Inl Out_Of_Bounds else store buffer (nat (a - 2)) [0])"

text \<open>Reading one value: up to the opening letter, then, into zeros, up to the closing one.\<close>

definition read_value :: "(nat \<Rightarrow> read_result) \<Rightarrow> (nat \<Rightarrow> read_result) \<Rightarrow> u8 \<Rightarrow> u8 \<Rightarrow> bytes \<Rightarrow> bytes res" where
  "read_value inp1 inp2 opening closing buffer =
     bindR (serialport_read_until inp1 buffer opening 9 5) (\<lambda>_.
     bindR (serialport_read_until inp2 (replicate 12 0) closing 9 5) (\<lambda>(a, buffer).
       cut_at buffer a))"

record round_answers =
  ra_written :: int
  ra_lin_open :: "nat \<Rightarrow> read_result"
  ra_lin :: "nat \<Rightarrow> read_result"
  ra_ang_open :: "nat \<Rightarrow> read_result"
  ra_ang :: "nat \<Rightarrow> read_result"

record test_state =
  ts_dev :: teensy_device
  ts_buffer :: bytes
  ts_buffer2 :: bytes
  ts_count :: nat
  ts_linear :: "(nat \<times> bytes) list"
  ts_angular :: "(nat \<times> bytes) list"

text \<open>\<^verbatim>\<open>%s\<close> prints up to the null.\<close>

definition c_string :: "bytes \<Rightarrow> bytes" where
  "c_string buffer = takeWhile (\<lambda>b. b \<noteq> 0) buffer"

definition test_round :: "round_answers \<Rightarrow> test_state \<Rightarrow> (bytes \<times> test_state) res" where
  "test_round ans st =
     bindR (send_drive (ra_written ans) (ts_dev st) 0 0) (\<lambda>(_, dev, out).
     bindR (read_value (ra_lin_open ans) (ra_lin ans) 108 107 (ts_buffer st)) (\<lambda>buffer.
     bindR (read_value (ra_ang_open ans) (ra_ang ans) 97 98 (ts_buffer2 st)) (\<lambda>buffer2.
       Inr (out, st\<lparr>ts_dev := dev, ts_buffer := buffer, ts_buffer2 := buffer2, ts_count := ts_count st + 1,
         ts_linear := ts_linear st @ [(ts_count st, c_string buffer)],
         ts_angular := ts_angular st @ [(ts_count st, c_string buffer2)]\<rparr>))))"

text \<open>\<^verbatim>\<open>main\<close>: a round for every test of \<^verbatim>\<open>running\<close> that finds it set; 1 is returned.\<close>

fun test_rounds :: "round_answers list \<Rightarrow> test_state \<Rightarrow> (bytes list \<times> test_state) res" where
  "test_rounds [] st = Inr ([], st)"
| "test_rounds (ans # rounds) st =
     bindR (test_round ans st) (\<lambda>(out, st).
     bindR (test_rounds rounds st) (\<lambda>(outs, st). Inr (out # outs, st)))"

definition serial_test_main :: "port_answers \<Rightarrow> bytes \<Rightarrow> bytes \<Rightarrow> round_answers list \<Rightarrow>
    (int \<times> bytes list \<times> test_state \<times> int) res" where
  "serial_test_main ans junk junk2 rounds =
     (let (i, dev) = new_teensy_device ans
      in bindR (test_rounds rounds \<lparr>ts_dev = dev, ts_buffer = junk, ts_buffer2 = junk2, ts_count = 0,
           ts_linear = [], ts_angular = []\<rparr>) (\<lambda>(outs, st).
         Inr (1, outs, st, teensy_cleanup (ts_dev st))))"

section \<open>Lines\<close>

lemma take_line_line:
  "10 \<notin> set line \<Longrightarrow> take_line n (line @ 10 # rest) =
    (if length line < n then (line @ [10], rest) else (take n line, drop n line @ 10 # rest))"
  by (induction n "line @ 10 # rest" arbitrary: line rule: take_line.induct)
    (auto simp: neq_Nil_conv Cons_eq_append_conv split: if_splits)

lemma skip_line_line: "10 \<notin> set line \<Longrightarrow> skip_line extra (line @ 10 # rest) = (extra \<or> line \<noteq> [], rest)"
  by (induction line arbitrary: extra) auto

lemma c_strlen_line: "0 \<notin> set l \<Longrightarrow> c_strlen (l @ 0 # zs) = Inr (length l)"
  by (induction l) auto

text \<open>
  A line of the input without nulls is read whole when it fits the buffer with its null, even
  when its newline does not; otherwise its beginning is given with \<^verbatim>\<open>TOO_LONG\<close>.  Either way the
  next call starts with the next line.
\<close>

theorem getLine_reads:
  assumes "10 \<notin> set line" and "0 \<notin> set line" and "2 \<le> sz" and "sz \<le> length buff"
  shows "\<exists>zs. getLine buff sz (line @ 10 # rest) =
    Inr (if length line < sz then OK else TOO_LONG, take (sz - 1) line @ 0 # zs, rest)"
proof -
  have st: "store buff 0 (l @ [0]) = Inr (l @ 0 # drop (length l + 1) buff)" if "length l + 1 \<le> length buff" for l
    using that by (simp add: store_def)
  show ?thesis
  proof (cases "length line < sz - 1")
    case True
    then have "c_fgets buff sz (line @ 10 # rest) = Inr (True, (line @ [10]) @ 0 # drop (length line + 2) buff, rest)"
      using assms st [of "line @ [10]"] by (simp add: c_fgets_def take_line_line)
    moreover have "c_strlen ((line @ [10]) @ 0 # drop (length line + 2) buff) = Inr (length line + 1)"
      using c_strlen_line [of "line @ [10]"] assms(2) by simp
    ultimately show ?thesis
      using True store_mid [of line "length line" "[10]" "[0]" "0 # drop (length line + 2) buff"]
      by (auto simp: getLine_def nth_append const_simps)
  next
    case False
    let ?l = "take (sz - 1) line"
    have len: "length ?l = sz - 1" using False by simp
    have "?l ! (sz - 2) \<in> set line" using False assms(3) by simp
    then have last: "?l ! (sz - 2) \<noteq> 10" using assms(1) by metis
    have nul: "0 \<notin> set ?l" using assms(2) by (auto dest: in_set_takeD)
    have nl: "10 \<notin> set (drop (sz - 1) line)" using assms(1) by (auto dest: in_set_dropD)
    let ?zs = "drop sz buff"
    have "c_fgets buff sz (line @ 10 # rest) = Inr (True, ?l @ 0 # ?zs, drop (sz - 1) line @ 10 # rest)"
      using assms False len st [of ?l] by (simp add: c_fgets_def take_line_line)
    moreover have "c_strlen (?l @ 0 # ?zs) = Inr (sz - 1)"
      using c_strlen_line [OF nul, of ?zs] len by simp
    moreover have "(?l @ 0 # ?zs) ! (sz - 1 - 1) \<noteq> 10"
    proof -
      have "sz - 1 - 1 < length ?l" using len assms(3) by linarith
      then have "(?l @ 0 # ?zs) ! (sz - 1 - 1) = ?l ! (sz - 1 - 1)" by (simp only: nth_append if_True)
      moreover have "sz - 1 - 1 = sz - 2" by simp
      ultimately show ?thesis using last by metis
    qed
    ultimately have "getLine buff sz (line @ 10 # rest) =
        Inr (if drop (sz - 1) line \<noteq> [] then TOO_LONG else OK, ?l @ 0 # ?zs, rest)"
      using assms(3) skip_line_line [OF nl, of False rest] by (simp add: getLine_def)
    moreover have "drop (sz - 1) line \<noteq> [] \<longleftrightarrow> \<not> length line < sz" using False assms(3) by auto
    ultimately show ?thesis by auto
  qed
qed

lemma getLine_reads_witness:
  "\<exists>zs. getLine (replicate 4 7) 4 ([65, 66, 67, 68] @ 10 # [69]) = Inr (TOO_LONG, [65, 66, 67] @ 0 # zs, [69])"
  using getLine_reads [of "[65, 66, 67, 68]" 4 "replicate 4 7" "[69]"] by simp

text \<open>A line that begins with a null: the index \<^verbatim>\<open>strlen(buff) - 1\<close> is outside the buffer.\<close>

lemma getLine_null: "2 \<le> sz \<Longrightarrow> sz \<le> length buff \<Longrightarrow> getLine buff sz (0 # inp) = Inl Out_Of_Bounds"
proof -
  assume sz: "2 \<le> sz" "sz \<le> length buff"
  from sz(1) obtain n where n: "sz - 1 = Suc n" by (cases "sz - 1") auto
  obtain l rest where l: "take_line n inp = (l, rest)" by fastforce
  have "length l \<le> n" using l by (induction n inp arbitrary: l rest rule: take_line.induct) (auto split: if_splits prod.splits)
  then have "store buff 0 (0 # l @ [0]) = Inr (0 # l @ 0 # drop (length l + 2) buff)"
    using sz n store_front [of "[]" 0 "0 # l @ [0]" buff] by simp
  then show ?thesis using sz n l by (simp add: getLine_def c_fgets_def)
qed

section \<open>What a round reads\<close>

lemma until_loop_reads:
  assumes "\<And>j. j < length bs \<Longrightarrow> inp (k + j) = Got (bs ! j)" and "inp (k + length bs) = Got until"
    and "until \<notin> set bs" and "i + length bs < buf_max" and "buf_max < length buf" and "0 < t"
  shows "serial_until_loop inp k b i until buf_max t buf =
    Inr (int (i + length bs) + 2, take i buf @ bs @ until # 0 # drop (i + length bs + 2) buf)"
  using assms
proof (induction bs arbitrary: k i b buf)
  case Nil
  then have "store buf i [until] = Inr (take i buf @ until # drop (i + 1) buf)"
    "store (take i buf @ until # drop (i + 1) buf) (i + 1) [0] = Inr (take i buf @ until # 0 # drop (i + 2) buf)"
    by (simp_all add: store_def)
  with Nil show ?case by (subst serial_until_loop.simps) (simp add: finish_read_until_def)
next
  case (Cons c bs)
  let ?buf = "take i buf @ c # drop (i + 1) buf"
  have c: "inp k = Got c" using Cons.prems(1) [of 0] by simp
  have st: "store buf i [c] = Inr ?buf" using Cons.prems by (simp add: store_def)
  have "serial_until_loop inp (k + 1) (Some c) (i + 1) until buf_max t ?buf =
      Inr (int (i + 1 + length bs) + 2, take (i + 1) ?buf @ bs @ until # 0 # drop (i + 1 + length bs + 2) ?buf)"
    using Cons.prems Cons.prems(1) [of "Suc _"] by (intro Cons.IH) auto
  moreover have "take (i + 1) ?buf = take i buf @ [c]"
    "drop (i + 1 + length bs + 2) ?buf = drop (i + length (c # bs) + 2) buf"
    using Cons.prems by (simp_all add: min_def drop_Cons' eval_nat_numeral add.commute)
  moreover have "c \<noteq> until" using Cons.prems(3) by auto
  ultimately show ?case using c st Cons.prems(4-) by (subst serial_until_loop.simps) simp
qed

definition delivers :: "(nat \<Rightarrow> read_result) \<Rightarrow> bytes \<Rightarrow> bool" where
  "delivers inp bs \<longleftrightarrow> (\<forall>j < length bs. inp j = Got (bs ! j))"

lemma read_until_reads:
  assumes "delivers inp (bs @ [until])" and "until \<notin> set bs" and "length bs < buf_max"
    and "buf_max < length buf" and "0 < t"
  shows "serialport_read_until inp buf until buf_max t =
    Inr (int (length bs) + 2, bs @ until # 0 # drop (length bs + 2) buf)"
proof -
  have "\<And>j. j < length bs \<Longrightarrow> inp (0 + j) = Got (bs ! j)" "inp (0 + length bs) = Got until"
    using assms(1) by (auto simp: delivers_def nth_append split: if_splits)
  from until_loop_reads [OF this assms(2), of 0 buf_max buf t None] assms(3-)
  show ?thesis by (simp add: serialport_read_until_def)
qed

lemma read_value_reads:
  assumes "delivers inp1 (junk @ [opening])" and "opening \<notin> set junk" and "length junk < 9"
    and "delivers inp2 (val @ [closing])" and "closing \<notin> set val" and "length val < 9" and "length buffer = 12"
  shows "read_value inp1 inp2 opening closing buffer = Inr (val @ replicate (12 - length val) 0)"
proof -
  have "store (val @ closing # 0 # drop (length val + 2) (replicate 12 0)) (length val) [0] =
      Inr (val @ 0 # 0 # drop (length val + 2) (replicate 12 0))"
    using store_mid [of val "length val" "[closing]" "[0]" "0 # drop (length val + 2) (replicate 12 0)"] by simp
  moreover have "0 # 0 # replicate (12 - (length val + 2)) 0 = replicate (12 - length val) (0 :: u8)"
  proof -
    have "12 - length val = Suc (Suc (12 - (length val + 2)))" using assms(6) by simp
    then show ?thesis by simp
  qed
  ultimately show ?thesis
    using read_until_reads [OF assms(1,2,3), of buffer 5] read_until_reads [OF assms(4,5,6), of "replicate 12 0" 5] assms(7)
    by (simp add: read_value_def cut_at_def)
qed

lemma read_value_fault:
  assumes "serialport_read_until inp1 buffer opening 9 5 = Inr x" and "inp2 0 = Read_Error"
  shows "read_value inp1 inp2 opening closing buffer = Inl Out_Of_Bounds"
proof -
  have "serialport_read_until inp2 (replicate 12 0) closing 9 5 = Inr (-1, replicate 12 0)"
    unfolding serialport_read_until_def by (subst serial_until_loop.simps) (simp add: assms(2))
  with assms(1) show ?thesis by (simp add: read_value_def cut_at_def)
qed

text \<open>What is printed of a text of the controller: all of it, when it holds no null.\<close>

lemma c_string_zeros: "0 \<notin> set val \<Longrightarrow> c_string (val @ replicate n 0) = val"
  by (induction val) (simp_all add: c_string_def)

text \<open>
  A round in which the controller sends, each after at most eight other bytes, \<^verbatim>\<open>l\<close>, a linear
  velocity of at most eight characters and \<^verbatim>\<open>k\<close>, and \<^verbatim>\<open>a\<close>, an angular velocity and \<^verbatim>\<open>b\<close>: the
  motors are told to stand still, and the two texts are written under the number of the round
  without their letters.
\<close>

theorem test_round_records:
  assumes "length (td_buffer (ts_dev st)) = BUFFER_SIZE" and "length (ts_buffer st) = 12" and "length (ts_buffer2 st) = 12"
    and "delivers (ra_lin_open ans) (junk1 @ [108])" "108 \<notin> set junk1" "length junk1 < 9"
    and "delivers (ra_lin ans) (lin @ [107])" "107 \<notin> set lin" "length lin < 9" "0 \<notin> set lin"
    and "delivers (ra_ang_open ans) (junk2 @ [97])" "97 \<notin> set junk2" "length junk2 < 9"
    and "delivers (ra_ang ans) (ang @ [98])" "98 \<notin> set ang" "length ang < 9" "0 \<notin> set ang"
  shows "\<exists>out st'. test_round ans st = Inr (out, st') \<and> out = drive_frame 0 0 \<and>
    ts_linear st' = ts_linear st @ [(ts_count st, lin)] \<and> ts_angular st' = ts_angular st @ [(ts_count st, ang)] \<and>
    ts_count st' = ts_count st + 1 \<and> length (ts_buffer st') = 12 \<and> length (ts_buffer2 st') = 12 \<and>
    length (td_buffer (ts_dev st')) = BUFFER_SIZE"
proof -
  have l: "read_value (ra_lin_open ans) (ra_lin ans) 108 107 (ts_buffer st) = Inr (lin @ replicate (12 - length lin) 0)"
    by (rule read_value_reads) (rule assms)+
  have a: "read_value (ra_ang_open ans) (ra_ang ans) 97 98 (ts_buffer2 st) = Inr (ang @ replicate (12 - length ang) 0)"
    by (rule read_value_reads) (rule assms)+
  show ?thesis
    using assms(1-3,6,9,10,16,17)
    by (simp add: test_round_def send_drive_eq l a c_string_zeros BUFFER_SIZE_def)
qed

lemma test_round_records_witness:
  "\<exists>st out st'. test_round \<lparr>ra_written = 11, ra_lin_open = (\<lambda>_. Got 108), ra_lin = (\<lambda>j. Got ([49, 107] ! j)),
      ra_ang_open = (\<lambda>_. Got 97), ra_ang = (\<lambda>j. Got ([50, 98] ! j))\<rparr> st = Inr (out, st') \<and>
    ts_linear st' = [(0, [49])] \<and> ts_angular st' = [(0, [50])]"
proof -
  let ?st = "\<lparr>ts_dev = snd (new_teensy_device open_port), ts_buffer = replicate 12 7, ts_buffer2 = replicate 12 7,
    ts_count = 0, ts_linear = [], ts_angular = []\<rparr>"
  let ?ans = "\<lparr>ra_written = 11, ra_lin_open = (\<lambda>_. Got 108), ra_lin = (\<lambda>j. Got ([49, 107] ! j)),
    ra_ang_open = (\<lambda>_. Got 97), ra_ang = (\<lambda>j. Got ([50, 98] ! j))\<rparr>"
  have "length (td_buffer (snd (new_teensy_device open_port))) = BUFFER_SIZE" by (simp add: new_teensy_device_def Let_def)
  then show ?thesis
    using test_round_records [of ?st ?ans "[]" "[49]" "[]" "[50]"]
    by (intro exI [of _ ?st]) (auto simp: delivers_def)
qed

text \<open>
  When the line fails while a value is read, the code \<^verbatim>\<open>-1\<close> is used as an index: the round
  writes outside the buffer.
\<close>

lemma test_round_fault:
  assumes "length (td_buffer (ts_dev st)) = BUFFER_SIZE"
    and "serialport_read_until (ra_lin_open ans) (ts_buffer st) 108 9 5 = Inr x" and "ra_lin ans 0 = Read_Error"
  shows "test_round ans st = Inl Out_Of_Bounds"
  using assms(1) read_value_fault [OF assms(2), of "ra_lin ans" 107] assms(3)
  by (simp add: test_round_def send_drive_eq)

end
