(* ===== verification/Control_Module.thy ===== *)
theory Control_Module
  imports Client_Params Rmt_Messages Ping_Message Wiimote Network_Patterns
begin

text \<open>
  Model of \<^verbatim>\<open>kernel/KermitControlModule.hpp\<close>, the base class of the robot's controllers, with
  the bodies of its functions in \<^verbatim>\<open>src/kernel/KermitControlModule.temp\<close>, which the build leaves
  out.  (That file calls the address of a parameter object \<^verbatim>\<open>broker_frontend\<close> and
  \<^verbatim>\<open>socket_backend\<close>; the header has \<^verbatim>\<open>sock_addr\<close>.)  A derived class is the state \<open>'w\<close> and the
  record of its virtual functions; the Wii remote's is \<open>wii_virtuals\<close>.
\<close>

section \<open>The module\<close>

text \<open>The two closures the module hands to its client.\<close>

datatype module_callback = Send_Velocities | Print_Received

record endpoints =
  ep_cmd_addr :: address
  ep_data_addr :: address
  ep_cmd_vel_addr :: address
  ep_real_time_addr :: address
  ep_cmd_id :: string
  ep_data_topic :: string
  ep_cmd_vel_topic :: string
  ep_real_time_topic :: string

record module_message =
  mm_cvel_buff :: cmd_vel
  mm_data_buff :: cmd_vel
  mm_command :: ping_buffer

record control_module =
  km_net :: "module_callback client_callback zmq_client"
  km_endpoints :: endpoints
  km_message :: module_message
  km_running :: bool

text \<open>The virtual functions; \<open>'i\<close> is what a round of updating meets.\<close>

record ('w, 'i) virtuals =
  vt_start :: "'w \<Rightarrow> (int \<times> 'w) res"
  vt_quit :: "'w \<Rightarrow> (int \<times> 'w) res"
  vt_update_state :: "'i \<Rightarrow> 'w \<Rightarrow> (int \<times> 'w) res"
  vt_get_lin :: "'w \<Rightarrow> float32"
  vt_get_ang :: "'w \<Rightarrow> float32"
  vt_get_state :: "'w \<Rightarrow> u8"

text \<open>The bodies the base class gives; the two getters of velocities are pure.\<close>

definition base_start :: "'w \<Rightarrow> (int \<times> 'w) res" where "base_start w = Inr (0, w)"
definition base_quit :: "'w \<Rightarrow> (int \<times> 'w) res" where "base_quit w = Inr (0, w)"
definition base_update_state :: "'i \<Rightarrow> 'w \<Rightarrow> (int \<times> 'w) res" where "base_update_state i w = Inr (0, w)"
definition base_get_state :: "'w \<Rightarrow> u8" where "base_get_state w = 0"

definition MODULE_CMD_VEL :: address where "MODULE_CMD_VEL = ''tcp://localhost:5570''"
definition DATA_ADDR :: address where "DATA_ADDR = ''tcp://localhost:5556''"
definition COMMAND_ADDR :: address where "COMMAND_ADDR = ''tcp://localhost:5572''"
definition REAL_TIME_ADDR :: address where "REAL_TIME_ADDR = ''tcp://localhost:5573''"

definition new_module :: "control_module res" where
  "new_module =
     bindR create_cmd_vel (\<lambda>cvel.
     bindR create_cmd_vel (\<lambda>data.
       Inr \<lparr>km_net = new_zmq_client,
         km_endpoints = \<lparr>ep_cmd_addr = COMMAND_ADDR, ep_data_addr = DATA_ADDR,
           ep_cmd_vel_addr = MODULE_CMD_VEL, ep_real_time_addr = REAL_TIME_ADDR, ep_cmd_id = ''command'',
           ep_data_topic = ''data'', ep_cmd_vel_topic = ''cmd_vel'', ep_real_time_topic = ''real_time''\<rparr>,
         km_message = \<lparr>mm_cvel_buff = cvel, mm_data_buff = data, mm_command = create_buffer_ping\<rparr>,
         km_running = True\<rparr>))"

text \<open>\<^verbatim>\<open>get_data\<close> of the publisher: 27 bytes of the command's packet.\<close>

definition module_get_data :: "('w, 'i) virtuals \<Rightarrow> 'w \<times> control_module \<Rightarrow>
    (message \<times> 'w \<times> control_module) res" where
  "module_get_data vt = (\<lambda>(w, m).
     let cvel = mm_cvel_buff (km_message m);
         cvel = cvel\<lparr>cv_lin := vt_get_lin vt w\<rparr>;
         cvel = cvel\<lparr>cv_ang := vt_get_ang vt w\<rparr>
     in bindR (cmd_vel_to_wire cvel) (\<lambda>(_, cvel).
        bindR (load (db_data (cv_buff cvel)) 0 27) (\<lambda>bs.
          Inr (bs, w, m\<lparr>km_message := (km_message m)\<lparr>mm_cvel_buff := cvel\<rparr>\<rparr>))))"

definition module_publish_params :: "control_module \<Rightarrow> module_callback publish_params" where
  "module_publish_params m =
     (let publish = default_publish_params;
          publish = publish\<lparr>pbp_sock_addr := ep_cmd_vel_addr (km_endpoints m)\<rparr>;
          publish = publish\<lparr>pbp_topic := ep_cmd_vel_topic (km_endpoints m)\<rparr>;
          publish = publish\<lparr>pbp_get_data := Given Send_Velocities\<rparr>
      in publish\<lparr>pbp_period := 10000\<rparr>)"

text \<open>The default object captures its own address, \<open>this\<close>; the callback is replaced.\<close>

definition module_subscribe_params :: "nat \<Rightarrow> control_module \<Rightarrow> module_callback subscribe_params" where
  "module_subscribe_params this m =
     (let subscribe = default_subscribe_params this;
          subscribe = subscribe\<lparr>sbp_sock_addr := ep_data_addr (km_endpoints m)\<rparr>;
          subscribe = subscribe\<lparr>sbp_topic := ep_data_topic (km_endpoints m)\<rparr>
      in subscribe\<lparr>sbp_callback := Given Print_Received\<rparr>)"

definition start_kermit :: "('w, 'i) virtuals \<Rightarrow> nat \<Rightarrow> 'w \<times> control_module \<Rightarrow>
    (bool \<times> 'w \<times> control_module) res" where
  "start_kermit vt this = (\<lambda>(w, m).
     bindR (vt_start vt w) (\<lambda>(_, w).
     bindR (spin_publish (module_publish_params m) (km_net m)) (\<lambda>(_, net).
     bindR (spin_subscribe (module_subscribe_params this m) net) (\<lambda>(_, net).
       Inr (True, w, m\<lparr>km_net := net\<rparr>)))))"

text \<open>\<^verbatim>\<open>loop_kermit\<close> never ends: these are its first rounds.\<close>

fun loop_kermit :: "('w, 'i) virtuals \<Rightarrow> 'i list \<Rightarrow> 'w \<Rightarrow> 'w res" where
  "loop_kermit vt [] w = Inr w"
| "loop_kermit vt (i # is) w = bindR (vt_update_state vt i w) (\<lambda>(_, w). loop_kermit vt is w)"

definition quit_kermit :: "('w, 'i) virtuals \<Rightarrow> 'w \<times> control_module \<Rightarrow> (bool \<times> 'w \<times> control_module) res" where
  "quit_kermit vt = (\<lambda>(w, m).
     bindR (vt_quit vt w) (\<lambda>(_, w).
     bindR (quit (km_net m)) (\<lambda>(_, net).
       Inr (True, w, m\<lparr>km_net := net\<rparr>))))"

text \<open>
  The destructor runs when the derived object is gone, so the call of \<^verbatim>\<open>__quit__\<close> in it is the
  base's; an exception that leaves it ends the program.
\<close>

definition destroy_module :: "control_module \<Rightarrow> control_module res" where
  "destroy_module m =
     (case bindR (base_quit ()) (\<lambda>(_, u). quit (km_net m)) of
        Inr (_, net) \<Rightarrow> Inr (m\<lparr>km_net := net\<rparr>)
      | Inl _ \<Rightarrow> Inl Terminated)"

text \<open>
  The Wii remote as such a class; \<open>encode\<close> is the bit pattern of a float, a round of updating
  meets what the poll leaves in the devices and the time.
\<close>

definition wii_virtuals :: "(rat \<Rightarrow> float32) \<Rightarrow> int \<Rightarrow> int \<Rightarrow> fpu \<Rightarrow> wiiuse \<Rightarrow>
    (wiimote, wii_device list option \<times> int) virtuals" where
  "wii_virtuals encode finds connects F W =
     \<lparr>vt_start = wii_start finds connects, vt_quit = (\<lambda>w. Inr (1, w)),
      vt_update_state = (\<lambda>(polled, now). wii_update_state F W polled now),
      vt_get_lin = (\<lambda>w. encode (wii_lin w)), vt_get_ang = (\<lambda>w. encode (wii_ang w)),
      vt_get_state = wii_state\<rparr>"

section \<open>What a module publishes\<close>

definition wf_module :: "control_module \<Rightarrow> bool" where
  "wf_module m \<longleftrightarrow> wf_cmd_vel (mm_cvel_buff (km_message m)) \<and>
     db_byte_length (cv_buff (mm_cvel_buff (km_message m))) = 27"

lemma new_module_eq:
  "\<exists>m. new_module = Inr m \<and> wf_module m \<and> km_net m = new_zmq_client \<and>
    ep_cmd_vel_addr (km_endpoints m) = MODULE_CMD_VEL \<and> ep_cmd_vel_topic (km_endpoints m) = ''cmd_vel'' \<and>
    ep_data_addr (km_endpoints m) = DATA_ADDR \<and> ep_data_topic (km_endpoints m) = ''data''"
proof -
  have "db_byte_length (packet 27 2 [4, FLOAT, 0, 0, 0, 0, 0, 4, FLOAT, 0, 0, 0, 0, 0]) = 27" by code_simp
  moreover have "wf_cmd_vel \<lparr>cv_lin = 0, cv_ang = 0, cv_indexes = [15, 22],
      cv_buff = packet 27 2 [4, FLOAT, 0, 0, 0, 0, 0, 4, FLOAT, 0, 0, 0, 0, 0]\<rparr>"
    using wf_created(1) by (simp add: create_cmd_vel_eq)
  ultimately show ?thesis
    by (simp add: new_module_def wf_module_def create_cmd_vel_eq)
qed

lemma module_get_data_ok:
  assumes "wf_module m"
  obtains d m' where "module_get_data vt (w, m) = Inr (take 27 d, w, m')" and "wf_module m'" and "length d = 256"
    and "load_word d 15 = Inr (vt_get_lin vt w)" and "load_word d 22 = Inr (vt_get_ang vt w)"
    and "d = db_data (cv_buff (mm_cvel_buff (km_message m')))"
    and "km_net m' = km_net m" and "km_endpoints m' = km_endpoints m"
proof -
  let ?v = "(mm_cvel_buff (km_message m))\<lparr>cv_lin := vt_get_lin vt w, cv_ang := vt_get_ang vt w\<rparr>"
  have "wf_cmd_vel ?v" using assms by (simp add: wf_module_def wf_cmd_vel_def)
  then obtain d where d: "cmd_vel_to_wire ?v = Inr (1, ?v\<lparr>cv_buff := (cv_buff ?v)\<lparr>db_data := d\<rparr>\<rparr>)"
    "length d = 256" "\<And>rest. load_word (d @ rest) 15 = Inr (cv_lin ?v)" "\<And>rest. load_word (d @ rest) 22 = Inr (cv_ang ?v)"
    by (rule cmd_vel_to_wire_spec) blast
  let ?m = "m\<lparr>km_message := (km_message m)\<lparr>mm_cvel_buff := ?v\<lparr>cv_buff := (cv_buff ?v)\<lparr>db_data := d\<rparr>\<rparr>\<rparr>\<rparr>"
  show thesis
  proof (rule that [of d ?m])
    show "module_get_data vt (w, m) = Inr (take 27 d, w, ?m)"
      using d(1,2) by (simp add: module_get_data_def load_def)
    show "wf_module ?m" using assms d(2) by (simp add: wf_module_def wf_cmd_vel_def data_positions)
    show "load_word d 15 = Inr (vt_get_lin vt w)" "load_word d 22 = Inr (vt_get_ang vt w)"
      using d(3) [of "[]"] d(4) [of "[]"] by simp_all
  qed (use d(2) in simp_all)
qed

text \<open>
  The 27 bytes a module's publisher sends are the whole packet, no more and no less, and
  every receiver of velocity commands reads from them what the getters of the derived class
  answered at that moment.
\<close>

theorem module_sends_velocities:
  assumes "wf_module m"
  shows "\<exists>msg m'. module_get_data vt (w, m) = Inr (msg, w, m') \<and> wf_module m' \<and>
    msg = take (unat (db_byte_length (cv_buff (mm_cvel_buff (km_message m'))))) (db_data (cv_buff (mm_cvel_buff (km_message m')))) \<and>
    length msg = 27 \<and>
    (\<forall>v. cv_indexes v = [15, 22] \<longrightarrow>
      cmd_vel_from_wire v msg = Inr (1, v\<lparr>cv_lin := vt_get_lin vt w, cv_ang := vt_get_ang vt w\<rparr>))"
proof (rule module_get_data_ok [OF assms, of vt w])
  fix d m'
  assume a: "module_get_data vt (w, m) = Inr (take 27 d, w, m')" "wf_module m'" "length d = 256"
    "load_word d 15 = Inr (vt_get_lin vt w)" "load_word d 22 = Inr (vt_get_ang vt w)"
    "d = db_data (cv_buff (mm_cvel_buff (km_message m')))"
  have "load_word (take 27 d) 15 = Inr (vt_get_lin vt w)" "load_word (take 27 d) 22 = Inr (vt_get_ang vt w)"
    using a(3-5) by (simp_all add: load_word_def load_def drop_take)
  then show ?thesis
    using a by (intro exI [of _ "take 27 d"] exI [of _ m'])
      (simp add: wf_module_def cmd_vel_from_wire_def)
qed

lemma module_sends_velocities_witness:
  "\<exists>m msg m' v. new_module = Inr m \<and>
    module_get_data (wii_virtuals (\<lambda>r. if r = 0 then 7 else 9) 1 1 exact wii_example)
      (new_default_wiimote exact (Some []), m) = Inr (msg, new_default_wiimote exact (Some []), m') \<and>
    cmd_vel_from_wire v msg = Inr (1, v\<lparr>cv_lin := 7, cv_ang := 7\<rparr>)"
proof -
  obtain m where m: "new_module = Inr m" "wf_module m" using new_module_eq by blast
  let ?vt = "wii_virtuals (\<lambda>r. if r = 0 then 7 else 9) 1 1 exact wii_example" and ?w = "new_default_wiimote exact (Some [])"
  have g: "vt_get_lin ?vt ?w = 7" "vt_get_ang ?vt ?w = 7"
    by (simp_all add: wii_virtuals_def wii_lin_def wii_ang_def new_default_wiimote_def new_wiimote_def)
  obtain v where "create_cmd_vel = Inr v" "wf_cmd_vel v" using wf_created(1) by blast
  then have "cv_indexes v = [15, 22]" by (simp add: wf_cmd_vel_def)
  with module_sends_velocities [OF m(2), of ?vt ?w] m(1) show ?thesis unfolding g by metis
qed

section \<open>The life of a module\<close>

lemmas module_params_defs = module_publish_params_def module_subscribe_params_def default_publish_params_def
  default_subscribe_params_def spin_publish_def spin_subscribe_def publish_params_of_def subscribe_params_of_def

text \<open>A started module: its client's threads, and what quitting it once and twice does.\<close>

lemma module_started:
  assumes "new_module = Inr m" and "vt_start vt w = Inr (r, w1)"
  obtains m1 net2 where "start_kermit vt self (w, m) = Inr (True, w1, m1)"
    and "map fst (zc_periodic_publishers (km_net m1)) = [MODULE_CMD_VEL]"
    and "map fst (zc_subscribers (km_net m1)) = [DATA_ADDR]"
    and "wf_client (km_net m1)" and "all_live (km_net m1)" and "km_endpoints m1 = km_endpoints m"
    and "quit (km_net m1) = Inr (True, net2)" and "quit net2 = Inl Promise_Already_Satisfied"
    and "\<forall>(k, sp) \<in> set (zc_periodic_publishers net2) \<union> set (zc_subscribers net2). sp_satisfied sp \<and> \<not> live sp"
proof -
  have m: "km_net m = new_zmq_client" "ep_cmd_vel_addr (km_endpoints m) = MODULE_CMD_VEL"
    "ep_data_addr (km_endpoints m) = DATA_ADDR" "ep_data_topic (km_endpoints m) = ''data''"
    using assms(1) new_module_eq by (metis sum.inject(2))+
  let ?p = "publisher_task MODULE_CMD_VEL (ep_cmd_vel_topic (km_endpoints m)) (Given Send_Velocities) 10000 True (Some ZMQ_PUB)"
  let ?s = "subscriber_task DATA_ADDR ''data'' (Given Print_Received) True (Some ZMQ_SUB)"
  let ?net = "new_zmq_client\<lparr>zc_periodic_publishers := [(MODULE_CMD_VEL, running ?p)],
    zc_subscribers := [(DATA_ADDR, running ?s)]\<rparr>"
  have start: "start_kermit vt self (w, m) = Inr (True, w1, m\<lparr>km_net := ?net\<rparr>)"
    using assms(2) by (simp add: start_kermit_def module_params_defs m starting_defs new_zmq_client_def
        start_thread_fresh Let_def)
  have wf: "wf_client ?net" by (simp add: wf_client_def wf_spaces_def new_zmq_client_def)
  have live: "all_live ?net" by (simp add: all_live_def new_zmq_client_def)
  let ?net2 = "?net\<lparr>zc_subscribers := stop_all (zc_subscribers ?net), zc_servers := stop_all (zc_servers ?net),
    zc_periodic_publishers := stop_all (zc_periodic_publishers ?net),
    zc_periodic_clients := stop_all (zc_periodic_clients ?net)\<rparr>"
  have quit: "quit ?net = Inr (True, ?net2)" using quit_eq [OF wf] live by simp
  have "\<not> all_live ?net2" by (simp add: all_live_def stop_all_def stopped_def live_def)
  then have again: "quit ?net2 = Inl Promise_Already_Satisfied"
    using quit_eq [OF wf_quit [OF wf quit]] by simp
  show thesis
    by (rule that [OF start, of ?net2])
      (use wf live quit again in \<open>simp_all add: stop_all_def stopped_def live_def\<close>)
qed

text \<open>
  A module whose derived class starts and quits without an exception runs one publisher and
  one subscriber.  Destroying it stops both; but after \<^verbatim>\<open>quit_kermit\<close> the destructor quits the
  client a second time, which throws and ends the program.  Starting a module twice throws
  too, for the subscription is looked up by its topic and filed under its address.
\<close>

theorem module_life:
  assumes "new_module = Inr m" and "vt_start vt w = Inr (r, w1)" and "vt_quit vt w1 = Inr (q, w2)"
    and "vt_start vt w1 = Inr (r', w1')"
  shows "\<exists>m1 m2 m3. start_kermit vt this (w, m) = Inr (True, w1, m1) \<and>
    map fst (zc_periodic_publishers (km_net m1)) = [MODULE_CMD_VEL] \<and>
    map fst (zc_subscribers (km_net m1)) = [DATA_ADDR] \<and> all_live (km_net m1) \<and>
    destroy_module m1 = Inr m3 \<and>
    (\<forall>(k, sp) \<in> set (zc_periodic_publishers (km_net m3)) \<union> set (zc_subscribers (km_net m3)).
      sp_satisfied sp \<and> \<not> live sp) \<and>
    quit_kermit vt (w1, m1) = Inr (True, w2, m2) \<and> destroy_module m2 = Inl Terminated \<and>
    start_kermit vt this (w1, m1) = Inl Future_Already_Retrieved"
proof -
  obtain m1 net2 where m1: "start_kermit vt this (w, m) = Inr (True, w1, m1)"
    "map fst (zc_periodic_publishers (km_net m1)) = [MODULE_CMD_VEL]"
    "map fst (zc_subscribers (km_net m1)) = [DATA_ADDR]"
    "wf_client (km_net m1)" "all_live (km_net m1)" "km_endpoints m1 = km_endpoints m"
    "quit (km_net m1) = Inr (True, net2)" "quit net2 = Inl Promise_Already_Satisfied"
    "\<forall>(k, sp) \<in> set (zc_periodic_publishers net2) \<union> set (zc_subscribers net2). sp_satisfied sp \<and> \<not> live sp"
    by (rule module_started [OF assms(1,2), where self = this]) (rule that)
  have ends: "ep_cmd_vel_addr (km_endpoints m) = MODULE_CMD_VEL" "ep_data_addr (km_endpoints m) = DATA_ADDR" "ep_data_topic (km_endpoints m) = ''data''"
    using assms(1) new_module_eq by (metis sum.inject(2))+
  have taken: "DATA_ADDR \<noteq> ''data''" by (simp add: DATA_ADDR_def)
  obtain pub where pub: "map_of (zc_periodic_publishers (km_net m1)) MODULE_CMD_VEL = Some pub"
    using m1(2) by (cases "map_of (zc_periodic_publishers (km_net m1)) MODULE_CMD_VEL") (auto simp: map_of_eq_None_iff)
  obtain sp where "map_of (zc_subscribers (km_net m1)) DATA_ADDR = Some sp"
    using m1(3) by (cases "map_of (zc_subscribers (km_net m1)) DATA_ADDR") (auto simp: map_of_eq_None_iff)
  moreover have "wf_spaces (zc_subscribers (km_net m1))" using m1(4) by (simp add: wf_client_def)
  ultimately have "start_thread ZMQ_SUB (zc_subscribers (km_net m1)) DATA_ADDR t = Inl Future_Already_Retrieved" for t
    by (intro start_thread_taken)
  moreover have "map_of (zc_subscribers (km_net m1)) ''data'' = None"
    using m1(3) taken by (auto simp: map_of_eq_None_iff)
  ultimately have twice: "start_kermit vt this (w1, m1) = Inl Future_Already_Retrieved"
    using assms(4) by (simp add: pub start_kermit_def module_params_defs m1(6) ends starting_defs Let_def)
  show ?thesis
  proof (intro exI conjI)
    show "destroy_module m1 = Inr (m1\<lparr>km_net := net2\<rparr>)" using m1(7) by (simp add: destroy_module_def base_quit_def)
    show "quit_kermit vt (w1, m1) = Inr (True, w2, m1\<lparr>km_net := net2\<rparr>)"
      using assms(3) m1(7) by (simp add: quit_kermit_def)
    show "destroy_module (m1\<lparr>km_net := net2\<rparr>) = Inl Terminated"
      using m1(8) by (simp add: destroy_module_def base_quit_def)
  qed (use m1 twice in simp_all)
qed

lemma module_life_witness:
  "\<exists>m w m1 w2 m2. new_module = Inr m \<and>
    start_kermit (wii_virtuals (\<lambda>r. 0) 0 0 exact wii_example) 0 (new_default_wiimote exact None, m) = Inr (True, w, m1) \<and>
    quit_kermit (wii_virtuals (\<lambda>r. 0) 0 0 exact wii_example) (w, m1) = Inr (True, w2, m2) \<and>
    destroy_module m2 = Inl Terminated"
proof -
  obtain m where m: "new_module = Inr m" using new_module_eq by blast
  let ?vt = "wii_virtuals (\<lambda>r. 0) 0 0 exact wii_example" and ?w = "new_default_wiimote exact None"
  have "vt_start ?vt ?w = Inr (1, ?w)" "vt_quit ?vt ?w = Inr (1, ?w)"
    by (simp_all add: wii_virtuals_def wii_start_def connect_def new_default_wiimote_def new_wiimote_def)
  from module_life [OF m this(1,2,1), of 0] m show ?thesis by blast
qed

section \<open>The test program of the remote\<close>

text \<open>
  \<^verbatim>\<open>impl/controller_examples/wiitest.cpp\<close>: \<open>devs\<close> is what \<^verbatim>\<open>wiiuse_init\<close> gives.  With a remote
  the program loops, and its state is the one after the rounds seen; without one it quits and
  returns, which destroys the remote (the library's cleanup) and then the module.
\<close>

datatype wii_outcome = Looping wiimote | Ended int

definition wii_test_main :: "(rat \<Rightarrow> float32) \<Rightarrow> int \<Rightarrow> int \<Rightarrow> fpu \<Rightarrow> wiiuse \<Rightarrow> nat \<Rightarrow> wii_device list option \<Rightarrow>
    (wii_device list option \<times> int) list \<Rightarrow> wii_outcome res" where
  "wii_test_main encode nfound nconn F W this devs rounds =
     (let vt = wii_virtuals encode nfound nconn F W in
      bindR new_module (\<lambda>m.
      bindR (start_kermit vt this (new_default_wiimote F devs, m)) (\<lambda>(_, w, m).
      bindR (heartbeat w) (\<lambda>beats.
        if beats then bindR (loop_kermit vt rounds w) (\<lambda>w. Inr (Looping w))
        else bindR (quit_kermit vt (w, m)) (\<lambda>(_, w, m).
             bindR (destroy_module m) (\<lambda>_. Inr (Ended 0)))))))"

lemma loop_kermit_wii:
  "loop_kermit (wii_virtuals encode nfound nconn F W) rounds w = wii_run F W rounds w"
  by (induction rounds arbitrary: w)
    (auto simp: wii_virtuals_def wii_update_state_def bindR_assoc split: prod.split)

text \<open>
  C25: The test program never returns 0.  The library gives no devices or an array of one, and
  connects at most one.  Where it gives none, finds a remote and answers that it connected, the
  program dereferences the null pointer; where one is found and connected it loops, through any
  rounds (which keep the array at one device), and after each of them the velocities are within
  100 and 180; in every other case \<^verbatim>\<open>quit_kermit\<close> is followed by the second \<^verbatim>\<open>quit\<close>, in the module's
  destructor, whose exception ends the program when \<^verbatim>\<open>main\<close> was about to return.
\<close>

theorem wii_test_never_returns:
  assumes "devs = None \<or> (\<exists>d. devs = Some [d])" and "nconn \<le> int MAXWIIMOTES" and "one_device rounds"
  shows "if nfound \<noteq> 0 \<and> nconn \<noteq> 0 \<and> devs = None
      then wii_test_main encode nfound nconn F W this devs rounds = Inl Null_Deref
    else if nfound \<noteq> 0 \<and> nconn = 1 \<and> (\<exists>d. devs = Some [d] \<and> wd_connected d)
      then \<exists>w. wii_test_main encode nfound nconn F W this devs rounds = Inr (Looping w) \<and>
        \<bar>wii_lin w\<bar> \<le> 100 \<and> \<bar>wii_ang w\<bar> \<le> 180
    else wii_test_main encode nfound nconn F W this devs rounds = Inl Terminated"
proof (cases "nfound \<noteq> 0 \<and> nconn \<noteq> 0 \<and> devs = None")
  case True
  obtain m where m: "new_module = Inr m" using new_module_eq by blast
  have "wii_test_main encode nfound nconn F W this devs rounds = Inl Null_Deref"
    using True by (simp add: wii_test_main_def start_kermit_def wii_virtuals_def m wii_start_def connect_def
        new_default_wiimote_def new_wiimote_def Let_def)
  with True show ?thesis by simp
next
  case False
  let ?vt = "wii_virtuals encode nfound nconn F W" and ?w = "new_default_wiimote F devs"
  let ?lost = "nfound = 0 \<or> nconn \<noteq> 1 \<or> (\<forall>d. devs = Some [d] \<longrightarrow> \<not> wd_connected d)"
  have one: "nconn = 1 \<or> nconn \<le> 0" using assms(2) by (auto simp: const_simps)
  obtain m where m: "new_module = Inr m" using new_module_eq by blast
  let ?w1 = "?w\<lparr>wm_found := nfound, wm_connected := if nfound = 0 then 0 else nconn\<rparr>"
  have "wii_start nfound nconn ?w = Inr (1, ?w1)"
    using assms(1) False
    by (auto simp: wii_start_def connect_def new_default_wiimote_def new_wiimote_def Let_def)
  then obtain r w1 where w1: "wii_start nfound nconn ?w = Inr (r, w1)" "wm_data w1 = devs"
    "wm_connected w1 = (if nfound = 0 then 0 else nconn)"
    by (rule that) (simp_all add: new_default_wiimote_def new_wiimote_def)
  then have st: "vt_start ?vt ?w = Inr (r, w1)" by (simp add: wii_virtuals_def)
  obtain m1 net2 where m1: "start_kermit ?vt this (?w, m) = Inr (True, w1, m1)"
    "quit (km_net m1) = Inr (True, net2)" "quit net2 = Inl Promise_Already_Satisfied"
    by (rule module_started [OF m st, where self = this]) blast
  have beat: "heartbeat w1 = Inr (\<not> ?lost)"
    using assms(1) one by (auto simp: heartbeat_def w1(2,3))
  show ?thesis
  proof (cases ?lost)
    case True
    have "quit_kermit ?vt (w1, m1) = Inr (True, w1, m1\<lparr>km_net := net2\<rparr>)"
      using m1(2) by (simp add: quit_kermit_def wii_virtuals_def)
    moreover have "destroy_module (m1\<lparr>km_net := net2\<rparr>) = Inl Terminated"
      using m1(3) by (simp add: destroy_module_def base_quit_def)
    moreover have "heartbeat w1 = Inr False" using beat True by simp
    ultimately have "wii_test_main encode nfound nconn F W this devs rounds = Inl Terminated"
      by (simp add: wii_test_main_def m m1(1) Let_def)
    with True \<open>\<not> (nfound \<noteq> 0 \<and> nconn \<noteq> 0 \<and> devs = None)\<close> show ?thesis by auto
  next
    case found: False
    then obtain d where d: "devs = Some [d]" "wd_connected d" "nfound \<noteq> 0" "nconn = 1" by blast
    then obtain w2 where w2: "wii_run F W rounds w1 = Inr w2"
      using wii_run_ok [of w1 d rounds F W] w1(2,3) assms(2,3) by auto
    have "heartbeat w1 = Inr True" using beat found by simp
    then have run: "wii_test_main encode nfound nconn F W this devs rounds = Inr (Looping w2)"
      by (simp add: wii_test_main_def m m1(1) loop_kermit_wii w2 Let_def)
    have "within_limits w1" "wm_constants w1 = default_constants F"
      using wii_start_keeps [OF w1(1)] by (simp_all add: within_limits_def new_default_wiimote_def new_wiimote_def
          default_constants_def DRIVING_def)
    then have "\<bar>wii_lin w2\<bar> \<le> 100 \<and> \<bar>wii_ang w2\<bar> \<le> 180"
      using wii_run_limits [OF _ _ _ w2] by (simp add: within_limits_def wii_lin_def wii_ang_def default_constants_def)
    with run d show ?thesis by simp
  qed
qed

lemma wii_test_never_returns_witness:
  "wii_test_main (\<lambda>_. 0) 0 0 exact wii_example 0 (Some [\<lparr>wd_btns = 0, wd_btns_held = 0, wd_connected = False\<rparr>]) [] =
      Inl Terminated \<and>
    wii_test_main (\<lambda>_. 0) 1 1 exact wii_example 0 None [] = Inl Null_Deref \<and>
    (\<exists>w. wii_test_main (\<lambda>_. 0) 1 1 exact wii_example 0 (Some [\<lparr>wd_btns = 0, wd_btns_held = 0, wd_connected = True\<rparr>])
      [(Some [\<lparr>wd_btns = 0x0800, wd_btns_held = 0, wd_connected = True\<rparr>], 6000000000)] = Inr (Looping w) \<and>
      \<bar>wii_lin w\<bar> \<le> 100)"
proof -
  let ?d = "\<lambda>c. \<lparr>wd_btns = 0, wd_btns_held = 0, wd_connected = c\<rparr>"
  have one: "one_device []"
    "one_device [(Some [\<lparr>wd_btns = 0x0800, wd_btns_held = 0, wd_connected = True\<rparr>], 6000000000)]"
    "(0 :: int) \<le> int MAXWIIMOTES" "(1 :: int) \<le> int MAXWIIMOTES"
    "Some [?d c] = None \<or> (\<exists>d. Some [?d c] = Some [d])" for c
    by (simp_all add: one_device_def const_simps)
  have lost: "wii_test_main (\<lambda>_. 0) 0 0 exact wii_example 0 (Some [?d False]) [] = Inl Terminated"
    using wii_test_never_returns [OF one(5) [of False] one(3,1), of 0 "\<lambda>_. 0" exact wii_example 0] by simp
  have null: "wii_test_main (\<lambda>_. 0) 1 1 exact wii_example 0 None [] = Inl Null_Deref"
    using wii_test_never_returns [OF disjI1 [OF refl] one(4,1), of 1 "\<lambda>_. 0" exact wii_example 0] by simp
  have loops: "\<exists>w. wii_test_main (\<lambda>_. 0) 1 1 exact wii_example 0 (Some [?d True])
      [(Some [\<lparr>wd_btns = 0x0800, wd_btns_held = 0, wd_connected = True\<rparr>], 6000000000)] = Inr (Looping w) \<and>
      \<bar>wii_lin w\<bar> \<le> 100"
    using wii_test_never_returns [OF one(5) [of True] one(4,2), of 1 "\<lambda>_. 0" exact wii_example 0] by auto
  show ?thesis by (intro conjI lost null loops)
qed

end
