(* ===== verification/Message_Print.thy ===== *)
theory Message_Print
  imports Data_Message Zmq_Helpers
begin

text \<open>
  Model of the printing functions: \<^verbatim>\<open>print_memory\<close> and \<^verbatim>\<open>print_memory_hex\<close> of \<^verbatim>\<open>data.c\<close>,
  \<^verbatim>\<open>print_message_raw\<close> and \<^verbatim>\<open>print_message_formatted\<close> of \<^verbatim>\<open>data_messages.c\<close>.  The result is
  the text printed; memory is the bytes from the pointer on, and reading past them is a
  fault.  Whether \<^verbatim>\<open>char\<close> is signed is a parameter.
\<close>

section \<open>The functions\<close>

abbreviation newline :: string where "newline \<equiv> [CHR 0x0A]"

fun print_bits :: "nat \<Rightarrow> u8 \<Rightarrow> string" where
  "print_bits 0 j = []"
| "print_bits (Suc k) j = (if j AND push_bit 7 1 \<noteq> 0 then ''1'' else ''0'') @ print_bits k (push_bit 1 j)"

definition print_memory :: "bytes \<Rightarrow> nat \<Rightarrow> string res" where
  "print_memory data byte_size =
     bindR (load data 0 byte_size) (\<lambda>bs. Inr (concat (map (\<lambda>j. print_bits 8 j @ '' '') bs) @ newline))"

text \<open>\<^verbatim>\<open>%x\<close> of a \<^verbatim>\<open>char\<close>, without a width and without a space.\<close>

definition print_memory_hex :: "bool \<Rightarrow> bytes \<Rightarrow> nat \<Rightarrow> string res" where
  "print_memory_hex char_signed data byte_size =
     bindR (load data 0 byte_size) (\<lambda>bs.
       Inr (concat (map (\<lambda>b. hex_digits False (unat (char_value char_signed b))) bs) @ newline))"

definition print_message_raw :: "bytes \<Rightarrow> nat \<Rightarrow> string res" where
  "print_message_raw input n =
     bindR (load input 0 n) (\<lambda>bs.
       Inr (concat (map (\<lambda>b. hex_digits False (unat b) @ '' '') bs) @ newline))"

text \<open>
  The loop of \<^verbatim>\<open>print_message_formatted\<close> over the fields; \<^verbatim>\<open>buffer\<close> is the array on the stack the
  payloads are copied to.
\<close>

fun print_fields :: "bytes \<Rightarrow> bytes \<Rightarrow> nat list \<Rightarrow> string res" where
  "print_fields recieved_data buffer [] = Inr []"
| "print_fields recieved_data buffer (i # is) =
     bindR (get_data (Some recieved_data) (Some buffer) i) (\<lambda>(_, temp, buffer).
     bindR (case el_data temp of
         None \<Rightarrow> Inl Null_Deref
       | Some off \<Rightarrow> print_message_raw (drop off recieved_data) (unat (el_size temp) + 1)) (\<lambda>raw.
     bindR (case buffer of None \<Rightarrow> Inl Null_Deref | Some b \<Rightarrow> print_fields recieved_data b is) (\<lambda>more_text.
       Inr (digits (unat (el_size temp)) @ '' '' @ [char_of (unat (el_type_code temp))] @ newline @ ''     '' @ raw @ more_text))))"

definition print_message_formatted :: "bytes \<Rightarrow> bytes \<Rightarrow> string res" where
  "print_message_formatted buffer recieved_data =
     bindR (get_protocol_version recieved_data) (\<lambda>version.
     bindR (get_header get_opcode_impl recieved_data) (\<lambda>opcode.
     bindR (get_header get_checksum_impl recieved_data) (\<lambda>check.
     bindR (get_header get_byte_length_impl recieved_data) (\<lambda>len.
     bindR (get_header get_number_fields_impl recieved_data) (\<lambda>nf.
     bindR (print_fields recieved_data buffer [0..<unat nf]) (\<lambda>text_of_fields.
       Inr (''HEADER: '' @ digits (unat version) @ '' '' @ digits (unat opcode) @ '' '' @ digits (unat check) @ '' '' @
         digits (unat len) @ '' '' @ digits (unat nf) @ newline @ text_of_fields)))))))"

section \<open>Reading a dump back\<close>

text \<open>A reader of the two dumps: words between spaces, as bits or as hexadecimal digits.\<close>

fun words_of :: "string \<Rightarrow> string \<Rightarrow> string list" where
  "words_of w [] = []"
| "words_of w (c # cs) = (if c = CHR '' '' then w # words_of [] cs else words_of (w @ [c]) cs)"

definition read_bits :: "string \<Rightarrow> u8" where
  "read_bits w = horner_sum of_bool 2 (rev (map (\<lambda>c. c = CHR ''1'') w))"

definition read_hex :: "string \<Rightarrow> u8" where
  "read_hex w = foldl (\<lambda>n c. 16 * n + of_nat (hex_value c)) 0 w"

lemma words_of_concat:
  assumes "\<And>x. CHR '' '' \<notin> set (f x)"
  shows "words_of [] (concat (map (\<lambda>x. f x @ '' '') xs) @ newline) = map f xs"
proof (induction xs)
  case (Cons x xs)
  have "CHR '' '' \<notin> set w \<Longrightarrow> words_of v (w @ CHR '' '' # cs) = (v @ w) # words_of [] cs" for v w cs
    by (induction w arbitrary: v) auto
  with Cons assms [of x] show ?case by simp
qed simp

lemma print_bits_eq:
  "print_bits 8 j = map (\<lambda>i. if bit j (7 - i) then CHR ''1'' else CHR ''0'') [0..<8]"
proof -
  have "print_bits n j = map (\<lambda>i. if bit j (7 - i) then CHR ''1'' else CHR ''0'') [0..<n]" if "n \<le> 8" for n j
    using that
  proof (induction n arbitrary: j)
    case (Suc n)
    have b: "j AND push_bit 7 1 \<noteq> 0 \<longleftrightarrow> bit j 7"
      using and_exp_eq_0_iff_not_bit [of j 7] by (simp add: push_bit_eq_mult)
    have "[0..<Suc n] = 0 # map Suc [0..<n]" by (simp add: map_Suc_upt upt_conv_Cons)
    moreover have "bit (push_bit 1 j) (7 - i) = bit j (7 - Suc i)" if "i < n" for i
      unfolding bit_push_bit_iff using that Suc.prems by auto
    ultimately show ?case using Suc b by (simp cong: map_cong)
  qed simp
  then show ?thesis by simp
qed

lemma read_print_bits: "read_bits (print_bits 8 j) = j"
proof -
  have "rev (map (\<lambda>c. c = CHR ''1'') (print_bits 8 j)) = map (bit j) [0..<8]"
    unfolding print_bits_eq by (rule nth_equalityI) (simp_all add: rev_nth)
  then show ?thesis unfolding read_bits_def by (simp only: horner_sum_bit_eq_take_bit) (rule take_bit_word_eq_self, simp)
qed

lemma read_hex_byte: "read_hex (hex_digits False (unat (b :: u8))) = b"
proof -
  let ?n = "unat b"
  have n: "?n < 256" by (rule unat_byte)
  have h: "?n div 16 < 16" "?n mod 16 < 16" using n by (simp_all add: less_mult_imp_div_less)
  have b: "b = 16 * of_nat (?n div 16) + of_nat (?n mod 16)"
  proof -
    have "of_nat (unat b) = b" by (rule word_nat_cases [of b]) simp
    moreover have "(of_nat ?n :: u8) = of_nat (16 * (?n div 16) + ?n mod 16)" by (simp only: mult_div_mod_eq)
    ultimately show ?thesis by (simp only: of_nat_add of_nat_mult of_nat_numeral)
  qed
  show ?thesis
  proof (cases "?n < 16")
    case True
    then show ?thesis by (simp add: read_hex_def hex_digits.simps [of False ?n] hex_value_char)
  next
    case False
    have "hex_digits False (?n div 16) = [hex_char False (?n div 16)]"
      using h(1) by (simp add: hex_digits.simps [of False "?n div 16"])
    then have "hex_digits False ?n = [hex_char False (?n div 16), hex_char False (?n mod 16)]"
      using False by (simp add: hex_digits.simps [of False ?n])
    then show ?thesis using b h by (simp add: read_hex_def hex_value_char)
  qed
qed

lemma hex_char_no_space: "d < 16 \<Longrightarrow> hex_char False d \<noteq> CHR '' ''"
proof
  assume "d < 16" "hex_char False d = CHR '' ''"
  then have "d = hex_value CHR '' ''" by (metis hex_value_char)
  then have "d = 0" by (simp add: hex_value_def)
  with \<open>hex_char False d = CHR '' ''\<close> show False by (simp add: hex_char_def char_of_def)
qed

lemma hex_digits_no_space: "CHR '' '' \<notin> set (hex_digits False n)"
proof (induction False n rule: hex_digits.induct)
  case (1 n)
  then show ?case
    using hex_char_no_space [of n] hex_char_no_space [of "n mod 16"]
    by (subst hex_digits.simps) (auto dest: sym)
qed

lemma print_bits_no_space: "CHR '' '' \<notin> set (print_bits n j)"
  by (induction n arbitrary: j) auto

text \<open>
  What the dumps of memory show.  From the text \<^verbatim>\<open>print_memory\<close> prints, and from that of
  \<^verbatim>\<open>print_message_raw\<close>, the bytes can be read back, for every size inside the object; asking
  for more than the object has is a fault of all three.  The text of \<^verbatim>\<open>print_memory_hex\<close>, which
  neither pads nor separates, does not say which bytes they were.
\<close>

theorem dumps_read_back:
  "if byte_size \<le> length data then
     \<exists>s s' h. print_memory data byte_size = Inr s \<and> map read_bits (words_of [] s) = take byte_size data \<and>
       print_message_raw data byte_size = Inr s' \<and> map read_hex (words_of [] s') = take byte_size data \<and>
       print_memory_hex sg data byte_size = Inr h \<and>
       print_memory_hex sg [0x11, 1] 2 = print_memory_hex sg [1, 0x11] 2
   else print_memory data byte_size = Inl Out_Of_Bounds \<and> print_message_raw data byte_size = Inl Out_Of_Bounds \<and>
     print_memory_hex sg data byte_size = Inl Out_Of_Bounds"
proof -
  have small: "unat (char_value sg 1) = 1" "unat (char_value sg 17) = 17"
    using char_value_low [of sg 1] char_value_low [of sg 17] by simp_all
  have "print_memory_hex sg [0x11, 1] 2 = print_memory_hex sg [1, 0x11] 2"
    by (simp add: print_memory_hex_def load_def small hex_digits.simps)
  then show ?thesis
    using words_of_concat [of "print_bits 8" "take byte_size data", OF print_bits_no_space]
      words_of_concat [of "\<lambda>b. hex_digits False (unat b)" "take byte_size data", OF hex_digits_no_space]
    by (simp add: print_memory_def print_message_raw_def print_memory_hex_def load_def comp_def
        read_print_bits read_hex_byte)
qed

section \<open>What the formatted print shows\<close>

definition entry_text :: "entry \<Rightarrow> string" where
  "entry_text e = digits (length (snd e)) @ '' '' @ [char_of (unat (fst e))] @ newline @ ''     '' @
     concat (map (\<lambda>b. hex_digits False (unat b) @ '' '') (snd e @ [0])) @ newline"

lemma print_fields_entries:
  assumes "msg = hdr @ encode_entries (ds @ es) @ rest" and "length hdr = DTPOS"
    and "\<forall>e \<in> set (ds @ es). plain_entry e"
    and "load_word msg FLDPOS = Inr (of_nat k :: u16)" and "k = length (ds @ es)" and "k < MAX_FIELDS"
    and "length buffer = 256"
  shows "print_fields msg buffer [length ds..<k] = Inr (concat (map entry_text es))"
  using assms
proof (induction es arbitrary: ds buffer)
  case (Cons e es)
  obtain t p where e: "e = (t, p)" by fastforce
  have p: "plain_entry (t, p)" using Cons.prems(3) e by simp
  have n: "length p < 256" using plain_entry_length [OF p] by simp
  let ?off = "DTPOS + length (encode_entries ds) + 2" and ?b = "p @ drop (length p) buffer"
  have get: "get_data (Some msg) (Some buffer) (length ds) =
      Inr (ENONE, \<lparr>el_size = of_nat (length p), el_type_code = t, el_data = Some ?off\<rparr>, Some ?b)"
    by (rule get_data_entry [where k = k and es = es and rest = rest and hdr = hdr])
      (use Cons.prems e p n in auto)
  have "msg = (hdr @ encode_entries ds @ [of_nat (length p), t]) @ (p @ [0]) @ encode_entries es @ rest"
    using Cons.prems(1) by (simp add: e encode_entry_def)
  then have "drop ?off msg = (p @ [0]) @ encode_entries es @ rest"
    using Cons.prems(2) by (simp add: const_simps)
  then have raw: "print_message_raw (drop ?off msg) (unat (of_nat (length p) :: u8) + 1) =
      Inr (concat (map (\<lambda>b. hex_digits False (unat b) @ '' '') (p @ [0])) @ newline)"
    by (simp add: print_message_raw_def load_def unat_of_nat_u8 [OF n])
  have "[length ds..<k] = length ds # [length (ds @ [e])..<k]"
    using Cons.prems(5) by (subst upt_rec) (simp del: upt_Suc)
  moreover have "print_fields msg ?b [length (ds @ [e])..<k] = Inr (concat (map entry_text es))"
    by (rule Cons.IH) (use Cons.prems n in auto)
  ultimately show ?case
    using get raw by (simp add: e entry_text_def [of "(t, p)"] unat_of_nat_u8 [OF n] del: upt_Suc)
qed simp

text \<open>
  A message that crashes the formatted print.  A message of version 1 that claims
  \<^verbatim>\<open>MAX_FIELDS\<close> or more elements, whatever else it holds, makes \<^verbatim>\<open>get_data\<close> answer with a
  zero element, whose null pointer is dereferenced.
\<close>

theorem formatted_print_crashes:
  assumes "get_protocol_version msg = Inr 1" and "load_word msg FLDPOS = Inr (f :: u16)" and "MAX_FIELDS \<le> unat f"
  shows "print_message_formatted buffer msg = Inl Null_Deref"
proof -
  have len: "12 \<le> length msg"
    using assms(2) by (simp add: load_word_def load_def const_simps split: if_splits)
  then have "\<exists>a. load_word msg OPPOS = (Inr a :: u8 res)" "\<exists>a. load_word msg MAGPOS = (Inr a :: u16 res)"
    "\<exists>a. load_word msg BYTEPOS = (Inr a :: u32 res)"
    by (simp_all add: load_word_def load_def const_simps)
  moreover have "[0..<unat f] = 0 # [1..<unat f]"
    using assms(3) by (subst upt_rec) (simp add: const_simps)
  ultimately show ?thesis
    using assms by (auto simp: print_message_formatted_def get_header_impls get_data_def zero_element_def Let_def)
qed

text \<open>
  C27: what the formatted print of a message shows.  For a message made by \<^verbatim>\<open>create_buffer\<close> and
  \<^verbatim>\<open>serialize_data\<close> from plain elements (of a type of fixed width with exactly that many bytes, of
  any other type with 8 to 255 bytes, one of the bits 2 to 31 of the first eight set), in all
  shorter than \<^verbatim>\<open>MESSAGE_SIZE\<close>, and finished with \<^verbatim>\<open>to_wire\<close>, whatever follows it in memory and
  whatever the array of 256 bytes on the stack held, the print crashes if there are \<^verbatim>\<open>MAX_FIELDS\<close>
  elements or more.  If there are fewer, the header line shows version 1, the code 0 the reader of opcodes
  gives for every known one, no checksum, the length and the number of elements; then come the
  elements in the order they were appended, each with its size, its type's character and its
  bytes with the terminator.
\<close>

theorem formatted_print_shows_elements:
  assumes "\<forall>e \<in> set es. plain_entry e"
    and "DATA_HEADER_SIZE + length (encode_entries es) < MESSAGE_SIZE" and "length buffer = 256"
  shows "\<exists>b b'. bindR (create_buffer (Some x)) (\<lambda>b. serialize_all b es) = Inr b \<and>
    to_wire (Some b) = Inr (0, Some b') \<and>
    print_message_formatted buffer (db_data b' @ after) =
      (if length es < MAX_FIELDS then Inr (''HEADER: 1 0 0 '' @
         digits (DATA_HEADER_SIZE + length (encode_entries es)) @ '' '' @ digits (length es) @ newline @
         concat (map entry_text es))
       else Inl Null_Deref)"
proof -
  obtain b w hdr rest0 where b: "bindR (create_buffer (Some x)) (\<lambda>b. serialize_all b es) = Inr b"
    "to_wire (Some b) = Inr (0, Some w)" "db_data w = hdr @ encode_entries es @ rest0"
    "hdr = db_header b @ [hdr ! 12]" "length hdr = DTPOS" "represents b es"
    "db_protocol_version b = 1" "db_opcode b = 1" "db_functional_flags b = 0" "db_checksum b = 0"
    by (rule wire_image [OF assms(1,2)]) blast
  let ?rest = "[hdr ! 12] @ encode_entries es @ rest0 @ after"
  have msg: "db_data w @ after = db_header b @ ?rest" unfolding b(3) by (subst b(4)) simp
  have len: "unat (db_byte_length b) = DATA_HEADER_SIZE + length (encode_entries es)"
    "db_fields b = of_nat (length es)" using b(6) by (simp_all add: represents_def)
  have short: "db_byte_length b \<le> of_nat MESSAGE_SIZE"
    using len(1) assms(2) by (simp add: word_le_nat_alt const_simps)
  note k = entries_counted [OF assms(2)]
  have version: "get_protocol_version (db_header b @ ?rest) = Inr 1"
    unfolding get_protocol_version_def
    by (rule load_word_at [where xs = "[]" and zs = "drop 1 (db_header b) @ ?rest"]) (simp_all add: db_header_def b(7))
  have opcode: "(load_word (db_header b @ ?rest) OPPOS :: u8 res) = Inr 1"
    by (rule load_word_at [where xs = "take 1 (db_header b)" and zs = "drop 2 (db_header b) @ ?rest"])
      (simp_all add: db_header_def b(8) const_simps)
  have check: "(load_word (db_header b @ ?rest) MAGPOS :: u16 res) = Inr 0"
    by (rule load_word_at [where xs = "take 4 (db_header b)" and zs = "drop 6 (db_header b) @ ?rest"])
      (simp_all add: db_header_def b(10) const_simps)
  have bytes: "(load_word (db_header b @ ?rest) BYTEPOS :: u32 res) = Inr (db_byte_length b)"
    by (rule load_word_at [where xs = "take 6 (db_header b)" and zs = "drop 10 (db_header b) @ ?rest"])
      (simp_all add: db_header_def const_simps)
  note nf = fields_of_header [of b ?rest]
  have "print_fields (db_data w @ after) buffer [0..<length es] = Inr (concat (map entry_text es))"
    if "length es < MAX_FIELDS"
  proof (rule print_fields_entries [where ds = "[]" and hdr = hdr and rest = "rest0 @ after", unfolded list.size])
    show "load_word (db_data w @ after) FLDPOS = Inr (of_nat (length es) :: u16)"
      using nf len(2) by (simp add: msg)
  qed (use assms that b(3,5) in auto)
  then have pf: "print_fields (db_header b @ ?rest) buffer [0..<length es] = Inr (concat (map entry_text es))"
    if "length es < MAX_FIELDS" using that by (simp only: msg)
  have few: "print_message_formatted buffer (db_data w @ after) = Inr (''HEADER: 1 0 0 '' @
      digits (DATA_HEADER_SIZE + length (encode_entries es)) @ '' '' @ digits (length es) @ newline @
      concat (map entry_text es))" if "length es < MAX_FIELDS"
    using short that unfolding msg
    by (simp add: print_message_formatted_def get_header_impls version opcode check bytes nf len k pf
        MAX_MESSAGE_TYPE_def digits.simps [of 0] digits.simps [of "Suc 0"] char_of_def bit_0 del: append.simps)
  have many: "print_message_formatted buffer (db_data w @ after) = Inl Null_Deref" if "\<not> length es < MAX_FIELDS"
    unfolding msg by (rule formatted_print_crashes [OF version nf]) (use that len(2) k in simp)
  show ?thesis using b(1,2) few many by (intro exI [of _ b] exI [of _ w]) auto
qed

lemma formatted_print_shows_elements_witness:
  "\<exists>b b'. bindR (create_buffer (Some zero_data_buffer)) (\<lambda>b. serialize_all b [(INT16, [7, 0]), (CHAR_TYPE, [65])]) = Inr b \<and>
    to_wire (Some b) = Inr (0, Some b') \<and>
    print_message_formatted (replicate 256 9) (db_data b' @ [1, 2]) = Inr (''HEADER: 1 0 0 '' @ digits 22 @ '' '' @ digits 2 @
      newline @ entry_text (INT16, [7, 0]) @ entry_text (CHAR_TYPE, [65]))"
proof -
  have p: "\<forall>e \<in> set [(INT16, [7, 0 :: u8]), (CHAR_TYPE, [65])]. plain_entry e"
    by (simp add: plain_entry_def fixed_width_def four_byte_type_def one_byte_type_def two_byte_type_def const_simps)
  have "DATA_HEADER_SIZE + length (encode_entries [(INT16, [7, 0]), (CHAR_TYPE, [65])]) < MESSAGE_SIZE"
    by (simp add: const_simps)
  from formatted_print_shows_elements [OF p this, of "replicate 256 9" zero_data_buffer "[1, 2]"]
  show ?thesis by (simp add: data_positions const_simps numeral_2_eq_2 del: create_buffer_def serialize_all.simps)
qed

lemma formatted_print_crashes_witness:
  "print_message_formatted (replicate 256 0) ([1, 1] @ replicate 8 0 @ [32, 0, 0]) = Inl Null_Deref"
proof -
  let ?msg = "[1, 1] @ replicate 8 0 @ [32, 0, 0 :: u8]"
  have "get_protocol_version ?msg = Inr 1" by code_simp
  moreover have "load_word ?msg FLDPOS = Inr (32 :: u16)" by code_simp
  moreover have "MAX_FIELDS \<le> unat (32 :: u16)" by (simp add: const_simps)
  ultimately show ?thesis by (rule formatted_print_crashes)
qed

end
