(* ===== verification/Wii_Report.thy ===== *)
theory Wii_Report
  imports Wiimote
begin

text \<open>
  What the Wii remote's module prints: \<^verbatim>\<open>event\<close>, \<^verbatim>\<open>output_status\<close> and the counter in \<^verbatim>\<open>loop\<close> of
  \<^verbatim>\<open>wiimote.cpp\<close>, with the table of \<^verbatim>\<open>wiibutton.h\<close>.  The state next to the remote's is the
  function's static counter and the stream's precision, which \<^verbatim>\<open>setprecision\<close> leaves behind.
  How a float prints at a precision is a parameter, as is what the library reports.
\<close>

section \<open>Buttons and status\<close>

record wii_button =
  button_num :: u16
  button_str :: string

record wiiuse_all = wiiuse +
  wu_A :: u16
  wu_B :: u16
  wu_TWO :: u16

definition wii_buttons :: "wiiuse_all \<Rightarrow> wii_button list" where
  "wii_buttons W =
     [\<lparr>button_num = wu_A W, button_str = ''A''\<rparr>, \<lparr>button_num = wu_B W, button_str = ''B''\<rparr>,
      \<lparr>button_num = wu_UP W, button_str = ''UP''\<rparr>, \<lparr>button_num = wu_DOWN W, button_str = ''DOWN''\<rparr>,
      \<lparr>button_num = wu_LEFT W, button_str = ''LEFT''\<rparr>, \<lparr>button_num = wu_RIGHT W, button_str = ''RIGHT''\<rparr>,
      \<lparr>button_num = wu_MINUS W, button_str = ''MINUS''\<rparr>, \<lparr>button_num = wu_PLUS W, button_str = ''PLUS''\<rparr>,
      \<lparr>button_num = wu_ONE W, button_str = ''ONE''\<rparr>, \<lparr>button_num = wu_TWO W, button_str = ''TWO''\<rparr>,
      \<lparr>button_num = wu_HOME W, button_str = ''HOME''\<rparr>]"

datatype wii_event = WIIUSE_EVENT | WIIUSE_STATUS | WIIUSE_OTHER

text \<open>What a round meets besides what the poll leaves in the devices: the event and the battery.\<close>

record wii_input =
  wi_polled :: "wii_device list option"
  wi_now :: int
  wi_event :: wii_event
  wi_battery :: rat

record report =
  rp_counter :: nat
  rp_precision :: nat
  rp_statuses :: nat
  rp_text :: string

definition no_report :: report where
  "no_report = \<lparr>rp_counter = 0, rp_precision = 6, rp_statuses = 0, rp_text = []\<rparr>"

definition endl :: string where "endl = [CHR 0x0A]"

definition the_device :: "wiimote \<Rightarrow> wii_device res" where
  "the_device w =
     (case wm_data w of None \<Rightarrow> Inl Null_Deref | Some [] \<Rightarrow> Inl Out_Of_Bounds | Some (d # devs) \<Rightarrow> Inr d)"

definition wii_event_output :: "wiiuse_all \<Rightarrow> wiimote \<Rightarrow> report \<Rightarrow> report res" where
  "wii_event_output W w r =
     (if wm_verbose w then
        bindR (the_device w) (\<lambda>d.
          Inr (r\<lparr>rp_text := rp_text r @ concat (map (\<lambda>button.
            if wu_pressed (wiiuse.truncate W) d (button_num button) then button_str button @ '' pressed'' @ endl else [])
              (wii_buttons W))\<rparr>))
      else Inr r)"

definition output_state :: "wiimote \<Rightarrow> u8 \<Rightarrow> string \<Rightarrow> string" where
  "output_state w status name = name @ '': '' @ (if wm_state w AND status \<noteq> 0 then ''1'' else ''0'') @ endl"

text \<open>The number of statuses is kept along with the text.\<close>

definition output_status :: "(nat \<Rightarrow> rat \<Rightarrow> string) \<Rightarrow> rat \<Rightarrow> wiimote \<Rightarrow> report \<Rightarrow> report res" where
  "output_status show_float battery w r =
     bindR (the_device w) (\<lambda>_.
       Inr (r\<lparr>rp_precision := 4, rp_statuses := rp_statuses r + 1,
         rp_text := rp_text r @ ''---- CONTROLLER STATUS ----'' @ endl @
           ''battery:      '' @ show_float (rp_precision r) battery @ endl @
           ''Linear: '' @ show_float 4 (wm_linear w) @ endl @ ''Angular: '' @ show_float 4 (wm_angular w) @ endl @
           ''STATE'' @ endl @ output_state w DRIVING ''DRIVING'' @ output_state w MINING ''MINING'' @
           output_state w DUMPING ''DUMPING''\<rparr>))"

section \<open>Rounds that print\<close>

definition poll_output :: "(nat \<Rightarrow> rat \<Rightarrow> string) \<Rightarrow> wiiuse_all \<Rightarrow> wii_input \<Rightarrow> wiimote \<Rightarrow> report \<Rightarrow>
    (wiimote \<times> report) res" where
  "poll_output show_float W i w r =
     bindR (heartbeat w) (\<lambda>beats.
     bindR (poll (wi_polled i) w) (\<lambda>w.
       if beats \<and> wi_polled i \<noteq> None then
         (case wi_event i of
            WIIUSE_EVENT \<Rightarrow> bindR (wii_event_output W w r) (\<lambda>r. Inr (w, r))
          | WIIUSE_STATUS \<Rightarrow>
              if wm_verbose w then bindR (output_status show_float (wi_battery i) w r) (\<lambda>r. Inr (w, r)) else Inr (w, r)
          | WIIUSE_OTHER \<Rightarrow> Inr (w, r))
       else Inr (w, r)))"

definition loop_output :: "(nat \<Rightarrow> rat \<Rightarrow> string) \<Rightarrow> fpu \<Rightarrow> wiiuse_all \<Rightarrow> wii_input \<Rightarrow> wiimote \<Rightarrow> report \<Rightarrow>
    (wiimote \<times> report) res" where
  "loop_output show_float F W i w r =
     bindR (poll_output show_float W i w r) (\<lambda>(w, r).
     bindR (control F (wiiuse.truncate W) (wi_now i) w) (\<lambda>w.
       if wm_verbose w then
         (let r = r\<lparr>rp_counter := rp_counter r + 1\<rparr> in
          if rp_counter r > 100 then
            bindR (output_status show_float (wi_battery i) w (r\<lparr>rp_counter := 0\<rparr>)) (\<lambda>r. Inr (w, r))
          else Inr (w, r))
       else Inr (w, r)))"

fun run_output :: "(nat \<Rightarrow> rat \<Rightarrow> string) \<Rightarrow> fpu \<Rightarrow> wiiuse_all \<Rightarrow> wii_input list \<Rightarrow> wiimote \<Rightarrow> report \<Rightarrow>
    (wiimote \<times> report) res" where
  "run_output show_float F W [] w r = Inr (w, r)"
| "run_output show_float F W (i # is) w r =
     bindR (loop_output show_float F W i w r) (\<lambda>(w, r). run_output show_float F W is w r)"

section \<open>Printing changes nothing\<close>

lemma the_device_control:
  "control F W now w = Inr w' \<Longrightarrow> \<exists>d. the_device w' = Inr d"
  by (auto simp: control_def the_device_def Let_def split: option.splits list.splits prod.splits)

lemma control_keeps_verbose: "control F W now w = Inr w' \<Longrightarrow> wm_verbose w' = wm_verbose w"
  by (auto simp: control_def Let_def split: option.splits list.splits prod.splits)

lemma poll_keeps_verbose: "poll polled w = Inr w' \<Longrightarrow> wm_verbose w' = wm_verbose w"
  by (auto simp: poll_def bindR_eq_Inr split: if_splits option.splits)

lemma the_device_fault: "the_device w = Inl e \<Longrightarrow> control F W now w = Inl e"
  by (auto simp: control_def the_device_def split: option.splits list.splits)

lemma poll_output_erases:
  "case poll (wi_polled i) w of
     Inl e \<Rightarrow> poll_output show_float W i w r = Inl e
   | Inr w' \<Rightarrow> (\<exists>r'. poll_output show_float W i w r = Inr (w', r') \<and> rp_counter r' = rp_counter r \<and>
         (\<not> wm_verbose w \<longrightarrow> r' = r) \<and>
         rp_statuses r' = rp_statuses r + (if wm_verbose w \<and> heartbeat w = Inr True \<and> wi_polled i \<noteq> None \<and>
           wi_event i = WIIUSE_STATUS then 1 else 0)) \<or>
       (\<exists>e. poll_output show_float W i w r = Inl e \<and> the_device w' = Inl e)"
proof (cases "heartbeat w")
  case (Inl e)
  then show ?thesis by (simp add: poll_def poll_output_def)
next
  case (Inr beats)
  then obtain w' where p: "poll (wi_polled i) w = Inr w'" by (simp add: poll_def)
  note v = poll_keeps_verbose [OF p]
  show ?thesis
    using Inr v
    by (cases "wi_event i"; cases "the_device w'")
      (simp_all add: p poll_output_def wii_event_output_def output_status_def)
qed

text \<open>
  The printing version of a round does what the silent one does: the same remote afterwards
  or the same exception.
\<close>

lemma loop_output_erases:
  "case wii_loop F (wiiuse.truncate W) (wi_polled i) (wi_now i) w of
     Inl e \<Rightarrow> loop_output show_float F W i w r = Inl e
   | Inr w' \<Rightarrow> \<exists>r'. loop_output show_float F W i w r = Inr (w', r') \<and> wm_verbose w' = wm_verbose w \<and>
       (if wm_verbose w then
          rp_counter r' = (if rp_counter r + 1 > 100 then 0 else rp_counter r + 1) \<and>
          rp_statuses r' = rp_statuses r + (if heartbeat w = Inr True \<and> wi_polled i \<noteq> None \<and>
            wi_event i = WIIUSE_STATUS then 1 else 0) + (if rp_counter r + 1 > 100 then 1 else 0)
        else r' = r)"
proof (cases "poll (wi_polled i) w")
  case (Inl e)
  then show ?thesis
    using poll_output_erases [where i = i and w = w and show_float = show_float and W = W and r = r] by (simp add: wii_loop_def loop_output_def)
next
  case (Inr w1)
  note p = Inr and v1 = poll_keeps_verbose [OF Inr]
  show ?thesis
  proof (cases "control F (wiiuse.truncate W) (wi_now i) w1")
    case (Inl e)
    then show ?thesis
      using poll_output_erases [where i = i and w = w and show_float = show_float and W = W and r = r] the_device_fault [of w1]
      by (auto simp: wii_loop_def loop_output_def p)
  next
    case (Inr w2)
    note v2 = control_keeps_verbose [OF Inr]
    have d1: "the_device w1 \<noteq> Inl e" for e using the_device_fault [of w1 e] Inr by auto
    obtain d2 where d2: "the_device w2 = Inr d2" using the_device_control [OF Inr] by blast
    from poll_output_erases [where i = i and w = w and show_float = show_float and W = W and r = r] d1 p
    obtain r1 where r1: "poll_output show_float W i w r = Inr (w1, r1)" "rp_counter r1 = rp_counter r"
      "\<not> wm_verbose w \<longrightarrow> r1 = r"
      "rp_statuses r1 = rp_statuses r + (if wm_verbose w \<and> heartbeat w = Inr True \<and> wi_polled i \<noteq> None \<and>
           wi_event i = WIIUSE_STATUS then 1 else 0)" by auto
    have silent: "wii_loop F (wiiuse.truncate W) (wi_polled i) (wi_now i) w = Inr w2"
      using p Inr by (simp add: wii_loop_def)
    show ?thesis
    proof (cases "wm_verbose w")
      case False
      then show ?thesis using r1 v1 v2 Inr unfolding silent by (simp add: loop_output_def)
    next
      case True
      then show ?thesis using r1 v1 v2 Inr d2 unfolding silent
        by (cases "rp_counter r + 1 > 100") (simp_all add: loop_output_def output_status_def Let_def)
    qed
  qed
qed

text \<open>
  A remote that prints runs as one that does not: over any rounds both end in the same state
  or with the same exception.  A remote that is not verbose prints nothing.  A verbose one
  counts its rounds modulo 101 and prints a status at each overflow, and no other unless the
  library reports one.
\<close>

theorem printing_remote_runs_alike:
  assumes "rp_counter r \<le> 100"
  shows "case wii_run F (wiiuse.truncate W) (map (\<lambda>i. (wi_polled i, wi_now i)) inputs) w of
     Inl e \<Rightarrow> run_output show_float F W inputs w r = Inl e
   | Inr w' \<Rightarrow> \<exists>r'. run_output show_float F W inputs w r = Inr (w', r') \<and>
       (if wm_verbose w then
          rp_counter r' = (rp_counter r + length inputs) mod 101 \<and>
          rp_statuses r + (rp_counter r + length inputs) div 101 \<le> rp_statuses r' \<and>
          (list_all (\<lambda>i. wi_event i \<noteq> WIIUSE_STATUS) inputs \<longrightarrow>
             rp_statuses r' = rp_statuses r + (rp_counter r + length inputs) div 101)
        else r' = r)"
  using assms
proof (induction inputs arbitrary: w r)
  case (Cons i inputs)
  show ?case
  proof (cases "wii_loop F (wiiuse.truncate W) (wi_polled i) (wi_now i) w")
    case (Inl e)
    then show ?thesis using loop_output_erases [where F = F and W = W and i = i and w = w and show_float = show_float and r = r] by simp
  next
    case (Inr w1)
    with loop_output_erases [where F = F and W = W and i = i and w = w and show_float = show_float and r = r] obtain r1 where
      r1: "loop_output show_float F W i w r = Inr (w1, r1)" "wm_verbose w1 = wm_verbose w"
      "if wm_verbose w then
          rp_counter r1 = (if rp_counter r + 1 > 100 then 0 else rp_counter r + 1) \<and>
          rp_statuses r1 = rp_statuses r + (if heartbeat w = Inr True \<and> wi_polled i \<noteq> None \<and>
            wi_event i = WIIUSE_STATUS then 1 else 0) + (if rp_counter r + 1 > 100 then 1 else 0)
        else r1 = r" by auto
    have small: "rp_counter r1 \<le> 100" using r1(3) Cons.prems by (auto split: if_splits)
    note IH = Cons.IH [OF small, of w1]
    show ?thesis
    proof (cases "wm_verbose w \<and> rp_counter r + 1 > 100")
      case True
      then have "rp_counter r = 100" using Cons.prems by simp
      then show ?thesis using IH r1 True Inr
        by (auto split: sum.splits)
    next
      case False
      then show ?thesis using IH r1 Inr by (auto split: sum.splits if_splits)
    qed
  qed
qed (use assms in simp)

lemma printing_remote_runs_alike_witness:
  "\<exists>w' r'. run_output (\<lambda>_ _. ''x'') exact
      \<lparr>wu_pressed = wu_pressed wii_example, wu_just_pressed = wu_just_pressed wii_example, wu_UP = 0x0800, wu_DOWN = 0x0400,
        wu_LEFT = 0x0100, wu_RIGHT = 0x0200, wu_HOME = 0x0080, wu_PLUS = 0x1000, wu_MINUS = 0x0010, wu_ONE = 0x0002,
        wu_A = 8, wu_B = 4, wu_TWO = 1\<rparr>
      [\<lparr>wi_polled = None, wi_now = 5, wi_event = WIIUSE_OTHER, wi_battery = 1\<rparr>]
      (new_wiimote (default_constants exact) True (Some [\<lparr>wd_btns = 0, wd_btns_held = 0, wd_connected = True\<rparr>]))
      (no_report\<lparr>rp_counter := 100\<rparr>) = Inr (w', r') \<and> rp_counter r' = 0 \<and> rp_statuses r' = 1"
proof -
  let ?W = "\<lparr>wu_pressed = wu_pressed wii_example, wu_just_pressed = wu_just_pressed wii_example, wu_UP = 0x0800,
    wu_DOWN = 0x0400, wu_LEFT = 0x0100, wu_RIGHT = 0x0200, wu_HOME = 0x0080, wu_PLUS = 0x1000, wu_MINUS = 0x0010,
    wu_ONE = 0x0002, wu_A = 8, wu_B = 4, wu_TWO = 1\<rparr>"
  let ?i = "\<lparr>wi_polled = None, wi_now = 5, wi_event = WIIUSE_OTHER, wi_battery = 1\<rparr>"
  let ?w = "new_wiimote (default_constants exact) True (Some [\<lparr>wd_btns = 0, wd_btns_held = 0, wd_connected = True\<rparr>])"
  have w: "wm_data ?w = Some [\<lparr>wd_btns = 0, wd_btns_held = 0, wd_connected = True\<rparr>]" "wm_connected ?w \<le> 1"
    "wm_verbose ?w" by (simp_all add: new_wiimote_def)
  obtain w1 where "control exact (wiiuse.truncate ?W) 5 ?w = Inr w1"
    using control_ok [OF w(1), of exact "wiiuse.truncate ?W" 5] by blast
  then have run: "wii_run exact (wiiuse.truncate ?W) (map (\<lambda>i. (wi_polled i, wi_now i)) [?i]) ?w = Inr w1"
    using quiet_loop_ok [OF w(1,2), of exact "wiiuse.truncate ?W" 5] by simp
  have "rp_counter (no_report\<lparr>rp_counter := 100\<rparr>) \<le> 100" by simp
  from printing_remote_runs_alike [OF this, where inputs = "[?i]" and w = ?w and F = exact and W = ?W
      and show_float = "\<lambda>_ _. ''x''"]
  show ?thesis unfolding run using w(3) by (auto simp: no_report_def)
qed

end
