(* ===== verification/Spec2Isabelle.thy ===== *)
theory Spec2Isabelle
  imports Checksum Kermit_Kernel Network_Patterns Localizer Proxy_Pipe Logging Programs Wiimote
    April_Detector Client_Params Kernel_Threads Camera_Calibration Zmq_Helpers Serial_Test
    Control_Module Proxy_Sockets Message_Print Wii_Report
begin

text \<open>
  A verification library for \<^verbatim>\<open>sentinet_cpp\<close>, the communication and control software of a
  mining robot: C message libraries, C++ network clients, proxies between them, a kernel that
  drives a motor controller over a serial line, and the programs that put these together.

  \<^bold>\<open>The program.\<close>  Programs talk over ZeroMQ.  A \<^emph>\<open>ping\<close> (a packet of a code and flags) is a
  request that a server's registered function answers; \<^emph>\<open>data messages\<close> (a header and typed,
  null-terminated elements) carry velocities, odometry and positions, published under topics.
  The kernel subscribes to velocity commands, sends them to the motor controller and
  publishes what it measures; a camera publishes positions; the localizer proxy merges both
  into path states.  The messages are \<^verbatim>\<open>src/messages\<close>, the clients \<^verbatim>\<open>src/control\<close>, the
  kernel \<^verbatim>\<open>src/kernel\<close>, the proxies \<^verbatim>\<open>src/messages/pipe\<close>, the camera \<^verbatim>\<open>src/localizer\<close>, the
  remote control \<^verbatim>\<open>src/controllers\<close>, the camera's calibration \<^verbatim>\<open>.opencv_calibration\<close>, the programs \<^verbatim>\<open>src/impl\<close>.

  \<^bold>\<open>The theories\<close>, in the order they build on each other.

  \<^item> \<open>Prelude\<close>: machine integers, byte memory with checked loads and stores, the faults an
    operation can end in, the result type \<open>'a res\<close>, the little-endian layout.
  \<^item> \<open>Data_Util\<close>: \<^verbatim>\<open>data.c\<close>, bit reversals, byte order, copies.  \<open>Checksum\<close>: \<^verbatim>\<open>checksum.c\<close>.
  \<^item> \<open>Ping_Message\<close>: \<^verbatim>\<open>ping_message.c\<close>; \<open>ping_buffer\<close> is the C struct, \<open>to_wire_ping\<close> and
    \<open>serialize_from_ping\<close> write and read the bytes.
  \<^item> \<open>Data_Message\<close>: \<^verbatim>\<open>data_messages.c\<close>; \<open>serialize_data\<close> appends an element, \<open>get_data\<close> finds
    one; \<open>represents\<close> relates a buffer to the abstract list of elements it holds.
    \<open>Message_Print\<close>: what the printing functions of both files print.
  \<^item> \<open>Rmt_Messages\<close>: \<^verbatim>\<open>rmt_messages.c\<close>, the six message types.  The locale \<open>wire_message\<close> is
    what they share (a well-formed message is written and read back); it is interpreted on
    five of them.
  \<^item> \<open>Registry\<close>: the locale \<open>registry\<close>, a table that only grows, interpreted on the ping
    functions, a proxy's signals and a pipe's endpoints.  \<open>Filter_Interface\<close>: the locale
    \<open>stream_filter\<close>, what a proxy relies on in a filter, interpreted on the localizer's.
  \<^item> \<open>Thread_Contexts\<close>: the classes of \<^verbatim>\<open>NetworkPatterns.hpp\<close>, the contexts a client fills
    setter by setter and hands to its threads.
  \<^item> \<open>Zmq_Control_Client\<close>: \<^verbatim>\<open>ZMQControlClient.cpp\<close>; a client is its four tables of threads, its
    publisher and its request socket.  A thread space is a promise, a socket and a thread;
    starting, cancelling and quitting are modelled with the exceptions the C++ library throws.
  \<^item> \<open>Network_Patterns\<close>: \<^verbatim>\<open>NetworkPatterns.cpp\<close>, what the threads do: the four loops, which are
    left or held in a receive (\<open>thread_end\<close>), the thread functions that run them on a context, and \<open>dialogue\<close>, the reference for a requester and a
    server that talk to each other.
  \<^item> \<open>Client_Params\<close>: the parameter objects of \<^verbatim>\<open>ControlClientInterface.hpp\<close>, in a store,
    because a default callback refers to the object it was made in.
  \<^item> \<open>Addresses\<close>: \<^verbatim>\<open>common.h\<close> and \<^verbatim>\<open>core/common.cpp\<close>.  \<open>Logging\<close>: the logger of \<^verbatim>\<open>common.h\<close>.
  \<^item> \<open>Rmt_Control_Client\<close>: \<^verbatim>\<open>RMTControlClient.cpp\<close>, pings in both directions; \<open>ping_exchange\<close> lets
    \<open>ping_endpoint\<close> of one client talk to the callback of another.
  \<^item> \<open>Serial\<close>: \<^verbatim>\<open>serial.c\<close>, the port's settings, reads, writes and the motor controller's dialogue.
  \<^item> \<open>Zmq_Helpers\<close>: \<^verbatim>\<open>control/zhelpers.hpp\<close>, how strings become frames and frames strings, the
    dump of a message, identities.  \<open>Serial_Test\<close>: \<^verbatim>\<open>impl/serial_test.c\<close>.
  \<^item> \<open>Kermit_Kernel\<close>: \<^verbatim>\<open>KermitKernel.cpp\<close> and \<^verbatim>\<open>KermitNetworkInterface.cpp\<close>.  The state is the
    record \<open>kermit\<close>; the events its threads cause (the motor controller opened, a ping, a drive
    message, a publication, a frame sent) are the steps of \<open>kernel_step\<close>, in any order, with
    \<open>kernel_inv\<close> their invariant.
  \<^item> \<open>Kernel_Threads\<close>: the same callbacks with the sender and the publisher, one memory access
    at a time: a thread is the list of accesses it still has to do, \<open>run_threads\<close> any
    interleaving of them, with the two mutexes.
  \<^item> \<open>Localizer\<close>: \<^verbatim>\<open>Simple_Localizer.cpp\<close> (the filter \<open>convert\<close>) and \<^verbatim>\<open>PosLocalizer.cpp\<close>.
  \<^item> \<open>Proxy_Pipe\<close>: \<^verbatim>\<open>ProxyInterface.cpp\<close>, \<^verbatim>\<open>ZMQPubSubProxy.cpp\<close>, \<^verbatim>\<open>ZMQServerProxy.cpp\<close>,
    \<^verbatim>\<open>PipeInterface.cpp\<close>; a poll finds a topic and a message.  \<open>Proxy_Sockets\<close>: the same proxies on
    the sockets of \<open>Zmq_Helpers\<close>, which are opened, bound and closed, and read frame by frame.
  \<^item> \<open>April_Detector\<close>: \<^verbatim>\<open>localizer/AprilDetector.cpp\<close>, as a trace of calls of the library.
  \<^item> \<open>Wiimote\<close>: \<^verbatim>\<open>controllers/wiimote.cpp\<close>, what moves the robot.  \<open>Wii_Report\<close>: the same rounds with
    what they print and the counter that decides when.
  \<^item> \<open>Control_Module\<close>: \<^verbatim>\<open>KermitControlModule.hpp\<close>, with the bodies that the draft
    \<^verbatim>\<open>KermitControlModule.temp\<close> gives its functions; a derived class is the record \<open>virtuals\<close> of its
    overriding functions over its state, as \<open>wii_virtuals\<close> is for the remote; the remote's test
    program \<^verbatim>\<open>wiitest.cpp\<close>.
  \<^item> \<open>Camera_Calibration\<close>: \<^verbatim>\<open>.opencv_calibration/camera_calibration.cpp\<close>; a round of the main
    loop is \<open>calib_round\<close> on the record \<open>loop_state\<close>.
  \<^item> \<open>Programs\<close>: \<^verbatim>\<open>impl/kermit_kernel.cpp\<close> and \<^verbatim>\<open>impl/kermit_proxy.cpp\<close>; which addresses are in use,
    which threads are held and in which order a table is walked is the record \<open>proxy_env\<close>.
  \<^item> This theory: properties that cross components.

  \<^bold>\<open>What the lemmas show.\<close>  Messages: what is written is what is read (round trips, the
  refinement of \<open>serialize_data\<close> by appending to a list, the telling apart of message kinds),
  with the limits at which that fails, and what is printed shows what was written.  Clients: every operation keeps the thread tables
  consistent; a thread it starts has everything it uses, and can only be held by a frame or an
  answer that never comes; requesters and servers run in step; quitting joins every thread once; a request ends after its retries.  Kernel: no
  frame moves the robot before a request switches driving on, and none after
  \<^verbatim>\<open>STOP_EVERYTHING\<close>; the seven handlers refine one decision, \<open>drive_effect\<close>.  Threads: the
  callbacks behave as if run one after the other in the order they got the mutex, the stop
  holds under every interleaving, no set of threads is stuck, and a frame can mix the halves
  of two commands, each of which was commanded.  Proxies: what is
  forwarded, in which order, through which filters; on frames they do the same as long as every
  message has two, and never again after one that has not; which of them can run together.  Filter: the path state is the last
  position and the last velocities seen.  Remote: velocities within limits, switches as bit
  flips; printing changes nothing; its module sends what its getters
  answer, and its test program loops or dies, but never returns.  Camera: resources freed, positions published.
  Calibration: which settings are accepted, that they are written and read back, that a list
  of images ends in a calibration from the views the pattern was found on.  Helpers: topics and
  messages are received as they were sent and in step, what a dump prints can be read back,
  where it cannot, and how far a random identity is one.
  Programs: the argument loops equal a declarative reading, what runs of them hold, and what
  ends the proxy program: its period, an address in use, or nothing, where a thread is held.
  Together: a request over the wire decides the drive flag and the frames that follow; commands
  pass the proxy unchanged; odometry and position reach a subscriber as path states; what the
  buttons of the remote make its module send, and what a kernel that is handed it writes to the
  motors, while with the ports in the code no kernel ever is.

  \<^bold>\<open>Conventions.\<close>  An operation that can go wrong in the C or C++ sense returns \<open>'a res\<close>, the
  left side being the fault: an access outside an object, a null or dangling pointer, an
  uninitialised read, an exception of the standard library.  A member no constructor
  initialises is an option that is \<open>None\<close> until written.  Machine integers keep their width.
  In the message code a float is its bit pattern; in \<open>Wiimote\<close> it is a rational and every
  operation rounds by a parameter, in
  \<open>Camera_Calibration\<close> too, and reprojection errors are real numbers.  Code outside the repository (sockets, the operating
  system, OpenCV, apriltag, wiiuse) is a parameter: what a poll, a read or a call answers is
  an argument.  \<open>slack\<close> arguments are the bytes after a string's terminating null, which the
  readers of short messages reach.

  \<^bold>\<open>Bounds and fuel.\<close>  No definition is cut off by fuel.  Loops over data terminate by a
  measure; loops that wait on the outside world run over a list of what they meet (rounds,
  polls, messages), of any length, or are a \<open>partial_function\<close> into option whose \<open>None\<close> is
  waiting for ever (\<open>wait_loop\<close>, with both answers proved).  A receive or a join that does not
  return is a result of its own: \<open>Held\<close>, \<open>Waiting\<close> or \<open>None\<close>.  A request has its
  \<^verbatim>\<open>REQUEST_RETRIES\<close>, three.

  \<^bold>\<open>Not modelled.\<close>  The texts of logs, and printing except that of messages, memory, frames and
  the remote; sleeping and clocks, except where a time
  decides; data races within one access to a variable.
  \<^verbatim>\<open>src/apriltag\<close> is an older copy of the camera that is not built and uses a message the
  repository does not have; \<^verbatim>\<open>data.temp\<close> and the two files \<^verbatim>\<open>TransformationFilter.temp\<close> are drafts
  that no code uses; \<^verbatim>\<open>src/session\<close>,
  \<^verbatim>\<open>impl/session\<close>, \<^verbatim>\<open>ZMQMessagePipe.hpp\<close>, \<^verbatim>\<open>EKFLocalizer.hpp\<close>, \<^verbatim>\<open>ZMQCC.hpp\<close> and
  \<^verbatim>\<open>impl/installable/proxy.cpp\<close> do not compile.
  The other examples and the tests are left out.
\<close>

section \<open>A request over the wire\<close>

text \<open>The flags of a request are among the bits that survive the short header.\<close>

lemma has_flag_low:
  assumes "take_bit 32 e = take_bit 32 e'" and "n < 32"
  shows "has_flag e n = has_flag e' n"
proof -
  have "bit e n = bit e' n"
    using assms by (metis bit_take_bit_iff)
  moreover have "has_flag x n \<longleftrightarrow> bit x n" if "n < 64" for x
    using that by (simp add: has_flag_def bit_iff_and_push_bit_not_eq_0)
  ultimately show ?thesis using assms(2) by simp
qed

lemma drive_effect_low:
  assumes "take_bit 32 e = take_bit 32 e'"
  shows "drive_effect code e = drive_effect code e'"
  using has_flag_low [OF assms] by (simp add: drive_effect_def)

text \<open>For the witnesses: a drive message with the velocities 7 and 9, and a line that answers.\<close>

definition driving_message :: message where
  "driving_message = replicate 15 1 @ [7, 0, 0, 0] @ replicate 3 1 @ [9, 0, 0, 0] @ [1]"

definition answering :: "nat \<Rightarrow> read_result" where
  "answering j = Got (response_frame \<lparr>sr_v = 1, sr_w = 2, sr_w_err = 3, sr_dt = 4\<rparr> ! j)"

text \<open>
  C3: a state request, from the pinging program to the motors.  The message the client's
  \<^verbatim>\<open>ping_endpoint\<close> sends, the server's callback, the handler it finds and the reply together: the
  request is answered with an acknowledgement, and the kernel's drive flag afterwards is what the
  code and the flags that were asked for decide, although half of \<^verbatim>\<open>excess\<close> is lost on the way.  The
  next frame for the motors carries zeros after \<^verbatim>\<open>STOP_EVERYTHING\<close>, whatever drive messages came
  before and however the motor controller answers, and otherwise what they were last told; and
  once a drive message follows the request, the next frame carries its two velocities if the
  request left the flag on, and zeros if not.  (Both clients are as their constructors make them
  and go on like that, the kernel is in any state of a run, and the storage of both packets'
  strings goes on for three bytes after the null; for the frames, the motor controller is open
  and answers.)
\<close>

theorem state_request_over_the_wire:
  assumes "wf_rmt client" and "wf_rmt c" and "kernel_inv (c, k)"
    and "3 \<le> length sl1" and "3 \<le> length sl2"
  shows "\<exists>r client' c' k'. ping_exchange sl1 sl2 \<lparr>pg_type = STATE_REQUEST, pg_code = code, pg_excess = e\<rparr> client c k =
      Inr (r, client', c', k') \<and> pg_type r = ACK \<and> pg_code r = 0 \<and>
    wf_rmt client' \<and> wf_rmt c' \<and> kernel_inv (c', k') \<and> tn_dev (ke_teensy k') = tn_dev (ke_teensy k) \<and>
    ke_receiving_cvels k' = (case drive_effect code e of None \<Rightarrow> ke_receiving_cvels k | Some b \<Rightarrow> b) \<and>
    (\<forall>written inp i out i' k2. code = STOP_EVERYTHING \<and> sender_round written inp i k' = Inr (out, i', k2) \<longrightarrow>
      out = drive_frame 0 0) \<and>
    (\<forall>written inp i resp. tn_dev (ke_teensy k) \<noteq> None \<and> (\<forall>j < 17. inp (i + j) = Got (response_frame resp ! j)) \<longrightarrow>
      (\<exists>k2. sender_round written inp i k' = Inr (if code = STOP_EVERYTHING then drive_frame 0 0
        else drive_frame (tn_lin (ke_teensy k)) (tn_ang (ke_teensy k)), i + 17, k2)) \<and>
      (\<forall>slack msg l a. load_word (string_storage msg slack) 15 = Inr l \<and>
          load_word (string_storage msg slack) 22 = Inr a \<longrightarrow>
        (\<exists>k1 k2. drive_message_subscribe_callback slack msg k' = Inr k1 \<and>
          sender_round written inp i k1 =
            Inr (if ke_receiving_cvels k' then drive_frame l a else drive_frame 0 0, i + 17, k2))))"
proof -
  let ?p = "\<lparr>pg_type = STATE_REQUEST, pg_code = code, pg_excess = e\<rparr>"
  let ?ret = "\<lparr>pg_type = ACK, pg_code = 0, pg_excess = 0\<rparr>"
  let ?k = "apply_effect code (header_excess sl1 e) k"
  have eff: "drive_effect code (header_excess sl1 e) = drive_effect code e"
    by (rule drive_effect_low) (rule take_bit_header_excess)
  have cb: "rc_callbacks c (uint (pg_type ?p)) = Some robot_ping_handler"
    using assms(3) by (simp add: kernel_inv_def kernel_callbacks_def)
  have types: "pg_type ?p \<le> MAX_PING_TYPE" "pg_type ?ret \<le> MAX_PING_TYPE" by (simp_all add: const_simps)
  have handler: "robot_ping_handler (seen sl1 ?p) k = Inr (?ret, ?k)"
    by (simp add: robot_ping_handler_eq seen_def)
  obtain c1 v1 where ex: "ping_exchange sl1 sl2 ?p client c k = Inr (seen sl2 ?ret, c1, v1, ?k)"
    "wf_rmt c1" "wf_rmt v1" "rc_callbacks v1 = rc_callbacks c"
    using ping_exchange_eq [OF assms(1,2) types(1) assms(4,5) _ types(2), of k ?k] cb handler by auto
  have inv: "kernel_inv (v1, ?k)" using assms(3) ex(4) by (simp add: kernel_inv_def)
  have rec: "ke_receiving_cvels ?k = (case drive_effect code e of None \<Rightarrow> ke_receiving_cvels k | Some b \<Rightarrow> b)"
    by (simp add: apply_effect_def eff update_teensy_message_def set_receiving_def Let_def split: option.split)
  have dev: "tn_dev (ke_teensy ?k) = tn_dev (ke_teensy k)" by simp
  have told: "tn_lin (ke_teensy ?k) = (if code = STOP_EVERYTHING then 0 else tn_lin (ke_teensy k))"
    "tn_ang (ke_teensy ?k) = (if code = STOP_EVERYTHING then 0 else tn_ang (ke_teensy k))"
    by (simp_all add: apply_effect_def update_teensy_message_def set_receiving_def Let_def split: option.split)
  have len: "\<forall>d. tn_dev (ke_teensy ?k) = Some d \<longrightarrow> length (td_buffer d) = BUFFER_SIZE"
    using inv unfolding kernel_inv_def prod.case by (elim conjE)
  have zero': "out = drive_frame 0 0"
    if "code = STOP_EVERYTHING" "sender_round written inp i ?k = Inr (out, i', k2)" for written inp i out i' k2
    using sender_round_frame [OF that(2) len, THEN conjunct1] unfolding told if_P [OF that(1)] .
  have zero: "\<forall>written inp i out i' k2.
      code = STOP_EVERYTHING \<and> sender_round written inp i ?k = Inr (out, i', k2) \<longrightarrow> out = drive_frame 0 0"
    using zero' by blast
  have next_frame: "(\<exists>k2. sender_round written inp i ?k = Inr (if code = STOP_EVERYTHING then drive_frame 0 0
        else drive_frame (tn_lin (ke_teensy k)) (tn_ang (ke_teensy k)), i + 17, k2)) \<and>
      (\<forall>slack msg l a. load_word (string_storage msg slack) 15 = Inr l \<and>
          load_word (string_storage msg slack) 22 = Inr a \<longrightarrow>
        (\<exists>k1 k2. drive_message_subscribe_callback slack msg ?k = Inr k1 \<and>
          sender_round written inp i k1 =
            Inr (if ke_receiving_cvels ?k then drive_frame l a else drive_frame 0 0, i + 17, k2)))" (is "?F written inp i")
    if open_port: "tn_dev (ke_teensy k) \<noteq> None" and answers: "\<forall>j < 17. inp (i + j) = Got (response_frame resp ! j)"
    for written inp i resp
  proof (intro conjI allI impI)
    obtain d where d: "tn_dev (ke_teensy ?k) = Some d" using open_port dev by auto
    show "\<exists>k2. sender_round written inp i ?k = Inr (if code = STOP_EVERYTHING then drive_frame 0 0
        else drive_frame (tn_lin (ke_teensy k)) (tn_ang (ke_teensy k)), i + 17, k2)"
      using sender_round_sends [OF d _ answers [rule_format], of written] len d told
      by (cases "code = STOP_EVERYTHING") auto
    fix slack msg and l a :: float32
    assume "load_word (string_storage msg slack) 15 = Inr l \<and> load_word (string_storage msg slack) 22 = Inr a"
    then show "\<exists>k1 k2. drive_message_subscribe_callback slack msg ?k = Inr k1 \<and>
      sender_round written inp i k1 = Inr (if ke_receiving_cvels ?k then drive_frame l a else drive_frame 0 0, i + 17, k2)"
      using drive_then_send [OF inv d answers [rule_format]] by blast
  qed
  have reply: "pg_type (seen sl2 ?ret) = ACK" "pg_code (seen sl2 ?ret) = 0" by (simp_all add: seen_def)
  have frames: "\<forall>written inp i resp. tn_dev (ke_teensy k) \<noteq> None \<and>
      (\<forall>j < 17. inp (i + j) = Got (response_frame resp ! j)) \<longrightarrow> ?F written inp i"
    by (intro allI impI, elim conjE) (rule next_frame)
  show ?thesis by (intro exI conjI) (rule ex(1-3) reply inv dev rec zero frames)+
qed

lemma state_request_over_the_wire_witness:
  "\<exists>client :: nat rmt_client. \<exists>c k k0 r client1 c1 k1 k2 k3 r' client2 c2 k4 k5.
    new_kermit False False = Inr (c, k) \<and> init_teensy_peripheral open_port k = Inr (True, k0) \<and>
    ping_exchange [0, 0, 0] [0, 0, 0] \<lparr>pg_type = STATE_REQUEST, pg_code = MOVE_TO_MINE, pg_excess = 2\<rparr> client c k0 =
      Inr (r, client1, c1, k1) \<and> pg_type r = ACK \<and> ke_receiving_cvels k1 \<and>
    drive_message_subscribe_callback [] driving_message k1 = Inr k2 \<and>
    sender_round 11 answering 0 k2 = Inr (drive_frame 7 9, 17, k3) \<and>
    ping_exchange [0, 0, 0] [0, 0, 0] \<lparr>pg_type = STATE_REQUEST, pg_code = STOP_EVERYTHING, pg_excess = 0\<rparr> client1 c1 k2 =
      Inr (r', client2, c2, k4) \<and> pg_type r' = ACK \<and> sender_round 11 answering 0 k4 = Inr (drive_frame 0 0, 17, k5)"
proof -
  obtain client :: "nat rmt_client" where client: "wf_rmt client" using wf_new_rmt_client by blast
  obtain c k k0 dev where k: "new_kermit False False = Inr (c, k)" "init_teensy_peripheral open_port k = Inr (True, k0)"
    "kernel_inv (c, k0)" "wf_rmt c" "tn_dev (ke_teensy k0) = Some dev" using started_kermit by blast
  have eff: "drive_effect MOVE_TO_MINE 2 = Some True" by code_simp
  have sl: "3 \<le> length [0, 0, 0 :: u8]" by simp
  have line: "\<forall>j < 17. answering (0 + j) = Got (response_frame \<lparr>sr_v = 1, sr_w = 2, sr_w_err = 3, sr_dt = 4\<rparr> ! j)"
    by (simp add: answering_def)
  let ?Then = "\<lambda>written inp i k. \<forall>slack msg l a. load_word (string_storage msg slack) 15 = Inr l \<and>
      load_word (string_storage msg slack) 22 = Inr a \<longrightarrow>
    (\<exists>k1 k2. drive_message_subscribe_callback slack msg k = Inr k1 \<and>
      sender_round written inp i k1 = Inr (if ke_receiving_cvels k then drive_frame l a else drive_frame 0 0, i + 17, k2))"
  have lw: "load_word (string_storage driving_message []) 15 = Inr (7 :: u32)"
    "load_word (string_storage driving_message []) 22 = Inr (9 :: u32)" by code_simp+
  from state_request_over_the_wire [OF client k(4,3) sl sl, of MOVE_TO_MINE 2]
  obtain r client1 c1 k1 where r: "ping_exchange [0, 0, 0] [0, 0, 0]
      \<lparr>pg_type = STATE_REQUEST, pg_code = MOVE_TO_MINE, pg_excess = 2\<rparr> client c k0 = Inr (r, client1, c1, k1)"
    "pg_type r = ACK" "ke_receiving_cvels k1 = True" "wf_rmt client1" "wf_rmt c1" "kernel_inv (c1, k1)"
    "tn_dev (ke_teensy k1) = tn_dev (ke_teensy k0)"
    and frames: "\<forall>written inp i resp. tn_dev (ke_teensy k0) \<noteq> None \<and> (\<forall>j < 17. inp (i + j) = Got (response_frame resp ! j)) \<longrightarrow>
      (\<exists>k2. sender_round written inp i k1 = Inr (if MOVE_TO_MINE = STOP_EVERYTHING then drive_frame 0 0
        else drive_frame (tn_lin (ke_teensy k0)) (tn_ang (ke_teensy k0)), i + 17, k2)) \<and> ?Then written inp i k1"
    unfolding eff option.case by (elim exE conjE) (rule that)
  have dev0: "tn_dev (ke_teensy k0) \<noteq> None" using k(5) by simp
  from frames [rule_format, OF conjI [OF dev0 line], THEN conjunct2, rule_format, OF conjI [OF lw], of 11] r(3)
  obtain k2 k3 where d: "drive_message_subscribe_callback [] driving_message k1 = Inr k2"
    "sender_round 11 answering 0 k2 = Inr (drive_frame 7 9, 17, k3)" by auto
  have inv2: "kernel_inv (c1, k2)" by (rule kernel_inv_step [OF kernel_step.drive [OF d(1)] r(6)])
  have "tn_dev (ke_teensy k2) = Some dev"
    using r(7) d(1) k(5) by (auto simp: drive_message_subscribe_callback_def update_teensy_message_def bindR_eq_Inr Let_def split: if_splits)
  then have dev2: "tn_dev (ke_teensy k2) \<noteq> None" by simp
  from state_request_over_the_wire [OF r(4,5) inv2 sl sl, of STOP_EVERYTHING 0]
  obtain r' client2 c2 k4 where s: "ping_exchange [0, 0, 0] [0, 0, 0]
      \<lparr>pg_type = STATE_REQUEST, pg_code = STOP_EVERYTHING, pg_excess = 0\<rparr> client1 c1 k2 = Inr (r', client2, c2, k4)"
    "pg_type r' = ACK"
    and stop: "\<forall>written inp i resp. tn_dev (ke_teensy k2) \<noteq> None \<and> (\<forall>j < 17. inp (i + j) = Got (response_frame resp ! j)) \<longrightarrow>
      (\<exists>k5. sender_round written inp i k4 = Inr (if STOP_EVERYTHING = STOP_EVERYTHING then drive_frame 0 0
        else drive_frame (tn_lin (ke_teensy k2)) (tn_ang (ke_teensy k2)), i + 17, k5)) \<and> ?Then written inp i k4"
    by (elim exE conjE) (rule that)
  from stop [rule_format, OF conjI [OF dev2 line], THEN conjunct1, of 11]
  obtain k5 where z: "sender_round 11 answering 0 k4 = Inr (drive_frame 0 0, 17, k5)" by auto
  have on: "ke_receiving_cvels k1" using r(3) by simp
  show ?thesis by (intro exI conjI) (rule k(1,2) r(1,2) on d s z)+
qed

section \<open>Messages through the proxies\<close>

text \<open>A round of a running proxy whose poll finds a message.\<close>

definition finds :: "string \<Rightarrow> message \<Rightarrow> round" where
  "finds topic m = \<lparr>ro_paused = False, ro_running = True, ro_exit = False,
     ro_found = Some (bytes_of_string topic, m)\<rparr>"

lemma found_of_finds: "found_of (takeWhile goes_on (map (finds topic) ms)) = map (Pair (bytes_of_string topic)) ms"
  by (induction ms) (auto simp: found_of_def finds_def goes_on_def)

lemma no_stop_in_finds: "\<not> (\<exists>r \<in> set (map (finds topic) ms). \<not> goes_on r)"
  by (auto simp: finds_def goes_on_def)

lemma frames_of_map: "frames_of (map (Pair topic) ms) = concat (map (\<lambda>m. [bytes_of_string topic, m]) ms)"
  by (induction ms) auto

lemma proxy_on_finds:
  assumes "filter_stream conv (px_filters px) (map (Pair (bytes_of_string topic)) ms) = Inr (out, fs)"
    and "\<not> px_adding_filter px"
  shows "\<exists>px'. proxy_start conv (map (finds topic) ms) px = Inr (False, px', out) \<and> px_filters px' = fs"
proof -
  let ?px = "px\<lparr>px_paused := False, px_sockets := True\<rparr>"
  have "filter_stream conv (px_filters ?px) (found_of (takeWhile goes_on (map (finds topic) ms))) = Inr (out, fs)"
    unfolding found_of_finds using assms(1) by simp
  moreover have "spin_loop conv (map (finds topic) ms) ?px =
      bindR (filter_stream conv (px_filters ?px) (found_of (takeWhile goes_on (map (finds topic) ms)))) (\<lambda>(out, fs).
        Inr (\<exists>r \<in> set (map (finds topic) ms). \<not> goes_on r, ?px\<lparr>px_filters := fs\<rparr>, out))"
    using assms(2) by (intro spin_loop_stream) simp_all
  ultimately show ?thesis
    using no_stop_in_finds [of topic ms] unfolding proxy_start_def by (simp del: set_map)
qed

text \<open>For the witnesses: a system in which no address is in use and no thread is held.\<close>

definition quiet_env :: proxy_env where
  "quiet_env = \<lparr>en_in_use = \<lambda>_. False, en_held = \<lambda>_. False, en_order = [cmd_vel_topic, localizer_topic]\<rparr>"

text \<open>What the programs' proxies hold.\<close>

lemma proxy_of_program:
  "pr_cmdvel opts \<Longrightarrow> proxy_at (proxies_of opts flt) cmd_vel_topic =
    Inr (new_proxy Pub_Sub cmd_vel_topic (to_bind_addr CMD_VEL_FRONT) (to_bind_addr CMD_VEL_BACK))"
  "pr_localizer opts \<Longrightarrow> proxy_at (proxies_of opts flt) localizer_topic =
    Inr (snd (add_filter flt
      (new_proxy Pub_Sub localizer_topic (to_bind_addr LOCALIZER_FRONT) (to_bind_addr LOCALIZER_BACK))))"
  using topics_distinct by (simp_all add: proxy_at_def proxies_of_def const_simps)

text \<open>The proxy of the commands, as the program makes it, forwards every message.\<close>

lemma cmd_vel_proxy_forwards:
  assumes "proxy_meaning argv = Options opts" and "pr_cmdvel opts" and "pr_time_period opts = -1"
  obtains pipe px where "kermit_proxy_main env argv = Inr (Waiting (0, pipe))" and "proxy_at pipe cmd_vel_topic = Inr px"
    and "px_frontend px = to_bind_addr CMD_VEL_FRONT" and "px_backend px = to_bind_addr CMD_VEL_BACK"
    and "\<And>slack ms. \<exists>px'. proxy_start (\<lambda>f m. convert slack m f) (map (finds cmd_vel_topic) ms) px =
      Inr (False, px', frames_of (map (Pair cmd_vel_topic) ms))"
proof -
  obtain flt where flt: "new_simple_localizer = Inr flt" using wf_new_localizer by blast
  let ?px = "new_proxy Pub_Sub cmd_vel_topic (to_bind_addr CMD_VEL_FRONT) (to_bind_addr CMD_VEL_BACK)
    :: simple_localizer proxy"
  have main: "kermit_proxy_main env argv = Inr (Waiting (0, proxies_of opts flt))"
    using kermit_proxy_main_eq [OF assms(1) flt, of env] assms(3) by simp
  have "filter_stream (\<lambda>f m. convert slack m f) (px_filters ?px) (map (Pair (bytes_of_string cmd_vel_topic)) ms) =
      Inr (frames_of (map (Pair cmd_vel_topic) ms), [])" for slack ms
    by (simp add: filter_stream_no_filters frames_of_map comp_def)
  from proxy_on_finds [OF this] have px': "\<exists>px'. proxy_start (\<lambda>f m. convert slack m f) (map (finds cmd_vel_topic) ms) ?px =
      Inr (False, px', frames_of (map (Pair cmd_vel_topic) ms))" for slack ms by auto
  have ends: "px_frontend ?px = to_bind_addr CMD_VEL_FRONT" "px_backend ?px = to_bind_addr CMD_VEL_BACK"
    by (simp_all add: new_proxy_def register_signal_def Let_def split: option.split)
  show thesis by (rule that [OF main proxy_of_program(1) [OF assms(2)] ends]) (rule px')
qed

text \<open>
  C14: velocity commands pass unchanged.  What a controller's periodic publisher sends under the
  topic of the commands, the proxy program started with \<^verbatim>\<open>--cmd_vel\<close> and \<^verbatim>\<open>--time -1\<close> forwards
  frame by frame, and a subscriber to the proxy, polling in any pattern, hands its callback
  every command, in order; with the kernel's callback those are drive messages.
\<close>

theorem commands_pass_the_proxy:
  assumes "proxy_meaning argv = Options opts" and "pr_cmdvel opts" and "pr_time_period opts = -1"
    and "publish_loop cmd_vel_topic velocities n s = Inr (out, s')"
    and "length (filter id polls) = n"
  shows "\<exists>pipe px px' ms. kermit_proxy_main env argv = Inr (Waiting (0, pipe)) \<and>
    proxy_at pipe cmd_vel_topic = Inr px \<and> px_frontend px = to_bind_addr CMD_VEL_FRONT \<and>
    px_backend px = to_bind_addr CMD_VEL_BACK \<and>
    length ms = n \<and> out = frames_of (map (Pair cmd_vel_topic) ms) \<and>
    proxy_start (\<lambda>f m. convert slack m f) (map (finds cmd_vel_topic) ms) px = Inr (False, px', out) \<and>
    subscription_loop (drive_message_subscribe_callback slack) polls out k =
      end_of Left_Loop (deliver (drive_message_subscribe_callback slack) ms k)"
proof -
  obtain ms where ms: "length ms = n" "out = frames_of (map (Pair cmd_vel_topic) ms)"
    using publish_frames [OF assms(4)] by auto
  obtain pipe px where px: "kermit_proxy_main env argv = Inr (Waiting (0, pipe))" "proxy_at pipe cmd_vel_topic = Inr px"
    "px_frontend px = to_bind_addr CMD_VEL_FRONT" "px_backend px = to_bind_addr CMD_VEL_BACK"
    "\<And>slack ms. \<exists>px'. proxy_start (\<lambda>f m. convert slack m f) (map (finds cmd_vel_topic) ms) px =
      Inr (False, px', frames_of (map (Pair cmd_vel_topic) ms))"
    by (rule cmd_vel_proxy_forwards [OF assms(1-3)]) blast
  obtain px' where px': "proxy_start (\<lambda>f m. convert slack m f) (map (finds cmd_vel_topic) ms) px = Inr (False, px', out)"
    using px(5) [where slack = slack and ms = ms] ms(2) by blast
  have sub: "subscription_loop (drive_message_subscribe_callback slack) polls out k =
      end_of Left_Loop (deliver (drive_message_subscribe_callback slack) ms k)"
    using subscription_delivers [of polls "map (Pair cmd_vel_topic) ms"] assms(5) ms by (simp add: comp_def)
  show ?thesis by (intro exI conjI) (rule px(1-4) ms px' sub)+
qed

lemma commands_pass_the_proxy_witness:
  "\<exists>pipe px px'. kermit_proxy_main quiet_env [''kermit_proxy'', ''--cmd_vel'', ''-t'', ''-1''] = Inr (Waiting (0, pipe)) \<and>
    proxy_at pipe cmd_vel_topic = Inr px \<and>
    proxy_start (\<lambda>f m. convert [] m f) (map (finds cmd_vel_topic) [[5], [6]]) px =
      Inr (False, px', frames_of [(cmd_vel_topic, [5]), (cmd_vel_topic, [6])])"
proof -
  have m: "proxy_meaning [''kermit_proxy'', ''--cmd_vel'', ''-t'', ''-1''] =
      Options \<lparr>pr_cmdvel = True, pr_localizer = False, pr_timer = True, pr_time_period = -1\<rparr>" (is "_ = Options ?o")
    by code_simp
  have o: "pr_cmdvel ?o" "pr_time_period ?o = -1" by simp_all
  have p: "publish_loop cmd_vel_topic (\<lambda>s :: u8. Inr ([s], s + 1)) 2 5 =
      Inr (frames_of [(cmd_vel_topic, [5]), (cmd_vel_topic, [6])], 7)"
    by (simp add: numeral_2_eq_2)
  have "length (filter id [True, False, True]) = (2 :: nat)" by simp
  from commands_pass_the_proxy [OF m o p this, of quiet_env "[]"]
  obtain pipe px px' ms where r: "kermit_proxy_main quiet_env [''kermit_proxy'', ''--cmd_vel'', ''-t'', ''-1''] = Inr (Waiting (0, pipe))"
    "proxy_at pipe cmd_vel_topic = Inr px" "length ms = (2 :: nat)"
    "frames_of [(cmd_vel_topic, [5]), (cmd_vel_topic, [6])] = frames_of (map (Pair cmd_vel_topic) ms)"
    "proxy_start (\<lambda>f m. convert [] m f) (map (finds cmd_vel_topic) ms) px =
      Inr (False, px', frames_of [(cmd_vel_topic, [5]), (cmd_vel_topic, [6])])" by metis
  have "ms = [[5], [6]]" using r(3,4) by (auto simp: numeral_2_eq_2 length_Suc_conv)
  with r(5) have e: "proxy_start (\<lambda>f m. convert [] m f) (map (finds cmd_vel_topic) [[5], [6]]) px =
      Inr (False, px', frames_of [(cmd_vel_topic, [5]), (cmd_vel_topic, [6])])" by simp
  show ?thesis by (intro exI conjI) (rule r(1,2) e)+
qed

subsection \<open>The state of the robot\<close>

lemma filter_stream_convert:
  "convert_all slack ms f = Inr (outs, f') \<Longrightarrow>
    filter_stream (\<lambda>f m. convert slack m f) [f] (map (Pair t) ms) = Inr (concat (map (\<lambda>m. [t, m]) outs), [f'])"
proof (induction ms arbitrary: f outs)
  case (Cons m ms)
  then obtain r out f1 outs1 where c: "convert slack m f = Inr (r, out, f1)"
    "convert_all slack ms f1 = Inr (outs1, f')" "outs = out # outs1"
    by (auto simp: bindR_eq_Inr)
  with Cons.IH [OF c(2)] show ?case by simp
qed simp

text \<open>What the kernel publishes is what the filter takes for odometry.\<close>

lemma odometry_observed:
  assumes "kernel_inv (c, k)" and "tn_measured (ke_teensy k) = Some r"
  shows "\<exists>odo k'. localizer_cmd_get_data k = Inr (odo, k') \<and> kernel_inv (c, k') \<and>
    observed odo = Some (Odometry (sr_v r) (sr_w r))"
proof -
  let ?t = "(ke_teensy_buffer k)\<lparr>ta_v := sr_v r, ta_w := sr_w r, ta_dt := sr_dt r\<rparr>"
  have k: "wf_teensy_sensor_array (ke_teensy_buffer k)"
    "db_byte_length (se_buff (ta_msg (ke_teensy_buffer k))) = 41"
    using assms(1) by (simp_all add: kernel_inv_def)
  then have wf: "wf_teensy_sensor_array ?t" by (simp add: wf_teensy_sensor_array_def)
  obtain d where d: "teensy_sensor_array_to_wire ?t =
      Inr (1, ?t\<lparr>ta_msg := (ta_msg ?t)\<lparr>se_buff := (se_buff (ta_msg ?t))\<lparr>db_data := d\<rparr>\<rparr>\<rparr>)"
    "length d = 256" "load_word (d @ []) 15 = Inr TEENSY_MSG" "load_word (d @ []) 22 = Inr (ta_v ?t)"
    "load_word (d @ []) 29 = Inr (ta_w ?t)" "load_word (d @ []) 36 = Inr (ta_dt ?t)"
    by (rule teensy_sensor_array_to_wire_spec [OF wf]) blast
  let ?k' = "k\<lparr>ke_teensy_buffer := ?t\<lparr>ta_msg := (ta_msg ?t)\<lparr>se_buff := (se_buff (ta_msg ?t))\<lparr>db_data := d\<rparr>\<rparr>\<rparr>\<rparr>"
  have g: "localizer_cmd_get_data k = Inr (take 41 d, ?k')"
    using localizer_cmd_get_data_eq [OF k] assms(2) d(1) by simp
  then have inv: "kernel_inv (c, ?k')" using kernel_inv_step [OF kernel_step.publish assms(1)] by blast
  have "(load_word (take 41 d) p :: u32 res) = load_word (d @ []) p" if "p + 4 \<le> 41" for p
    using that d(2) by (simp add: load_word_def load_def drop_take)
  then have "observed (take 41 d) = Some (Odometry (sr_v r) (sr_w r))"
    using d(3-6) by (simp add: observed_def)
  with g inv show ?thesis by blast
qed

text \<open>
  C13: the state of the robot, from its sensors to a subscriber.  The kernel's odometry and then
  the camera's position, found by the localizer proxy of the proxy program, leave it as two
  path states; a subscriber is handed both, the first with the velocities the motor
  controller measured and no position yet, the second with the same velocities and the
  position the camera was set to.
\<close>

theorem robot_state_reaches_subscriber:
  assumes "proxy_meaning argv = Options opts" and "pr_localizer opts" and "pr_time_period opts = -1"
    and "kernel_inv (c, k)" and "tn_measured (ke_teensy k) = Some r"
    and "pos_inv p" and "po_pos p = Some (x, y, theta)"
  shows "\<exists>odo k' cam p' pipe px px' out s1 s2.
    localizer_cmd_get_data k = Inr (odo, k') \<and> get_pos p = Inr (cam, p') \<and>
    kermit_proxy_main env argv = Inr (Waiting (0, pipe)) \<and> proxy_at pipe localizer_topic = Inr px \<and>
    proxy_start (\<lambda>f m. convert slack m f) (map (finds localizer_topic) [odo, cam]) px = Inr (False, px', out) \<and>
    subscription_loop (\<lambda>m got. Inr (got @ [m])) [True, False, True] out [] = Inr (Left_Loop, [s1, s2]) \<and>
    shows_state s1 \<lparr>lo_x = 0, lo_y = 0, lo_theta = 0, lo_v = sr_v r, lo_w = sr_w r\<rparr> \<and>
    shows_state s2 \<lparr>lo_x = x, lo_y = y, lo_theta = theta, lo_v = sr_v r, lo_w = sr_w r\<rparr>"
proof -
  obtain odo k' where odo: "localizer_cmd_get_data k = Inr (odo, k')"
    "observed odo = Some (Odometry (sr_v r) (sr_w r))"
    using odometry_observed [OF assms(4,5)] by blast
  obtain cam p' where cam: "get_pos p = Inr (cam, p')" "observed cam = Some (Position x y theta)"
    using get_pos_set [OF assms(6,7)] by blast
  obtain flt where flt: "new_simple_localizer = Inr flt" "wf_localizer flt"
    "sl_state flt = \<lparr>lo_x = 0, lo_y = 0, lo_theta = 0, lo_v = 0, lo_w = 0\<rparr>"
    using wf_new_localizer by blast
  have "map observed [odo, cam] = map Some [Odometry (sr_v r) (sr_w r), Position x y theta]"
    using odo(2) cam(2) by simp
  from convert_all_eq [OF flt(2) this, of slack]
  obtain outs f' where outs: "convert_all slack [odo, cam] flt = Inr (outs, f')" "length outs = 2"
    "\<forall>i < 2. shows_state (outs ! i)
      (fold observe (take (Suc i) [Odometry (sr_v r) (sr_w r), Position x y theta]) (sl_state flt))" by auto
  obtain s1 s2 where s: "outs = [s1, s2]" using outs(2) by (auto simp: numeral_2_eq_2 length_Suc_conv)
  have st: "shows_state s1 \<lparr>lo_x = 0, lo_y = 0, lo_theta = 0, lo_v = sr_v r, lo_w = sr_w r\<rparr>"
    "shows_state s2 \<lparr>lo_x = x, lo_y = y, lo_theta = theta, lo_v = sr_v r, lo_w = sr_w r\<rparr>"
    using outs(3) [rule_format, of 0] outs(3) [rule_format, of 1] by (simp_all add: s flt(3))
  have main: "kermit_proxy_main env argv = Inr (Waiting (0, proxies_of opts flt))"
    using kermit_proxy_main_eq [OF assms(1) flt(1), of env] assms(3) by simp
  let ?px = "snd (add_filter flt
    (new_proxy Pub_Sub localizer_topic (to_bind_addr LOCALIZER_FRONT) (to_bind_addr LOCALIZER_BACK)))"
  have px: "px_filters ?px = [flt]" "\<not> px_adding_filter ?px" by (simp_all add: add_filter_def)
  have "filter_stream (\<lambda>f m. convert slack m f) (px_filters ?px)
      (map (Pair (bytes_of_string localizer_topic)) [odo, cam]) =
    Inr (concat (map (\<lambda>m. [bytes_of_string localizer_topic, m]) outs), [f'])"
    unfolding px(1) by (rule filter_stream_convert [OF outs(1)])
  from proxy_on_finds [OF this px(2)] obtain px' where
    start: "proxy_start (\<lambda>f m. convert slack m f) (map (finds localizer_topic) [odo, cam]) ?px =
      Inr (False, px', concat (map (\<lambda>m. [bytes_of_string localizer_topic, m]) outs))" by blast
  have sub: "subscription_loop (\<lambda>m got. Inr (got @ [m])) [True, False, True]
      (concat (map (\<lambda>m. [bytes_of_string localizer_topic, m]) outs)) [] = Inr (Left_Loop, [s1, s2])"
    by (simp add: s)
  show ?thesis
    by (intro exI conjI) (rule odo(1) cam(1) main proxy_of_program(2) [OF assms(2)] start sub st)+
qed

lemma robot_state_reaches_subscriber_witness:
  "\<exists>k odo k' p cam p' pipe px px' out s1 s2.
    localizer_cmd_get_data k = Inr (odo, k') \<and> get_pos (set_pos 1 2 3 p) = Inr (cam, p') \<and>
    kermit_proxy_main quiet_env [''kermit_proxy'', ''--localizer'', ''--time'', ''-1''] = Inr (Waiting (0, pipe)) \<and>
    proxy_at pipe localizer_topic = Inr px \<and>
    proxy_start (\<lambda>f m. convert [] m f) (map (finds localizer_topic) [odo, cam]) px = Inr (False, px', out) \<and>
    subscription_loop (\<lambda>m got. Inr (got @ [m])) [True, False, True] out [] = Inr (Left_Loop, [s1, s2]) \<and>
    shows_state s2 \<lparr>lo_x = 1, lo_y = 2, lo_theta = 3, lo_v = 5, lo_w = 7\<rparr>"
proof -
  have m: "proxy_meaning [''kermit_proxy'', ''--localizer'', ''--time'', ''-1''] =
      Options \<lparr>pr_cmdvel = False, pr_localizer = True, pr_timer = True, pr_time_period = -1\<rparr>" (is "_ = Options ?o")
    by code_simp
  have o: "pr_localizer ?o" "pr_time_period ?o = -1" by simp_all
  obtain c k where k: "new_kermit False False = Inr (c, k)" "kernel_inv (c, k)" using new_kermit_ok by blast
  let ?m = "\<lparr>sr_v = 5, sr_w = 7, sr_w_err = 0, sr_dt = 1\<rparr>"
  let ?k = "k\<lparr>ke_teensy := (ke_teensy k)\<lparr>tn_measured := Some ?m\<rparr>\<rparr>"
  have inv: "kernel_inv (c, ?k)" using k(2) by (simp add: kernel_inv_def)
  have meas: "tn_measured (ke_teensy ?k) = Some ?m" by simp
  obtain cl :: "nat rmt_client" and p where p: "new_pos_localizer = Inr (cl, p)" "pos_inv p"
    using new_pos_localizer_ok by blast
  then have pos: "pos_inv (set_pos 1 2 3 p)" "po_pos (set_pos 1 2 3 p) = Some (1, 2, 3)"
    by (simp_all add: pos_inv_def set_pos_def)
  from robot_state_reaches_subscriber [OF m o inv meas pos, of quiet_env "[]"]
  show ?thesis by (simp only: state_resp.simps) blast
qed

text \<open>
  C15: the localizer proxy survives.  With its filter set, through any rounds in which the
  messages found are long enough for the fields their type promises, it never fails, forwards
  one path state for each of them, and ends exactly when a round finds it paused, stopped or
  told to exit; nothing a message contains can stop it.
\<close>

theorem localizer_proxy_survives:
  assumes "proxy_meaning argv = Options opts" and "pr_localizer opts" and "pr_time_period opts = -1"
    and "\<forall>(t, m) \<in> set (found_of (takeWhile goes_on rounds)). observed m \<noteq> None"
  shows "\<exists>pipe px px' outs. kermit_proxy_main env argv = Inr (Waiting (0, pipe)) \<and>
    proxy_at pipe localizer_topic = Inr px \<and>
    proxy_start (\<lambda>f m. convert slack m f) rounds px = Inr (list_ex (\<lambda>r. \<not> goes_on r) rounds, px',
      concat (map2 (\<lambda>(t, _) m. [t, m]) (found_of (takeWhile goes_on rounds)) outs)) \<and>
    length outs = length (found_of (takeWhile goes_on rounds)) \<and> (\<forall>m \<in> set outs. observed m \<noteq> None)"
proof -
  obtain flt where flt: "new_simple_localizer = Inr flt" "wf_localizer flt" using wf_new_localizer by blast
  have main: "kermit_proxy_main env argv = Inr (Waiting (0, proxies_of opts flt))"
    using kermit_proxy_main_eq [OF assms(1) flt(1), of env] assms(3) by simp
  let ?px = "snd (add_filter flt
    (new_proxy Pub_Sub localizer_topic (to_bind_addr LOCALIZER_FRONT) (to_bind_addr LOCALIZER_BACK)))"
  have "list_all wf_localizer (px_filters ?px)" "\<not> px_adding_filter ?px"
    using flt(2) by (simp_all add: add_filter_def)
  moreover have "list_all (\<lambda>(t, m). observed m \<noteq> None) (found_of (takeWhile goes_on rounds))"
    using assms(4) by (simp add: list_all_iff)
  ultimately obtain px' outs where run: "proxy_start (\<lambda>f m. convert slack m f) rounds ?px =
      Inr (list_ex (\<lambda>r. \<not> goes_on r) rounds, px',
        concat (map2 (\<lambda>(t, _) m. [t, m]) (found_of (takeWhile goes_on rounds)) outs))"
    "length outs = length (found_of (takeWhile goes_on rounds))" "list_all (\<lambda>m. observed m \<noteq> None) outs"
    using localizer_filter.proxy_goes_on [of ?px rounds slack] by blast
  have readable: "\<forall>m \<in> set outs. observed m \<noteq> None" using run(3) by (simp add: list_all_iff)
  show ?thesis
    by (intro exI conjI) (rule main proxy_of_program(2) [OF assms(2)] run(1,2) readable)+
qed

lemma localizer_proxy_survives_witness:
  "\<exists>pipe px px' out. kermit_proxy_main quiet_env [''kermit_proxy'', ''--localizer'', ''--time'', ''-1''] =
      Inr (Waiting (0, pipe)) \<and> proxy_at pipe localizer_topic = Inr px \<and>
    proxy_start (\<lambda>f m. convert [] m f) (map (finds localizer_topic) [replicate 48 7]) px =
      Inr (False, px', [bytes_of_string localizer_topic, out])"
proof -
  have m: "proxy_meaning [''kermit_proxy'', ''--localizer'', ''--time'', ''-1''] =
      Options \<lparr>pr_cmdvel = False, pr_localizer = True, pr_timer = True, pr_time_period = -1\<rparr>" (is "_ = Options ?o")
    by code_simp
  have o: "pr_localizer ?o" "pr_time_period ?o = -1" by simp_all
  let ?rounds = "map (finds localizer_topic) [replicate 48 7]"
  have found: "found_of (takeWhile goes_on ?rounds) = [(bytes_of_string localizer_topic, replicate 48 7)]"
    unfolding found_of_finds by simp
  have "observed (replicate 48 7) \<noteq> None" by (rule long_enough_observed) simp
  then have r: "\<forall>(t, m) \<in> set (found_of (takeWhile goes_on ?rounds)). observed m \<noteq> None"
    unfolding found by simp
  have ends: "list_ex (\<lambda>r. \<not> goes_on r) ?rounds = False" by (simp add: finds_def goes_on_def)
  from localizer_proxy_survives [OF m o r, of quiet_env "[]"]
  show ?thesis unfolding found ends by (fastforce simp: length_Suc_conv)
qed

section \<open>The remote control\<close>

text \<open>The publisher a module's start makes.\<close>

lemma start_kermit_publisher:
  assumes "start_kermit vt this (w, m) = Inr (ok, w1, m1)" and "km_net m = new_zmq_client"
  shows "km_message m1 = km_message m" and "\<exists>r. vt_start vt w = Inr (r, w1)"
    and "map_of (zc_periodic_publishers (km_net m1)) (ep_cmd_vel_addr (km_endpoints m)) =
      Some (running (publisher_task (ep_cmd_vel_addr (km_endpoints m)) (ep_cmd_vel_topic (km_endpoints m))
        (Given Send_Velocities) 10000 True (Some ZMQ_PUB)))"
  using assms
  by (auto simp: start_kermit_def bindR_eq_Inr module_params_defs starting_defs new_zmq_client_def
      start_thread_fresh Let_def split: if_splits)

lemma publisher_thread_once:
  "enter_thread data_of sink_of service_of (publisher_task addr topic f p True (Some ZMQ_PUB)) (tr\<lparr>tr_rounds := 1\<rparr>) s =
    bindR (data_of f s) (\<lambda>(msg, s'). Inr (Connected addr, Left_Loop, [bytes_of_string topic, msg], s'))"
  by (cases "data_of f s")
    (auto simp: task_defs setter_defs thread_defs periodic_publish_thread_def split: prod.split)

text \<open>For the witness: a connected remote with some buttons pressed, and whole numbers for floats.\<close>

definition up_remote :: "u16 \<Rightarrow> wii_device" where
  "up_remote buttons = \<lparr>wd_btns = buttons, wd_btns_held = 0, wd_connected = True\<rparr>"

definition floor_word :: "rat \<Rightarrow> u32" where
  "floor_word r = word_of_int \<lfloor>r\<rfloor>"

lemma up_run:
  "\<exists>w1 w2. wii_start 1 1 (new_default_wiimote exact (Some [up_remote 0])) = Inr (1, w1) \<and>
    wii_run exact wii_example [(Some [up_remote 0x0800], 1000000000), (Some [up_remote 0x0800], 6000000000)] w1 = Inr w2 \<and>
    wii_lin w2 = 100 \<and> wii_ang w2 = 0"
  by (simp add: up_remote_def wii_start_def connect_def new_default_wiimote_def new_wiimote_def default_constants_def
      wii_loop_def poll_def heartbeat_def control_def incriment_velocity_def toggle_state_def clamp_def
      zero_rounding_def ms_elapsed_def velocity_change_def exact_def wii_example_def wii_lin_def wii_ang_def
      wii_state_def const_simps Let_def)

lemma module_port: "MODULE_CMD_VEL = to_conn_addr 5570"
  by (simp add: MODULE_CMD_VEL_def to_conn_addr_def digits.simps char_of_def bit_0)

text \<open>
  C4: from the buttons of the remote to what its module sends.  A module is made and started with a
  remote, found by the library or not, and looped through any rounds, neither ending in a fault; then
  the publisher it started, whose callback \<open>Send_Velocities\<close> is the module's \<^verbatim>\<open>get_data\<close>,
  sends once: on the socket connected to port 5570, under the topic \<^verbatim>\<open>cmd_vel\<close>, a message of 27
  bytes whose two velocities are the remote's, and these are within 100 and 180.  A kernel that is
  handed this message, in any state of a run with the motor controller open and answering, writes a
  frame with exactly these velocities while driving is on, and with two zeros while it is off.
  (No kernel of the repository is handed it as long as the ports are these: C16.)
\<close>

theorem remote_commands_published:
  assumes "new_module = Inr m" and vt: "vt = wii_virtuals encode nfound nconn Fp Wu"
    and "start_kermit vt this (new_default_wiimote Fp devs, m) = Inr (ok, w1, m1)"
    and "loop_kermit vt rounds w1 = Inr w2"
    and "data_of (Given Send_Velocities) = module_get_data vt"
  shows "\<exists>pub msg m2. map_of (zc_periodic_publishers (km_net m1)) (to_conn_addr 5570) = Some (running pub) \<and>
    enter_thread data_of sink_of service_of pub (tr\<lparr>tr_rounds := 1\<rparr>) (w2, m1) =
      Inr (Connected (to_conn_addr 5570), Left_Loop, [bytes_of_string ''cmd_vel'', msg], w2, m2) \<and>
    length msg = 27 \<and> \<bar>wii_lin w2\<bar> \<le> 100 \<and> \<bar>wii_ang w2\<bar> \<le> 180 \<and>
    (\<forall>slack. load_word (string_storage msg slack) 15 = Inr (encode (wii_lin w2)) \<and>
      load_word (string_storage msg slack) 22 = Inr (encode (wii_ang w2))) \<and>
    (\<forall>c k slack written inp i resp. kernel_inv (c, k) \<and> tn_dev (ke_teensy k) \<noteq> None \<and>
        (\<forall>j < 17. inp (i + j) = Got (response_frame resp ! j)) \<longrightarrow>
      (\<exists>k1 k2. drive_message_subscribe_callback slack msg k = Inr k1 \<and>
        sender_round written inp i k1 = Inr (if ke_receiving_cvels k
          then drive_frame (encode (wii_lin w2)) (encode (wii_ang w2)) else drive_frame 0 0, i + 17, k2)))"
proof -
  have m: "wf_module m" "km_net m = new_zmq_client" "ep_cmd_vel_addr (km_endpoints m) = MODULE_CMD_VEL"
    "ep_cmd_vel_topic (km_endpoints m) = ''cmd_vel''"
    using assms(1) new_module_eq by (metis sum.inject(2))+
  note pub = start_kermit_publisher [OF assms(3) m(2), unfolded m(3,4) module_port]
  have m1: "wf_module m1" using m(1) pub(1) by (simp add: wf_module_def)
  obtain d m2 where d: "module_get_data vt (w2, m1) = Inr (take 27 d, w2, m2)" "length d = 256"
    "load_word d 15 = Inr (vt_get_lin vt w2)" "load_word d 22 = Inr (vt_get_ang vt w2)"
    by (rule module_get_data_ok [OF m1, of vt w2]) blast
  have sent: "enter_thread data_of sink_of service_of (publisher_task (to_conn_addr 5570) ''cmd_vel''
      (Given Send_Velocities) 10000 True (Some ZMQ_PUB)) (tr\<lparr>tr_rounds := 1\<rparr>) (w2, m1) =
    Inr (Connected (to_conn_addr 5570), Left_Loop, [bytes_of_string ''cmd_vel'', take 27 d], w2, m2)"
    by (simp only: publisher_thread_once assms(5) d(1) bindR_Inr prod.case)
  have vel: "load_word (string_storage (take 27 d) slack) 15 = Inr (encode (wii_lin w2))"
    "load_word (string_storage (take 27 d) slack) 22 = Inr (encode (wii_ang w2))" for slack
    using d(2-4) by (simp_all add: vt wii_virtuals_def load_word_def load_def string_storage_def drop_take)
  have frame: "\<exists>k1 k2. drive_message_subscribe_callback slack (take 27 d) k = Inr k1 \<and>
      sender_round written inp i k1 = Inr (if ke_receiving_cvels k
        then drive_frame (encode (wii_lin w2)) (encode (wii_ang w2)) else drive_frame 0 0, i + 17, k2)"
    if inv: "kernel_inv (c, k)" and dev: "tn_dev (ke_teensy k) \<noteq> None"
      and line: "\<forall>j < 17. inp (i + j) = Got (response_frame resp ! j)"
    for c k slack written inp i resp
  proof -
    obtain d where "tn_dev (ke_teensy k) = Some d" using dev by blast
    from drive_then_send [OF inv this line [rule_format] vel] show ?thesis by blast
  qed
  obtain st where "wii_start nfound nconn (new_default_wiimote Fp devs) = Inr (st, w1)"
    using pub(2) by (auto simp: vt wii_virtuals_def)
  note kept = wii_start_keeps [OF this]
  have w1: "within_limits w1" "wm_constants w1 = default_constants Fp"
    by (simp_all add: within_limits_def kept new_default_wiimote_def new_wiimote_def default_constants_def DRIVING_def)
  have "wii_run Fp Wu rounds w1 = Inr w2" using assms(4) by (simp add: vt loop_kermit_wii)
  from wii_run_limits [OF w1(1) _ _ this] have "within_limits w2" "wm_constants w2 = default_constants Fp"
    by (simp_all add: w1(2) default_constants_def)
  then have lim: "\<bar>wii_lin w2\<bar> \<le> 100" "\<bar>wii_ang w2\<bar> \<le> 180"
    by (simp_all add: within_limits_def wii_lin_def wii_ang_def default_constants_def)
  have "length (take 27 d) = 27" using d(2) by simp
  with pub(3) sent lim vel frame show ?thesis by blast
qed

lemma remote_commands_published_witness:
  "\<exists>m w1 m1 w2 pub msg m2. new_module = Inr m \<and>
    start_kermit (wii_virtuals floor_word 1 1 exact wii_example) 0 (new_default_wiimote exact (Some [up_remote 0]), m) =
      Inr (True, w1, m1) \<and>
    loop_kermit (wii_virtuals floor_word 1 1 exact wii_example)
      [(Some [up_remote 0x0800], 1000000000), (Some [up_remote 0x0800], 6000000000)] w1 = Inr w2 \<and> wii_lin w2 = 100 \<and>
    map_of (zc_periodic_publishers (km_net m1)) (to_conn_addr 5570) = Some (running pub) \<and>
    enter_thread (\<lambda>_. module_get_data (wii_virtuals floor_word 1 1 exact wii_example)) (\<lambda>_ _ s. Inr s) (\<lambda>_ m s. Inr (m, s)) pub
      \<lparr>tr_rounds = 1, tr_polls = [], tr_frames = [], tr_replies = [], tr_requests = []\<rparr> (w2, m1) =
      Inr (Connected (to_conn_addr 5570), Left_Loop, [bytes_of_string ''cmd_vel'', msg], w2, m2) \<and>
    load_word (string_storage msg []) 15 = Inr (100 :: u32) \<and> load_word (string_storage msg []) 22 = Inr (0 :: u32) \<and>
    (\<exists>c k k1 k2. kernel_inv (c, k) \<and> drive_message_subscribe_callback [] msg k = Inr k1 \<and>
      sender_round 11 answering 0 k1 = Inr (drive_frame 100 0, 17, k2))"
proof -
  let ?vt = "wii_virtuals floor_word 1 1 exact wii_example" and ?w = "new_default_wiimote exact (Some [up_remote 0])"
  let ?rounds = "[(Some [up_remote 0x0800], 1000000000), (Some [up_remote 0x0800], 6000000000)]"
  let ?tr = "\<lparr>tr_rounds = 1, tr_polls = [], tr_frames = [], tr_replies = [], tr_requests = []\<rparr>"
  obtain m where m: "new_module = Inr m" using new_module_eq by blast
  obtain w1 w2 where w: "wii_start 1 1 ?w = Inr (1, w1)" "wii_run exact wii_example ?rounds w1 = Inr w2"
    "wii_lin w2 = 100" "wii_ang w2 = 0" using up_run by blast
  have "vt_start ?vt ?w = Inr (1, w1)" using w(1) by (simp add: wii_virtuals_def)
  then obtain m1 where st: "start_kermit ?vt 0 (?w, m) = Inr (True, w1, m1)"
    using module_started [OF m] by metis
  have lp: "loop_kermit ?vt ?rounds w1 = Inr w2" using w(2) by (simp only: loop_kermit_wii)
  have v: "floor_word (wii_lin w2) = 100" "floor_word (wii_ang w2) = 0" by (simp_all add: w(3,4) floor_word_def)
  from remote_commands_published [where data_of = "\<lambda>_. module_get_data ?vt" and sink_of = "\<lambda>_ _ s. Inr s" and
      service_of = "\<lambda>_ m s. Inr (m, s)" and tr = ?tr, OF m refl st lp refl, unfolded v traffic.simps]
  obtain pub msg m2 where r: "map_of (zc_periodic_publishers (km_net m1)) (to_conn_addr 5570) = Some (running pub)"
    "enter_thread (\<lambda>_. module_get_data ?vt) (\<lambda>_ _ s. Inr s) (\<lambda>_ m s. Inr (m, s)) pub ?tr (w2, m1) =
      Inr (Connected (to_conn_addr 5570), Left_Loop, [bytes_of_string ''cmd_vel'', msg], w2, m2)"
    "\<forall>slack. load_word (string_storage msg slack) 15 = Inr (100 :: u32) \<and> load_word (string_storage msg slack) 22 = Inr (0 :: u32)"
    and frames: "\<forall>c k slack written inp i resp. kernel_inv (c, k) \<and> tn_dev (ke_teensy k) \<noteq> None \<and>
        (\<forall>j < 17. inp (i + j) = Got (response_frame resp ! j)) \<longrightarrow>
      (\<exists>k1 k2. drive_message_subscribe_callback slack msg k = Inr k1 \<and>
        sender_round written inp i k1 = Inr (if ke_receiving_cvels k then drive_frame 100 0 else drive_frame 0 0, i + 17, k2))"
    by (elim exE conjE) (rule that)
  obtain c k0 k dev where k: "new_kermit False False = Inr (c, k0)" "kernel_inv (c, k)" "tn_dev (ke_teensy k) = Some dev"
    using started_kermit by blast
  let ?k = "set_receiving True k"
  have inv: "kernel_inv (c, ?k)" using k(2) by (simp add: kernel_inv_def set_receiving_def)
  have dev: "tn_dev (ke_teensy ?k) \<noteq> None" using k(3) by (simp add: set_receiving_def)
  have line: "\<forall>j < 17. answering (0 + j) = Got (response_frame \<lparr>sr_v = 1, sr_w = 2, sr_w_err = 3, sr_dt = 4\<rparr> ! j)"
    by (simp add: answering_def)
  have on: "ke_receiving_cvels ?k" by (simp add: set_receiving_def)
  from frames [rule_format, OF conjI [OF inv conjI [OF dev line]], of "[]" 11] on
  obtain k1 k2 where f: "drive_message_subscribe_callback [] msg ?k = Inr k1"
    "sender_round 11 answering 0 k1 = Inr (drive_frame 100 0, 17, k2)" by auto
  from r(3) have l: "load_word (string_storage msg []) 15 = Inr (100 :: u32)" "load_word (string_storage msg []) 22 = Inr (0 :: u32)"
    by blast+
  show ?thesis by (intro exI conjI) (rule m st lp w(3) r(1,2) l inv f)+
qed

text \<open>
  C16: with the endpoints its constructor gives it, a module never reaches the kernel.  Its publisher sends
  every command under the topic \<^verbatim>\<open>cmd_vel\<close> to port 5570, while no proxy of the proxy program is
  bound to that port, and the topic the kernel subscribed to is not a prefix of it.
\<close>

theorem module_misses_proxy:
  assumes "new_module = Inr m" and "start_kermit vt this (w, m) = Inr (ok, w1, m1)"
    and "proxy_meaning argv = Options opts" and "kermit_proxy_main env argv = Inr (Waiting (t, pipe))"
    and "enter_thread data_of any_sink any_service pub tr s = Inr (e, fin, out, s')"
    and "map_of (zc_periodic_publishers (km_net m1)) (ep_cmd_vel_addr (km_endpoints m)) = Some (running pub)"
  shows "e = Connected (to_conn_addr 5570) \<and> fin = Left_Loop \<and>
    (\<forall>ident px. proxy_at pipe ident = Inr px \<longrightarrow> px_frontend px \<noteq> to_bind_addr 5570 \<and> px_backend px \<noteq> to_bind_addr 5570) \<and>
    (\<exists>ms. length ms = tr_rounds tr \<and> out = frames_of (map (Pair ''cmd_vel'') ms)) \<and>
    (\<forall>rest. bytes_of_string ''cmd_vel'' \<noteq> bytes_of_string cmd_vel_topic @ rest)"
proof -
  have m: "km_net m = new_zmq_client" "ep_cmd_vel_addr (km_endpoints m) = MODULE_CMD_VEL"
    "ep_cmd_vel_topic (km_endpoints m) = ''cmd_vel''"
    using assms(1) new_module_eq by (metis sum.inject(2))+
  have pub: "pub = publisher_task MODULE_CMD_VEL ''cmd_vel'' (Given Send_Velocities) 10000 True (Some ZMQ_PUB)"
    using start_kermit_publisher(3) [OF assms(2) m(1)] assms(6) by (simp add: m running_def)
  have e: "e = Connected MODULE_CMD_VEL" "fin = Left_Loop" "publish_loop ''cmd_vel'' (data_of (Given Send_Velocities)) (tr_rounds tr) s = Inr (out, s')"
    using assms(5) unfolding pub
    by (auto simp: task_defs setter_defs thread_defs periodic_publish_thread_def bindR_eq_Inr)
  obtain flt where flt: "new_simple_localizer = Inr flt" using wf_new_localizer by blast
  have "pipe = proxies_of opts flt \<or>
      pipe_stop_all (en_held env) (en_order env) (proxies_of opts flt) = Inr (None, pipe)"
    using assms(4) unfolding kermit_proxy_main_eq [OF assms(3) flt]
    by (auto simp: bindR_eq_Inr split: if_splits option.splits)
  then have pipe: "ends pipe = ends (proxies_of opts flt)"
    using pipe_stop_all_keeps [OF proxies_of_ok(1)] by blast
  have far: "to_bind_addr 5470 \<noteq> to_bind_addr 5570" "to_bind_addr 5472 \<noteq> to_bind_addr 5570"
    "to_bind_addr 5452 \<noteq> to_bind_addr 5570" "to_bind_addr 5454 \<noteq> to_bind_addr 5570"
    by (simp_all add: to_bind_addr_def digits.simps char_of_def bit_0)
  have elsewhere: "px_frontend px \<noteq> to_bind_addr 5570 \<and> px_backend px \<noteq> to_bind_addr 5570"
    if "proxy_at pipe ident = Inr px" for ident px
  proof -
    have "ends pipe ident = Some (px_frontend px, px_backend px)"
      using that by (auto simp: proxy_at_def ends_def split: option.splits)
    then show ?thesis
      using far unfolding pipe by (auto simp: ends_def proxies_of_def add_filter_def split: if_splits)
  qed
  have "length (bytes_of_string ''cmd_vel'') < length (bytes_of_string cmd_vel_topic)"
    by (simp add: bytes_of_string_def cmd_vel_topic_def)
  then have apart: "bytes_of_string ''cmd_vel'' \<noteq> bytes_of_string cmd_vel_topic @ rest" for rest
    by (metis length_append not_add_less1)
  show ?thesis
    using e(1,2) module_port apart publish_frames [OF e(3)] elsewhere by simp
qed

lemma module_misses_proxy_witness:
  "\<exists>m w1 m1 pub pipe msg s'. new_module = Inr m \<and>
    start_kermit (wii_virtuals (\<lambda>_. 0) 0 0 exact wii_example) 0 (new_default_wiimote exact (Some []), m) = Inr (True, w1, m1) \<and>
    kermit_proxy_main quiet_env [''kermit_proxy'', ''--cmd_vel'', ''-t'', ''-1''] = Inr (Waiting (0, pipe)) \<and>
    enter_thread (\<lambda>(_ :: module_callback client_callback) s. Inr ([7 :: u8], s)) (\<lambda>_ _ s. Inr s) (\<lambda>_ m s. Inr (m, s)) pub
      \<lparr>tr_rounds = 1, tr_polls = [], tr_frames = [], tr_replies = [], tr_requests = []\<rparr> (0 :: nat) =
      Inr (Connected (to_conn_addr 5570), Left_Loop, [bytes_of_string ''cmd_vel'', msg], s')"
proof -
  let ?vt = "wii_virtuals (\<lambda>_. 0) 0 0 exact wii_example" and ?w = "new_default_wiimote exact (Some [])"
  let ?argv = "[''kermit_proxy'', ''--cmd_vel'', ''-t'', ''-1'']"
  let ?tr = "\<lparr>tr_rounds = 1, tr_polls = [], tr_frames = [], tr_replies = [], tr_requests = []\<rparr>"
  obtain m where m: "new_module = Inr m" "km_net m = new_zmq_client" using new_module_eq by blast
  have "vt_start ?vt ?w = Inr (1, ?w)"
    by (simp add: wii_virtuals_def wii_start_def connect_def new_default_wiimote_def new_wiimote_def)
  then obtain m1 where st: "start_kermit ?vt 0 (?w, m) = Inr (True, ?w, m1)"
    using m(2) new_module_eq m(1) by (auto simp: start_kermit_def module_params_defs starting_defs new_zmq_client_def
        start_thread_fresh Let_def)
  have p: "proxy_meaning ?argv = Options \<lparr>pr_cmdvel = True, pr_localizer = False, pr_timer = True, pr_time_period = -1\<rparr>"
    (is "_ = Options ?o") by code_simp
  obtain pipe where pipe: "kermit_proxy_main quiet_env ?argv = Inr (Waiting (0, pipe))"
    using kermit_proxy_main_eq [OF p, of _ quiet_env] wf_new_localizer by auto
  note pub = start_kermit_publisher(3) [OF st m(2)]
  have "enter_thread (\<lambda>_ s. Inr ([7 :: u8], s)) (\<lambda>_ _ s. Inr s) (\<lambda>_ m s. Inr (m, s))
      (publisher_task (ep_cmd_vel_addr (km_endpoints m)) (ep_cmd_vel_topic (km_endpoints m)) (Given Send_Velocities) 10000 True
        (Some ZMQ_PUB)) (?tr\<lparr>tr_rounds := 1\<rparr>) (0 :: nat) =
      Inr (Connected (ep_cmd_vel_addr (km_endpoints m)), Left_Loop, [bytes_of_string (ep_cmd_vel_topic (km_endpoints m)), [7]], 0)"
    unfolding publisher_thread_once by simp
  then have run: "enter_thread (\<lambda>_ s. Inr ([7 :: u8], s)) (\<lambda>_ _ s. Inr s) (\<lambda>_ m s. Inr (m, s))
      (publisher_task (ep_cmd_vel_addr (km_endpoints m)) (ep_cmd_vel_topic (km_endpoints m)) (Given Send_Velocities) 10000 True
        (Some ZMQ_PUB)) ?tr (0 :: nat) =
      Inr (Connected (ep_cmd_vel_addr (km_endpoints m)), Left_Loop, [bytes_of_string (ep_cmd_vel_topic (km_endpoints m)), [7]], 0)" by simp
  have t: "ep_cmd_vel_topic (km_endpoints m) = ''cmd_vel''" using m(1) new_module_eq by (metis sum.inject(2))
  from module_misses_proxy [OF m(1) st p pipe run pub]
  have e: "Connected (ep_cmd_vel_addr (km_endpoints m)) = Connected (to_conn_addr 5570)" by (rule conjunct1)
  from run [unfolded e t] m(1) st pipe show ?thesis by blast
qed

end
